(* ===== verification/Doubles.thy ===== *)
theory Doubles
  imports Complex_Main
begin

text \<open>
  The rounding of double precision arithmetic. A sum, difference, product or quotient of doubles is the
  exact real result rounded to the nearest double, ties to even; \<open>fl64\<close> is that rounding, for results in
  the range of the finite doubles. It is used where the program's control flow depends on rounding.
\<close>

definition round_even :: "real \<Rightarrow> int" where
  "round_even y = (let n = \<lfloor>y\<rfloor>; f = y - of_int n in if f < 1 / 2 \<or> f = 1 / 2 \<and> even n then n else n + 1)"

text \<open>The exponent of the binade of a number, subnormals included, if it is not too large.\<close>

definition binade :: "real \<Rightarrow> int option" where
  "binade x = find (\<lambda>e. \<bar>x\<bar> < 2 powi (e + 1)) [-1022..1023]"

definition fl64 :: "real \<Rightarrow> real" where
  "fl64 x = (case binade x of None \<Rightarrow> x | Some e \<Rightarrow> of_int (round_even (x * 2 powi (52 - e))) * 2 powi (e - 52))"

text \<open>The least integer whose conversion to a double overflows.\<close>

definition float_limit :: int where
  "float_limit = 2 ^ 1024 - 2 ^ 970"

lemma round_even_error: "\<bar>of_int (round_even y) - y\<bar> \<le> 1 / 2"
  unfolding round_even_def Let_def by (auto simp: abs_le_iff; linarith)

lemma round_even_int [simp]: "round_even (of_int k) = k"
  by (simp add: round_even_def)

lemma round_even_nonneg: "0 \<le> y \<Longrightarrow> 0 \<le> round_even y"
  by (simp add: round_even_def Let_def)

lemma find_upto:
  fixes a b k :: int
  assumes "a \<le> k" "k \<le> b" "P k"
  shows "\<exists>e. find P [a..b] = Some e \<and> a \<le> e \<and> e \<le> k \<and> P e"
proof (cases "find P [a..b]")
  case None
  then show ?thesis using assms by (auto simp: find_None_iff)
next
  case (Some e)
  then obtain i where i: "i < length [a..b]" "P e" "e = [a..b] ! i" "\<forall>j<i. \<not> P ([a..b] ! j)"
    by (auto simp: find_Some_iff)
  have "\<not> nat (k - a) < i"
  proof
    assume "nat (k - a) < i"
    moreover have "[a..b] ! nat (k - a) = k" using assms by (simp add: nth_upto)
    ultimately show False using i(4) assms(3) by metis
  qed
  with i(1,3) assms have "a \<le> e" "e \<le> k" by (auto simp: nth_upto)
  with Some i(2) show ?thesis by blast
qed

lemma binade_below:
  assumes "\<bar>x\<bar> < 2 powi (k + 1)" "-1022 \<le> k" "k \<le> 1023"
  obtains e where "binade x = Some e" "-1022 \<le> e" "e \<le> k" "\<bar>x\<bar> < 2 powi (e + 1)"
  using find_upto [of "-1022" k 1023 "\<lambda>e. \<bar>x\<bar> < 2 powi (e + 1)"] assms that unfolding binade_def by blast

lemma fl64_error:
  assumes "\<bar>x\<bar> < 2 powi (k + 1)" "-1022 \<le> k" "k \<le> 1023"
  shows "\<bar>fl64 x - x\<bar> \<le> 2 powi (k - 53)"
proof -
  obtain e where e: "binade x = Some e" "e \<le> k" using assms by (rule binade_below)
  let ?u = "2 powi (e - 52) :: real" and ?y = "x * 2 powi (52 - e)"
  have xy: "x = ?y * ?u" by (simp add: mult.assoc flip: power_int_add)
  have "\<bar>fl64 x - x\<bar> = \<bar>of_int (round_even ?y) - ?y\<bar> * ?u"
  proof -
    have "fl64 x - x = of_int (round_even ?y) * ?u - ?y * ?u" unfolding fl64_def e(1) option.case using xy by argo
    also have "\<dots> = (of_int (round_even ?y) - ?y) * ?u" by (rule left_diff_distrib [symmetric])
    finally show ?thesis by (simp add: abs_mult)
  qed
  also have "\<dots> \<le> 1 / 2 * ?u" using round_even_error [of ?y] by (intro mult_right_mono) simp_all
  also have "\<dots> = 2 powi (e - 53)" by (simp add: power_int_diff)
  also have "\<dots> \<le> 2 powi (k - 53)" using e(2) by (simp add: power_int_increasing)
  finally show ?thesis .
qed

lemma fl64_nonneg: "0 \<le> x \<Longrightarrow> 0 \<le> fl64 x"
  by (auto simp: fl64_def round_even_nonneg split: option.split)

lemma fl64_zero [simp]: "fl64 0 = 0"
proof (cases "binade 0")
  case (Some e)
  have "round_even 0 = 0" using round_even_int [of 0] unfolding of_int_0 .
  with Some show ?thesis unfolding fl64_def by simp
qed (unfold fl64_def, simp)

lemma fl64_int:
  assumes "\<bar>k\<bar> < 2 ^ 53"
  shows "fl64 (of_int k) = of_int k"
proof -
  have "real_of_int \<bar>k\<bar> < real_of_int (2 ^ 53)" using assms by (simp only: of_int_less_iff)
  then have "\<bar>real_of_int k\<bar> < 2 powi (52 + 1)" by (simp only: of_int_abs of_int_power of_int_numeral) (simp add: power_int_def)
  then obtain e where e: "binade (of_int k) = Some e" "e \<le> 52" by (rule binade_below) simp_all
  have up: "real_of_int k * 2 powi (52 - e) = of_int (k * 2 ^ nat (52 - e))" using e(2) by (simp add: power_int_def)
  have back_again: "(2 :: real) ^ nat (52 - e) * 2 powi (e - 52) = 1" using e(2) by (auto simp: power_int_def nat_diff_distrib' field_simps)
  have "fl64 (of_int k) = of_int (k * 2 ^ nat (52 - e)) * 2 powi (e - 52)" unfolding fl64_def e(1) option.case up round_even_int ..
  also have "\<dots> = of_int k * (2 ^ nat (52 - e) * 2 powi (e - 52))" by (simp add: mult.assoc)
  finally show ?thesis by (simp add: back_again)
qed

lemma fl64_one [simp]: "fl64 1 = 1"
  using fl64_int [of 1] unfolding of_int_1 by simp

lemma float_limit_large [simp]: "1 < float_limit"
  by (simp add: float_limit_def)

end
