(* ===== verification/Py_Values.thy ===== *)
theory Py_Values
  imports Prelude Doubles
begin

text \<open>
  What the source uses of the language's own values and standard library: JSON values as
  \<^verbatim>\<open>json.loads\<close> produces them, truth testing, \<^verbatim>\<open>int(...)\<close>, \<^verbatim>\<open>float(...)\<close> and \<^verbatim>\<open>str(...)\<close> on them,
  and \<^verbatim>\<open>uuid.UUID\<close> with its text form.

  Floats are exact reals with the three special values; rounding is not modelled. A text that
  holds JSON is represented by what \<^verbatim>\<open>json.loads\<close> makes of it (\<open>json_text\<close>): the program only ever
  decodes such a text or passes it on unchanged. Text conversions that depend on the shortest
  float rendering are fields of \<open>py_runtime\<close>, an argument of the definitions that call them.
\<close>

section \<open>Decimal text of integers\<close>

definition digit_char :: "nat \<Rightarrow> char" where
  "digit_char d = ''0123456789abcdef'' ! d"

fun nat_digits :: "nat \<Rightarrow> nat list" where
  "nat_digits n = (if n < 10 then [n] else nat_digits (n div 10) @ [n mod 10])"

declare nat_digits.simps [simp del]

definition nat_str :: "nat \<Rightarrow> string" where
  "nat_str n = map digit_char (nat_digits n)"

definition int_str :: "int \<Rightarrow> string" where
  "int_str i = (if i < 0 then CHR ''-'' # nat_str (nat (- i)) else nat_str (nat i))"

definition digit_val :: "char \<Rightarrow> nat option" where
  "digit_val c =
     (let n = (of_char c :: nat) in
      if 48 \<le> n \<and> n \<le> 57 then Some (n - 48)
      else if 97 \<le> n \<and> n \<le> 122 then Some (n - 87)
      else if 65 \<le> n \<and> n \<le> 90 then Some (n - 55)
      else None)"

section \<open>Reading integers: \<^verbatim>\<open>int(s, base)\<close>\<close>

text \<open>
  The grammar of \<^verbatim>\<open>int\<close> on ASCII text: surrounding white space is stripped, an optional sign, for
  base 16 an optional \<^verbatim>\<open>0x\<close> prefix (with at most one underscore after it), then digits with
  single underscores between them. In base 10 more than 4300 digits are refused.
\<close>

definition is_space :: "char \<Rightarrow> bool" where
  "is_space c \<longleftrightarrow> (of_char c :: nat) \<in> {9, 10, 11, 12, 13, 32}"

definition strip_chars :: "(char \<Rightarrow> bool) \<Rightarrow> string \<Rightarrow> string" where
  "strip_chars P s = rev (dropWhile P (rev (dropWhile P s)))"

fun digit_seq :: "nat \<Rightarrow> string \<Rightarrow> nat list option" where
  "digit_seq b [] = None"
| "digit_seq b (c # cs) =
     (case digit_val c of
        None \<Rightarrow> None
      | Some d \<Rightarrow>
          if b \<le> d then None
          else (case cs of
                  [] \<Rightarrow> Some [d]
                | c' # cs' \<Rightarrow> map_option ((#) d) (digit_seq b (if c' = CHR ''_'' then cs' else cs))))"

definition digits_value :: "nat \<Rightarrow> nat list \<Rightarrow> int" where
  "digits_value b ds = foldl (\<lambda>a d. a * int b + int d) 0 ds"

definition split_sign :: "string \<Rightarrow> bool \<times> string" where
  "split_sign s =
     (case s of
        c # cs \<Rightarrow> if c = CHR ''-'' then (True, cs) else if c = CHR ''+'' then (False, cs) else (False, s)
      | [] \<Rightarrow> (False, s))"

definition drop_hex_prefix :: "string \<Rightarrow> string" where
  "drop_hex_prefix s =
     (if take 2 s = ''0x'' \<or> take 2 s = ''0X''
      then (if take 1 (drop 2 s) = ''_'' then drop 3 s else drop 2 s)
      else s)"

definition py_int_base :: "nat \<Rightarrow> string \<Rightarrow> int option" where
  "py_int_base b s =
     (let (neg, body) = split_sign (strip_chars is_space s);
          body' = (if b = 16 then drop_hex_prefix body else body)
      in case digit_seq b body' of
           None \<Rightarrow> None
         | Some ds \<Rightarrow>
             if b = 10 \<and> 4300 < length ds then None
             else Some ((if neg then - 1 else 1) * digits_value b ds))"

section \<open>Floats and JSON values\<close>

datatype pyfloat = Fin real | PosInf | NegInf | NaN

fun float_le :: "pyfloat \<Rightarrow> pyfloat \<Rightarrow> bool" where
  "float_le (Fin a) (Fin b) = (a \<le> b)"
| "float_le NaN _ = False"
| "float_le _ NaN = False"
| "float_le NegInf _ = True"
| "float_le _ PosInf = True"
| "float_le _ _ = False"

fun float_lt :: "pyfloat \<Rightarrow> pyfloat \<Rightarrow> bool" where
  "float_lt (Fin a) (Fin b) = (a < b)"
| "float_lt NaN _ = False"
| "float_lt _ NaN = False"
| "float_lt NegInf NegInf = False"
| "float_lt NegInf _ = True"
| "float_lt PosInf _ = False"
| "float_lt _ PosInf = True"
| "float_lt _ _ = False"

datatype json =
    JNull
  | JBool bool
  | JInt int
  | JFloat pyfloat
  | JStr string
  | JArr "json list"
  | JObj "(string \<times> json) list"

type_synonym json_text = "pyexn + json"

definition json_loads :: "json_text \<Rightarrow> pyexn + json" where
  "json_loads t = t"

definition json_dumps :: "json \<Rightarrow> json_text" where
  "json_dumps j = Inr j"

lemma json_loads_dumps [simp]: "json_loads (json_dumps j) = Inr j"
  by (simp add: json_loads_def json_dumps_def)

record py_runtime =
  repr_of :: "json \<Rightarrow> string"
  float_of_str :: "string \<Rightarrow> pyfloat option"
  isoformat :: "real \<Rightarrow> string"

fun py_truthy :: "json \<Rightarrow> bool" where
  "py_truthy JNull = False"
| "py_truthy (JBool b) = b"
| "py_truthy (JInt i) = (i \<noteq> 0)"
| "py_truthy (JFloat f) = (f \<noteq> Fin 0)"
| "py_truthy (JStr s) = (s \<noteq> [])"
| "py_truthy (JArr xs) = (xs \<noteq> [])"
| "py_truthy (JObj kvs) = (kvs \<noteq> [])"

fun py_int :: "json \<Rightarrow> pyexn + int" where
  "py_int (JInt i) = Inr i"
| "py_int (JBool b) = Inr (if b then 1 else 0)"
| "py_int (JFloat (Fin r)) = Inr (if 0 \<le> r then \<lfloor>r\<rfloor> else \<lceil>r\<rceil>)"
| "py_int (JFloat NaN) = Inl (ValueError ''cannot convert float NaN to integer'')"
| "py_int (JFloat _) = Inl (OverflowError ''cannot convert float infinity to integer'')"
| "py_int (JStr s) =
     (case py_int_base 10 s of
        None \<Rightarrow> Inl (ValueError ''invalid literal for int() with base 10'')
      | Some i \<Rightarrow> Inr i)"
| "py_int _ = Inl (TypeError ''int() argument must be a string or a real number'')"

fun py_float :: "py_runtime \<Rightarrow> json \<Rightarrow> pyexn + pyfloat" where
  "py_float rt (JFloat f) = Inr f"
| "py_float rt (JInt i) =
     (if \<bar>i\<bar> < float_limit then Inr (Fin (fl64 (of_int i)))
      else Inl (OverflowError ''int too large to convert to float''))"
| "py_float rt (JBool b) = Inr (Fin (if b then 1 else 0))"
| "py_float rt (JStr s) =
     (case float_of_str rt s of
        None \<Rightarrow> Inl (ValueError ''could not convert string to float'')
      | Some f \<Rightarrow> Inr f)"
| "py_float rt _ = Inl (TypeError ''float() argument must be a string or a real number'')"

fun py_str :: "py_runtime \<Rightarrow> json \<Rightarrow> string" where
  "py_str rt JNull = ''None''"
| "py_str rt (JBool b) = (if b then ''True'' else ''False'')"
| "py_str rt (JInt i) = int_str i"
| "py_str rt (JStr s) = s"
| "py_str rt j = repr_of rt j"

text \<open>\<^verbatim>\<open>d[k]\<close> raises, \<^verbatim>\<open>d.get(k)\<close> does not.\<close>

type_synonym pydict = "(string \<times> json) list"

definition dict_get :: "pydict \<Rightarrow> string \<Rightarrow> json option" where
  "dict_get d k = map_of d k"

definition dict_item :: "pydict \<Rightarrow> string \<Rightarrow> pyexn + json" where
  "dict_item d k = (case map_of d k of None \<Rightarrow> Inl (KeyError k) | Some v \<Rightarrow> Inr v)"

section \<open>\<^verbatim>\<open>uuid.UUID\<close>\<close>

type_synonym uuid = "128 word"

fun hex_digits :: "nat \<Rightarrow> int \<Rightarrow> nat list" where
  "hex_digits 0 n = []"
| "hex_digits (Suc k) n = hex_digits k (n div 16) @ [nat (n mod 16)]"

definition uuid_str :: "uuid \<Rightarrow> string" where
  "uuid_str u =
     (let h = map digit_char (hex_digits 32 (uint u)) in
      take 8 h @ ''-'' @ take 4 (drop 8 h) @ ''-'' @ take 4 (drop 12 h) @ ''-'' @
      take 4 (drop 16 h) @ ''-'' @ drop 20 h)"

text \<open>\<^verbatim>\<open>s.replace(pat, "")\<close> for a non-empty pattern: occurrences are removed from the left.\<close>

function str_remove :: "string \<Rightarrow> string \<Rightarrow> string" where
  "str_remove pat [] = []"
| "str_remove pat (c # cs) =
     (if pat \<noteq> [] \<and> take (length pat) (c # cs) = pat
      then str_remove pat (drop (length pat) (c # cs))
      else c # str_remove pat cs)"
  by pat_completeness auto
termination
  by (relation "measure (\<lambda>(pat, s). length s)") auto

definition uuid_of_str :: "string \<Rightarrow> pyexn + uuid" where
  "uuid_of_str s =
     (let h = str_remove ''uuid:'' (str_remove ''urn:'' s);
          h' = str_remove ''-'' (strip_chars (\<lambda>c. c \<in> set ''{}'') h)
      in if length h' \<noteq> 32 then Inl (ValueError ''badly formed hexadecimal UUID string'')
         else (case py_int_base 16 h' of
                 None \<Rightarrow> Inl (ValueError ''invalid literal for int() with base 16'')
               | Some i \<Rightarrow>
                   if 0 \<le> i \<and> i < 2 ^ 128 then Inr (word_of_int i)
                   else Inl (ValueError ''int is out of range (need a 128-bit value)'')))"

text \<open>\<^verbatim>\<open>body[k]\<close> on a decoded JSON value with a text key, and \<^verbatim>\<open>uuid.UUID(value)\<close> on one: without a
  \<^verbatim>\<open>hex\<close> argument the constructor complains, and a value that is not a text has no \<^verbatim>\<open>replace\<close>.\<close>

fun json_item :: "json \<Rightarrow> string \<Rightarrow> pyexn + json" where
  "json_item (JObj d) k = dict_item d k"
| "json_item (JArr _) k = Inl (TypeError ''list indices must be integers or slices, not str'')"
| "json_item (JStr _) k = Inl (TypeError ''string indices must be integers, not str'')"
| "json_item _ k = Inl (TypeError ''object is not subscriptable'')"

fun uuid_of_json :: "json \<Rightarrow> pyexn + uuid" where
  "uuid_of_json (JStr s) = uuid_of_str s"
| "uuid_of_json JNull = Inl (TypeError ''one of the hex, bytes, bytes_le, fields, or int arguments must be given'')"
| "uuid_of_json _ = Inl (AttributeError ''replace'')"

section \<open>Text round trips\<close>

lemma digit_char_table:
  "d < 16 \<Longrightarrow> digit_val (digit_char d) = Some d \<and> digit_char d \<in> set ''0123456789abcdef''"
proof -
  assume "d < 16"
  then have "d \<in> set [0..<16]" by simp
  moreover have "\<forall>d \<in> set [0..<16]. digit_val (digit_char d) = Some d \<and>
      digit_char d \<in> set ''0123456789abcdef''"
    by code_simp
  ultimately show ?thesis by blast
qed

lemma digit_val_char [simp]: "d < 16 \<Longrightarrow> digit_val (digit_char d) = Some d"
  by (simp add: digit_char_table)

lemma digit_char_neq:
  assumes "d < 16" and "c \<notin> set ''0123456789abcdef''"
  shows "digit_char d \<noteq> c"
  using assms digit_char_table by blast

lemma digit_chars_avoid:
  assumes "\<forall>d \<in> set ds. d < 16" and "c \<notin> set ''0123456789abcdef''"
  shows "c \<notin> set (map digit_char ds)"
  using assms by (auto dest!: digit_char_neq)

lemma digit_seq_digits:
  assumes "ds \<noteq> []" and "\<forall>d \<in> set ds. d < b" and "b \<le> 16"
  shows "digit_seq b (map digit_char ds) = Some ds"
  using assms
proof (induction ds)
  case Nil
  then show ?case by simp
next
  case (Cons d ds)
  then have "d < 16" "d < b" by auto
  show ?case
  proof (cases ds)
    case Nil
    with \<open>d < 16\<close> \<open>d < b\<close> show ?thesis by simp
  next
    case (Cons d' ds')
    then have "d' < 16" using Cons.prems by auto
    then have "digit_char d' \<noteq> CHR ''_''" by (rule digit_char_neq) simp
    with Cons Cons.IH Cons.prems \<open>d < 16\<close> \<open>d < b\<close> show ?thesis by auto
  qed
qed

lemma digits_value_snoc: "digits_value b (ds @ [d]) = digits_value b ds * int b + int d"
  by (simp add: digits_value_def)

lemma digits_value_Nil [simp]: "digits_value b [] = 0"
  by (simp add: digits_value_def)

lemma nat_digits_props:
  "nat_digits n \<noteq> [] \<and> (\<forall>d \<in> set (nat_digits n). d < 10) \<and> digits_value 10 (nat_digits n) = int n"
proof (induction n rule: nat_digits.induct)
  case (1 n)
  show ?case
  proof (cases "n < 10")
    case True
    then show ?thesis by (subst (1 2 3) nat_digits.simps) (simp add: digits_value_def)
  next
    case False
    with 1 show ?thesis
      by (subst (1 2 3) nat_digits.simps) (auto simp: digits_value_snoc zdiv_int zmod_int)
  qed
qed

lemma nat_digits_less_16: "d \<in> set (nat_digits n) \<Longrightarrow> d < 16"
  using nat_digits_props [of n] by fastforce

lemma digit_seq_nat_str: "digit_seq 10 (nat_str n) = Some (nat_digits n)"
  unfolding nat_str_def by (rule digit_seq_digits) (use nat_digits_props [of n] in auto)

lemma nat_str_inj [simp]: "nat_str m = nat_str n \<longleftrightarrow> m = n"
proof
  assume "nat_str m = nat_str n"
  then have "nat_digits m = nat_digits n"
    using digit_seq_nat_str [of m] digit_seq_nat_str [of n] by simp
  then show "m = n"
    by (metis nat_digits_props of_nat_eq_iff)
qed simp

lemma nat_str_avoid: "c \<notin> set ''0123456789abcdef'' \<Longrightarrow> c \<notin> set (nat_str n)"
  unfolding nat_str_def by (rule digit_chars_avoid) (auto dest: nat_digits_less_16)

lemma nat_str_no_minus: "nat_str m \<noteq> CHR ''-'' # s"
proof
  assume "nat_str m = CHR ''-'' # s"
  moreover have "CHR ''-'' \<notin> set (nat_str m)" by (rule nat_str_avoid) simp
  ultimately show False by simp
qed

lemma int_str_inj [simp]: "int_str i = int_str j \<longleftrightarrow> i = j"
proof -
  have "CHR ''-'' # s \<noteq> nat_str m" for s m
    using nat_str_no_minus [of m s] by simp
  then show ?thesis by (auto simp: int_str_def nat_str_no_minus)
qed

lemma int_str_no_colon: "CHR '':'' \<notin> set (int_str i)"
proof -
  have "CHR '':'' \<notin> set (nat_str n)" for n by (rule nat_str_avoid) simp
  then show ?thesis by (simp add: int_str_def)
qed

text \<open>Two \<^verbatim>\<open>f"{holder}:{number}"\<close> texts agree only if both parts do, whatever the holder is.\<close>

lemma colon_int_inj [simp]:
  "h @ '':'' @ int_str i = h' @ '':'' @ int_str j \<longleftrightarrow> h = h' \<and> i = j"
proof
  assume "h @ '':'' @ int_str i = h' @ '':'' @ int_str j"
  then have "h @ CHR '':'' # int_str i = h' @ CHR '':'' # int_str j" by simp
  then have "h = h' \<and> int_str i = int_str j"
    by (rule last_occurrence_unique) (rule int_str_no_colon)+
  then show "h = h' \<and> i = j" by simp
qed simp

subsection \<open>UUID text\<close>

lemma str_remove_absent: "c \<notin> set s \<Longrightarrow> str_remove (c # pat) s = s"
  by (induction s) auto

lemma str_remove_char: "str_remove [c] s = filter (\<lambda>x. x \<noteq> c) s"
  by (induction s) auto

lemma strip_chars_absent:
  assumes "\<forall>c \<in> set s. \<not> P c"
  shows "strip_chars P s = s"
proof -
  have "dropWhile P t = t" if "\<forall>c \<in> set t. \<not> P c" for t
    using that by (cases t) auto
  from this [of s] this [of "rev s"] show ?thesis using assms by (simp add: strip_chars_def)
qed

lemma length_hex_digits [simp]: "length (hex_digits k n) = k"
  by (induction k arbitrary: n) auto

lemma hex_digits_less: "d \<in> set (hex_digits k n) \<Longrightarrow> d < 16"
  by (induction k arbitrary: n) auto

lemma hex_digits_value: "0 \<le> n \<Longrightarrow> digits_value 16 (hex_digits k n) = n mod 16 ^ k"
proof (induction k arbitrary: n)
  case 0
  then show ?case by simp
next
  case (Suc k)
  have "n mod (16 * 16 ^ k) = 16 * (n div 16 mod 16 ^ k) + n mod 16"
    by (rule zmod_zmult2_eq) simp
  with Suc show ?case by (simp add: digits_value_snoc)
qed

lemma uuid_str_chars:
  "set (uuid_str u) \<subseteq> insert (CHR ''-'') (digit_char ` {d. d < 16})"
  by (auto simp: uuid_str_def Let_def dest!: in_set_takeD in_set_dropD hex_digits_less)

lemma uuid_str_avoid:
  assumes "c \<notin> set ''0123456789abcdef-''"
  shows "c \<notin> set (uuid_str u)"
proof
  assume "c \<in> set (uuid_str u)"
  then consider "c = CHR ''-''" | d where "d < 16" "c = digit_char d"
    using uuid_str_chars [of u] by auto
  then show False
  proof cases
    case 1
    with assms show False by simp
  next
    case (2 d)
    then show False using assms digit_char_table [of d] by auto
  qed
qed

lemma filter_dash_digits:
  assumes "\<forall>d \<in> set ds. d < 16"
  shows "filter (\<lambda>x. x \<noteq> CHR ''-'') (map digit_char ds) = map digit_char ds"
  using assms by (intro filter_True) (auto dest!: digit_char_neq [of _ "CHR ''-''"])

lemma five_parts:
  "take 8 (drop 0 xs) @ take 4 (drop 8 xs) @ take 4 (drop 12 xs) @ take 4 (drop 16 xs) @ drop 20 xs = xs"
proof -
  have "take 12 xs = take 8 xs @ take 4 (drop 8 xs)" using take_add [of 8 4 xs] by simp
  moreover have "take 16 xs = take 12 xs @ take 4 (drop 12 xs)" using take_add [of 12 4 xs] by simp
  moreover have "take 20 xs = take 16 xs @ take 4 (drop 16 xs)" using take_add [of 16 4 xs] by simp
  moreover have "xs = take 20 xs @ drop 20 xs" by simp
  ultimately show ?thesis by simp
qed

lemma uuid_str_undash:
  "str_remove ''-'' (uuid_str u) = map digit_char (hex_digits 32 (uint u))"
proof -
  let ?ds = "hex_digits 32 (uint u)"
  have part: "filter (\<lambda>x. x \<noteq> CHR ''-'') (take m (drop n (map digit_char ?ds)))
      = take m (drop n (map digit_char ?ds))" for m n
    unfolding drop_map take_map
    by (rule filter_dash_digits) (auto dest!: in_set_takeD in_set_dropD hex_digits_less)
  have "drop 20 (map digit_char ?ds) = take 12 (drop 20 (map digit_char ?ds))" by simp
  then have "str_remove ''-'' (uuid_str u) =
      take 8 (drop 0 (map digit_char ?ds)) @ take 4 (drop 8 (map digit_char ?ds)) @
      take 4 (drop 12 (map digit_char ?ds)) @ take 4 (drop 16 (map digit_char ?ds)) @
      drop 20 (map digit_char ?ds)"
    using part [of 8 0] part [of 4 8] part [of 4 12] part [of 4 16] part [of 12 20]
    by (simp add: str_remove_char uuid_str_def Let_def)
  also have "\<dots> = map digit_char ?ds"
    by (rule five_parts)
  finally show ?thesis .
qed

lemma digit_char_not_space: "d < 16 \<Longrightarrow> is_space (digit_char d) \<Longrightarrow> False"
proof -
  have "\<forall>c \<in> set ''0123456789abcdef''. \<not> is_space c" by (simp add: is_space_def)
  then show "d < 16 \<Longrightarrow> is_space (digit_char d) \<Longrightarrow> False" using digit_char_table by blast
qed

lemma py_int_base_16_digits:
  assumes "ds \<noteq> []" and "\<forall>d \<in> set ds. d < 16"
  shows "py_int_base 16 (map digit_char ds) = Some (digits_value 16 ds)"
proof -
  let ?s = "map digit_char ds"
  have strip: "strip_chars is_space ?s = ?s"
    by (rule strip_chars_absent) (use assms(2) in \<open>auto dest: digit_char_not_space\<close>)
  obtain d ds' where ds: "ds = d # ds'" using assms(1) by (cases ds) auto
  then have "d < 16" using assms(2) by simp
  then have "digit_char d \<noteq> CHR ''-''" "digit_char d \<noteq> CHR ''+''"
    by (rule digit_char_neq, simp)+
  then have sign: "split_sign ?s = (False, ?s)" by (simp add: split_sign_def ds)
  have "CHR ''x'' \<notin> set (take 2 ?s)" "CHR ''X'' \<notin> set (take 2 ?s)"
    by (rule contra_subsetD [OF set_take_subset], rule digit_chars_avoid [OF assms(2)], simp)+
  then have "take 2 ?s \<noteq> ''0x''" "take 2 ?s \<noteq> ''0X''" by auto
  then have prefix: "drop_hex_prefix ?s = ?s" by (simp add: drop_hex_prefix_def)
  show ?thesis
    using digit_seq_digits [OF assms(1,2)] by (simp add: py_int_base_def strip sign prefix)
qed

lemma uuid_of_str_str: "uuid_of_str (uuid_str u) = Inr u"
proof -
  let ?ds = "hex_digits 32 (uint u)"
  have avoid: "c \<notin> set (uuid_str u)" if "c \<in> set ''u{}''" for c
    using that by (intro uuid_str_avoid) auto
  have urn: "str_remove ''uuid:'' (str_remove ''urn:'' (uuid_str u)) = uuid_str u"
    using avoid by (simp add: str_remove_absent)
  have braces: "strip_chars (\<lambda>c. c \<in> set ''{}'') (uuid_str u) = uuid_str u"
    by (rule strip_chars_absent) (use avoid in auto)
  have range: "0 \<le> uint u \<and> uint u < 2 ^ 128"
    using uint_lt2p [of u] by simp
  have val: "digits_value 16 ?ds = uint u"
    using range by (simp add: hex_digits_value)
  have "py_int_base 16 (map digit_char ?ds) = Some (uint u)"
    using py_int_base_16_digits [of ?ds] val by (metis hex_digits_less length_0_conv length_hex_digits zero_neq_numeral)
  with range show ?thesis
    unfolding uuid_of_str_def urn Let_def braces uuid_str_undash by simp
qed

lemma uuid_str_inj [simp]: "uuid_str u = uuid_str v \<longleftrightarrow> u = v"
  by (metis uuid_of_str_str sum.inject(2))

end
