(* ===== verification/Domain.thy ===== *)
theory Domain
  imports Py_Values
begin

text \<open>
  The job domain: \<^verbatim>\<open>src/orbiter/domain/model.py\<close> (states, events, payload validation) and
  \<^verbatim>\<open>src/orbiter/domain/state_machine.py\<close> (the transition table, \<^verbatim>\<open>apply\<close>, \<^verbatim>\<open>replay\<close>). The exceptions of
  the whole program are the values of \<open>exn\<close>; \<open>CancelledError\<close>, which the language does not count among the
  exceptions that \<^verbatim>\<open>except Exception\<close> catches, occurs in the executor only. The lemmas show that the table implements the
  lifecycle relation \<open>lifecycle\<close>, that terminal states absorb nothing, and the shape every legal
  log has.
\<close>

section \<open>\<^verbatim>\<open>domain/model.py\<close>\<close>

datatype job_state = S_SUBMITTED | S_QUEUED | S_RUNNING | S_SUCCEEDED | S_FAILED | S_DEAD_LETTER

datatype event_type =
    E_SUBMITTED | E_ENQUEUED | E_STARTED | E_COMPLETED | E_FAILED | E_REQUEUED
  | E_DEAD_LETTERED | E_REPLAYED

datatype exn =
    Py pyexn
  | IllegalTransition "job_state option" event_type
  | StaleLeaseError string int int
  | SimulatedFailure string
  | UniqueViolation string
  | DataError string
  | BrokerError string
  | CancelledError
  | HTTPException int string "(string \<times> string) list"

fun job_state_value :: "job_state \<Rightarrow> string" where
  "job_state_value S_SUBMITTED = ''submitted''"
| "job_state_value S_QUEUED = ''queued''"
| "job_state_value S_RUNNING = ''running''"
| "job_state_value S_SUCCEEDED = ''succeeded''"
| "job_state_value S_FAILED = ''failed''"
| "job_state_value S_DEAD_LETTER = ''dead_letter''"

fun event_type_value :: "event_type \<Rightarrow> string" where
  "event_type_value E_SUBMITTED = ''submitted''"
| "event_type_value E_ENQUEUED = ''enqueued''"
| "event_type_value E_STARTED = ''started''"
| "event_type_value E_COMPLETED = ''completed''"
| "event_type_value E_FAILED = ''failed''"
| "event_type_value E_REQUEUED = ''requeued''"
| "event_type_value E_DEAD_LETTERED = ''dead_lettered''"
| "event_type_value E_REPLAYED = ''replayed''"

instantiation job_state :: enum
begin

definition enum_job_state :: "job_state list" where
  "enum_job_state = [S_SUBMITTED, S_QUEUED, S_RUNNING, S_SUCCEEDED, S_FAILED, S_DEAD_LETTER]"

definition enum_all_job_state :: "(job_state \<Rightarrow> bool) \<Rightarrow> bool" where
  "enum_all_job_state P \<longleftrightarrow> list_all P enum_class.enum"

definition enum_ex_job_state :: "(job_state \<Rightarrow> bool) \<Rightarrow> bool" where
  "enum_ex_job_state P \<longleftrightarrow> list_ex P enum_class.enum"

instance
proof
  have all: "s \<in> set (enum_class.enum :: job_state list)" for s
    by (cases s) (simp_all add: enum_job_state_def)
  then show "(UNIV :: job_state set) = set enum_class.enum" by auto
  show "distinct (enum_class.enum :: job_state list)" by (simp add: enum_job_state_def)
  show "enum_class.enum_all P \<longleftrightarrow> Ball UNIV P" for P :: "job_state \<Rightarrow> bool"
    using all by (auto simp: enum_all_job_state_def list_all_iff)
  show "enum_class.enum_ex P \<longleftrightarrow> Bex UNIV P" for P :: "job_state \<Rightarrow> bool"
    using all by (auto simp: enum_ex_job_state_def list_ex_iff)
qed

end

instantiation event_type :: enum
begin

definition enum_event_type :: "event_type list" where
  "enum_event_type =
     [E_SUBMITTED, E_ENQUEUED, E_STARTED, E_COMPLETED, E_FAILED, E_REQUEUED, E_DEAD_LETTERED, E_REPLAYED]"

definition enum_all_event_type :: "(event_type \<Rightarrow> bool) \<Rightarrow> bool" where
  "enum_all_event_type P \<longleftrightarrow> list_all P enum_class.enum"

definition enum_ex_event_type :: "(event_type \<Rightarrow> bool) \<Rightarrow> bool" where
  "enum_ex_event_type P \<longleftrightarrow> list_ex P enum_class.enum"

instance
proof
  have all: "e \<in> set (enum_class.enum :: event_type list)" for e
    by (cases e) (simp_all add: enum_event_type_def)
  then show "(UNIV :: event_type set) = set enum_class.enum" by auto
  show "distinct (enum_class.enum :: event_type list)" by (simp add: enum_event_type_def)
  show "enum_class.enum_all P \<longleftrightarrow> Ball UNIV P" for P :: "event_type \<Rightarrow> bool"
    using all by (auto simp: enum_all_event_type_def list_all_iff)
  show "enum_class.enum_ex P \<longleftrightarrow> Bex UNIV P" for P :: "event_type \<Rightarrow> bool"
    using all by (auto simp: enum_ex_event_type_def list_ex_iff)
qed

end

text \<open>\<^verbatim>\<open>JobState(text)\<close> and \<^verbatim>\<open>EventType(text)\<close>: the member with that value, or a \<open>ValueError\<close>.\<close>

definition job_state_of :: "string \<Rightarrow> exn + job_state" where
  "job_state_of v =
     (case find (\<lambda>s. job_state_value s = v) enum_class.enum of
        None \<Rightarrow> Inl (Py (ValueError (v @ '' is not a valid JobState''))) | Some s \<Rightarrow> Inr s)"

definition event_type_of :: "string \<Rightarrow> exn + event_type" where
  "event_type_of v =
     (case find (\<lambda>e. event_type_value e = v) enum_class.enum of
        None \<Rightarrow> Inl (Py (ValueError (v @ '' is not a valid EventType''))) | Some e \<Rightarrow> Inr e)"

definition TERMINAL_STATES :: "job_state set" where
  "TERMINAL_STATES = {S_SUCCEEDED, S_FAILED}"

record job_event =
  ev_type :: event_type
  ev_attempt :: int
  ev_detail :: pydict
  ev_at :: real

record job_payload =
  duration_ms :: int
  failure_rate :: pyfloat

definition JobPayload :: "int \<Rightarrow> pyfloat \<Rightarrow> exn + job_payload" where
  "JobPayload d f =
     (if d < 0 then Inl (Py (ValueError ''duration_ms must be >= 0''))
      else if \<not> (float_le (Fin 0) f \<and> float_le f (Fin 1))
      then Inl (Py (ValueError ''failure_rate must be within [0, 1]''))
      else Inr \<lparr>duration_ms = d, failure_rate = f\<rparr>)"

section \<open>\<^verbatim>\<open>domain/state_machine.py\<close>\<close>

fun TRANSITIONS :: "job_state \<Rightarrow> (event_type \<times> job_state) list" where
  "TRANSITIONS S_SUBMITTED = [(E_ENQUEUED, S_QUEUED)]"
| "TRANSITIONS S_QUEUED = [(E_STARTED, S_RUNNING), (E_DEAD_LETTERED, S_DEAD_LETTER)]"
| "TRANSITIONS S_RUNNING =
     [(E_COMPLETED, S_SUCCEEDED), (E_FAILED, S_FAILED), (E_REQUEUED, S_QUEUED),
      (E_DEAD_LETTERED, S_DEAD_LETTER), (E_STARTED, S_RUNNING)]"
| "TRANSITIONS S_DEAD_LETTER = [(E_REPLAYED, S_QUEUED)]"
| "TRANSITIONS S_SUCCEEDED = []"
| "TRANSITIONS S_FAILED = []"

fun apply_event :: "job_state option \<Rightarrow> event_type \<Rightarrow> exn + job_state" where
  "apply_event None e =
     (if e = E_SUBMITTED then Inr S_SUBMITTED else Inl (IllegalTransition None e))"
| "apply_event (Some s) e =
     (case map_of (TRANSITIONS s) e of
        None \<Rightarrow> Inl (IllegalTransition (Some s) e)
      | Some s' \<Rightarrow> Inr s')"

fun replay_loop :: "job_state option \<Rightarrow> job_event list \<Rightarrow> exn + job_state option" where
  "replay_loop st [] = Inr st"
| "replay_loop st (ev # evs) =
     (case apply_event st (ev_type ev) of
        Inl x \<Rightarrow> Inl x
      | Inr s \<Rightarrow> replay_loop (Some s) evs)"

definition replay :: "job_event list \<Rightarrow> exn + job_state" where
  "replay evs =
     (case replay_loop None evs of
        Inl x \<Rightarrow> Inl x
      | Inr None \<Rightarrow> Inl (Py (ValueError ''cannot replay an empty event log''))
      | Inr (Some s) \<Rightarrow> Inr s)"

definition is_terminal :: "job_state \<Rightarrow> bool" where
  "is_terminal s \<longleftrightarrow> s \<in> TERMINAL_STATES"

fun legal_events :: "job_state option \<Rightarrow> event_type set" where
  "legal_events None = {E_SUBMITTED}"
| "legal_events (Some s) = set (map fst (TRANSITIONS s))"

section \<open>The lifecycle, as a relation\<close>

text \<open>
  The abstract specification: which moves a job's life allows, one rule per move, with the reason
  the source gives for it. \<open>restart\<close> is the recovery after a lost worker.
\<close>

inductive lifecycle :: "job_state option \<Rightarrow> event_type \<Rightarrow> job_state \<Rightarrow> bool" where
  submit: "lifecycle None E_SUBMITTED S_SUBMITTED"
| enqueue: "lifecycle (Some S_SUBMITTED) E_ENQUEUED S_QUEUED"
| start: "lifecycle (Some S_QUEUED) E_STARTED S_RUNNING"
| restart: "lifecycle (Some S_RUNNING) E_STARTED S_RUNNING"
| complete: "lifecycle (Some S_RUNNING) E_COMPLETED S_SUCCEEDED"
| fail: "lifecycle (Some S_RUNNING) E_FAILED S_FAILED"
| requeue: "lifecycle (Some S_RUNNING) E_REQUEUED S_QUEUED"
| quarantine: "s \<in> {S_QUEUED, S_RUNNING} \<Longrightarrow> lifecycle (Some s) E_DEAD_LETTERED S_DEAD_LETTER"
| replay_dead: "lifecycle (Some S_DEAD_LETTER) E_REPLAYED S_QUEUED"

inductive_simps lifecycle_simps: "lifecycle st e s"

inductive_cases lifecycle_from_None: "lifecycle None e s"
inductive_cases lifecycle_completed: "lifecycle st E_COMPLETED s"

lemma apply_event_lifecycle: "apply_event st e = Inr s \<longleftrightarrow> lifecycle st e s"
proof (cases st)
  case None
  then show ?thesis by (auto simp: lifecycle_simps split: if_splits)
next
  case (Some s0)
  then show ?thesis by (cases s0; cases e) (auto simp: lifecycle_simps)
qed

lemma apply_event_error: "apply_event st e = Inl x \<Longrightarrow> x = IllegalTransition st e"
  by (cases st) (auto split: if_splits option.splits)

lemma apply_event_legal: "is_ok (apply_event st e) \<longleftrightarrow> e \<in> legal_events st"
  by (cases st) (force split: option.splits simp: map_of_eq_None_iff dest: map_of_SomeD)+

lemma apply_event_cases:
  obtains (ok) s where "apply_event st e = Inr s" "lifecycle st e s"
    | (illegal) "apply_event st e = Inl (IllegalTransition st e)" "e \<notin> legal_events st"
proof (cases "apply_event st e")
  case (Inl x)
  then show ?thesis using illegal apply_event_error [OF Inl] apply_event_legal [of st e] by simp
next
  case (Inr s)
  then show ?thesis using ok by (simp add: apply_event_lifecycle)
qed

lemma job_state_of_value [simp]: "job_state_of (job_state_value s) = Inr s"
  by (cases s) (simp_all add: job_state_of_def enum_job_state_def)

lemma job_state_value_inj [simp]: "job_state_value s = job_state_value t \<longleftrightarrow> s = t"
  by (metis job_state_of_value sum.inject(2))

lemma event_type_of_value [simp]: "event_type_of (event_type_value e) = Inr e"
  by (cases e) (simp_all add: event_type_of_def enum_event_type_def)

lemma job_state_of_Inr: "job_state_of v = Inr s \<longleftrightarrow> v = job_state_value s"
proof
  assume "job_state_of v = Inr s"
  then have "find (\<lambda>s. job_state_value s = v) enum_class.enum = Some s"
    by (auto simp: job_state_of_def split: option.splits)
  then show "v = job_state_value s" by (auto dest: find_SomeD)
qed simp

section \<open>Logs\<close>

lemma replay_loop_append:
  "replay_loop st (xs @ ys) =
     (case replay_loop st xs of Inl x \<Rightarrow> Inl x | Inr st' \<Rightarrow> replay_loop st' ys)"
  by (induction xs arbitrary: st) (auto split: sum.splits)

lemma replay_loop_Some: "replay_loop (Some s) xs \<noteq> Inr None"
  by (induction xs arbitrary: s) (auto split: sum.splits)

lemma replay_loop_None: "replay_loop st xs = Inr None \<longleftrightarrow> st = None \<and> xs = []"
  by (cases xs) (auto split: sum.splits simp: replay_loop_Some)

lemma replay_Inr: "replay xs = Inr s \<longleftrightarrow> replay_loop None xs = Inr (Some s)"
  by (auto simp: replay_def split: sum.splits option.splits)

text \<open>Appending one event: the incremental form every writer of the log uses.\<close>

lemma replay_snoc:
  assumes "replay xs = Inr s"
  shows "replay (xs @ [ev]) = apply_event (Some s) (ev_type ev)"
  using assms by (auto simp: replay_Inr replay_def replay_loop_append split: sum.splits option.splits)

lemma replay_snoc_Inr:
  "replay (xs @ [ev]) = Inr s' \<longleftrightarrow>
     (xs = [] \<and> ev_type ev = E_SUBMITTED \<and> s' = S_SUBMITTED) \<or>
     (\<exists>s. replay xs = Inr s \<and> lifecycle (Some s) (ev_type ev) s')"
proof (cases "replay_loop None xs")
  case (Inl x)
  then have "xs \<noteq> []" by auto
  with Inl show ?thesis by (simp add: replay_Inr replay_loop_append)
next
  case (Inr st)
  then show ?thesis
    by (cases st)
      (auto simp: replay_Inr replay_loop_append replay_loop_None apply_event_lifecycle [symmetric]
        split: sum.splits if_splits)
qed

lemma terminal_no_transition: "is_terminal s \<Longrightarrow> \<not> lifecycle (Some s) e s'"
  by (auto simp: is_terminal_def TERMINAL_STATES_def lifecycle_simps)

lemma terminal_legal_events: "is_terminal s \<longleftrightarrow> legal_events (Some s) = {}"
  by (cases s) (auto simp: is_terminal_def TERMINAL_STATES_def)

text \<open>The states a log can be in, read off its last event.\<close>

fun state_after :: "event_type \<Rightarrow> job_state" where
  "state_after E_SUBMITTED = S_SUBMITTED"
| "state_after E_ENQUEUED = S_QUEUED"
| "state_after E_STARTED = S_RUNNING"
| "state_after E_COMPLETED = S_SUCCEEDED"
| "state_after E_FAILED = S_FAILED"
| "state_after E_REQUEUED = S_QUEUED"
| "state_after E_DEAD_LETTERED = S_DEAD_LETTER"
| "state_after E_REPLAYED = S_QUEUED"

lemma lifecycle_state_after: "lifecycle st e s \<Longrightarrow> s = state_after e"
  by (auto simp: lifecycle_simps)

lemma replay_last:
  assumes "replay xs = Inr s"
  shows "xs \<noteq> [] \<and> s = state_after (ev_type (last xs))"
proof (cases xs rule: rev_cases)
  case Nil
  with assms show ?thesis by (simp add: replay_def)
next
  case (snoc ys ev)
  with assms show ?thesis by (auto simp: replay_snoc_Inr dest: lifecycle_state_after)
qed

text \<open>
  Facts about a prefix of a legal log: every prefix is legal, only the last event can end the
  job's life, and a verdict on a run (completed, failed, requeued) directly follows a start.
\<close>

lemma replay_prefix:
  assumes "replay (xs @ ys) = Inr s" and "xs \<noteq> []"
  obtains t where "replay xs = Inr t"
proof (cases "replay_loop None xs")
  case (Inl x)
  with assms show ?thesis by (simp add: replay_Inr replay_loop_append)
next
  case (Inr st)
  then obtain t where "st = Some t" using assms(2) replay_loop_None by (cases st) auto
  with Inr show ?thesis using that by (simp add: replay_Inr)
qed

lemma replay_terminal_append:
  assumes "replay xs = Inr s" "is_terminal s" "ys \<noteq> []"
  shows "replay (xs @ ys) = Inl (IllegalTransition (Some s) (ev_type (hd ys)))"
proof -
  obtain ev zs where ys: "ys = ev # zs" using assms(3) by (cases ys) auto
  have "apply_event (Some s) (ev_type ev) = Inl (IllegalTransition (Some s) (ev_type ev))"
    using assms(2) by (cases rule: apply_event_cases [of "Some s" "ev_type ev"])
      (simp_all add: terminal_no_transition)
  moreover have "replay_loop None xs = Inr (Some s)" using assms(1) by (simp add: replay_Inr)
  ultimately show ?thesis by (simp add: replay_def replay_loop_append ys del: apply_event.simps)
qed

lemma terminal_events: "is_terminal (state_after e) \<longleftrightarrow> e \<in> {E_COMPLETED, E_FAILED}"
  by (cases e) (auto simp: is_terminal_def TERMINAL_STATES_def)

lemma terminal_event_is_last:
  assumes "replay (xs @ ev # ys) = Inr s" and "ev_type ev \<in> {E_COMPLETED, E_FAILED}"
  shows "ys = []"
proof (rule ccontr)
  assume "ys \<noteq> []"
  obtain t where t: "replay (xs @ [ev]) = Inr t"
    using assms(1) replay_prefix [of "xs @ [ev]" ys s] by auto
  then have "t = state_after (ev_type ev)" using replay_last [OF t] by simp
  then have "is_terminal t" using assms(2) terminal_events by simp
  from t this \<open>ys \<noteq> []\<close> have "replay ((xs @ [ev]) @ ys) = Inl (IllegalTransition (Some t) (ev_type (hd ys)))"
    by (rule replay_terminal_append)
  with assms(1) show False by simp
qed

lemma verdict_follows_start:
  assumes "replay (xs @ [ev]) = Inr s" and "ev_type ev \<in> {E_COMPLETED, E_FAILED, E_REQUEUED}"
  shows "xs \<noteq> [] \<and> ev_type (last xs) = E_STARTED"
proof -
  obtain t where t: "replay xs = Inr t" and life: "lifecycle (Some t) (ev_type ev) s"
    using assms by (auto simp: replay_snoc_Inr)
  then have "t = S_RUNNING" using assms(2) by (auto simp: lifecycle_simps)
  with replay_last [OF t] show ?thesis by (cases "ev_type (last xs)") auto
qed

lemma count_terminal_le_1:
  assumes "replay xs = Inr s"
  shows "length (filter (\<lambda>ev. ev_type ev \<in> {E_COMPLETED, E_FAILED}) xs) \<le> 1"
proof (cases "filter (\<lambda>ev. ev_type ev \<in> {E_COMPLETED, E_FAILED}) xs")
  case (Cons ev zs)
  then obtain us vs where "xs = us @ ev # vs" "ev_type ev \<in> {E_COMPLETED, E_FAILED}"
      "zs = filter (\<lambda>ev. ev_type ev \<in> {E_COMPLETED, E_FAILED}) vs"
    by (auto dest!: filter_eq_ConsD)
  moreover from this have "vs = []" using assms terminal_event_is_last by blast
  ultimately show ?thesis using Cons by simp
qed simp

section \<open>Properties\<close>

text \<open>C22: The transition function decides exactly the lifecycle relation: it returns the successor
  state when the relation has one and otherwise raises \<open>IllegalTransition\<close> with the state and event
  it was given; the legal events it advertises are exactly those it accepts.\<close>

theorem apply_event_correct:
  "(apply_event st e = Inr s \<longleftrightarrow> lifecycle st e s) \<and>
   (e \<in> legal_events st \<longleftrightarrow> (\<exists>t. apply_event st e = Inr t)) \<and>
   (e \<notin> legal_events st \<longleftrightarrow> apply_event st e = Inl (IllegalTransition st e))"
proof (cases rule: apply_event_cases [of st e])
  case (ok t)
  then have "e \<in> legal_events st" using apply_event_legal [of st e] by simp
  with ok(1) show ?thesis by (metis apply_event_lifecycle sum.distinct(1))
next
  case illegal
  then have "\<not> lifecycle st e t" for t using apply_event_lifecycle [of st e t] by simp
  with illegal show ?thesis by simp
qed

text \<open>Once a log has reached a terminal state, replaying it with any further events raises
  \<open>IllegalTransition\<close> for that state and the first of those events: no suffix moves a finished job.\<close>

theorem terminal_is_forever:
  assumes "replay xs = Inr s" and "is_terminal s" and "ys \<noteq> []"
  shows "replay (xs @ ys) = Inl (IllegalTransition (Some s) (ev_type (hd ys)))"
  using assms by (rule replay_terminal_append)

theorem terminal_is_forever_witness:
  "replay (map (\<lambda>t. \<lparr>ev_type = t, ev_attempt = 0, ev_detail = [], ev_at = 0\<rparr>)
      [E_SUBMITTED, E_ENQUEUED, E_STARTED, E_COMPLETED] @
      [\<lparr>ev_type = E_STARTED, ev_attempt = 2, ev_detail = [], ev_at = 0\<rparr>])
    = Inl (IllegalTransition (Some S_SUCCEEDED) E_STARTED)"
  by (subst terminal_is_forever [where s = S_SUCCEEDED])
    (simp_all add: replay_def is_terminal_def TERMINAL_STATES_def)

text \<open>In every legal log at most one event ends the job (a completion or a permanent failure),
  it is the last one, and the event right before it is a start.\<close>

theorem log_has_one_ending:
  assumes "replay (xs @ ev # ys) = Inr s" and "ev_type ev \<in> {E_COMPLETED, E_FAILED}"
  shows "ys = [] \<and> s = state_after (ev_type ev) \<and> xs \<noteq> [] \<and> ev_type (last xs) = E_STARTED \<and>
    filter (\<lambda>e. ev_type e \<in> {E_COMPLETED, E_FAILED}) (xs @ ev # ys) = [ev]"
proof -
  have ys: "ys = []" using assms by (rule terminal_event_is_last)
  have log: "replay (xs @ [ev]) = Inr s" using assms(1) ys by simp
  have "length (filter (\<lambda>e. ev_type e \<in> {E_COMPLETED, E_FAILED}) (xs @ [ev])) \<le> 1"
    using log by (rule count_terminal_le_1)
  then have "filter (\<lambda>e. ev_type e \<in> {E_COMPLETED, E_FAILED}) xs = []"
    using assms(2) by simp
  then show ?thesis
    using ys verdict_follows_start [OF log] replay_last [OF log] assms(2) by auto
qed

theorem log_has_one_ending_witness:
  "\<exists>xs ev. replay (xs @ ev # []) = Inr S_SUCCEEDED \<and> ev_type ev = E_COMPLETED \<and>
     ev_type (last xs) = E_STARTED"
proof -
  let ?e = "\<lambda>t. \<lparr>ev_type = t, ev_attempt = 0, ev_detail = [], ev_at = 0\<rparr>"
  let ?xs = "map ?e [E_SUBMITTED, E_ENQUEUED, E_STARTED]"
  have log: "replay (?xs @ ?e E_COMPLETED # []) = Inr S_SUCCEEDED" by (simp add: replay_def)
  have "ev_type (last ?xs) = E_STARTED"
    using log_has_one_ending [OF log] by simp
  with log show ?thesis by (metis job_event.select_convs(1))
qed

text \<open>The payload constructor accepts exactly non-negative durations with a failure rate within [0, 1],
  so neither NaN nor an infinity.\<close>

lemma JobPayload_ok:
  "is_ok (JobPayload d f) \<longleftrightarrow> 0 \<le> d \<and> (\<exists>r. f = Fin r \<and> 0 \<le> r \<and> r \<le> 1)"
  by (cases f) (auto simp: JobPayload_def)

end
