(* ===== verification/Repo.thy ===== *)
theory Repo
  imports Domain
begin

text \<open>
  The repository: \<^verbatim>\<open>src/orbiter/db/repo.py\<close> over the tables of \<^verbatim>\<open>src/orbiter/db/schema.sql\<close>. A table is
  the list of its rows in insertion order; an SQL statement of the source is the list operation it
  denotes; \<^verbatim>\<open>conn.transaction()\<close> is \<open>transaction\<close>: an exception undoes every change to the tables and
  keeps only the sequence values already drawn. The server's clock is a field of the state.

  The invariant \<open>db_inv\<close> says that the cached columns of a job row are the projection of its log, that
  ids and idempotency keys are unique, and that each submission and each replay has left exactly
  one outbox row. Every operation keeps it, also when it raises.
\<close>

section \<open>Tables\<close>

record job_row =
  jr_id :: uuid
  jr_key :: string
  jr_payload :: json
  jr_state :: string
  jr_attempts :: int
  jr_fence :: int
  jr_result :: "json option"
  jr_created :: real
  jr_updated :: real

record event_row =
  er_id :: int
  er_job :: uuid
  er_event :: string
  er_attempt :: int
  er_detail :: pydict
  er_at :: real

record outbox_row =
  ob_id :: int
  ob_job :: uuid
  ob_subject :: string
  ob_payload :: json
  ob_created :: real
  ob_published :: "real option"

record db =
  jobs :: "job_row list"
  job_events :: "event_row list"
  outbox :: "outbox_row list"
  events_seq :: int
  outbox_seq :: int
  db_now :: real

definition empty_db :: "real \<Rightarrow> db" where
  "empty_db t = \<lparr>jobs = [], job_events = [], outbox = [], events_seq = 0, outbox_seq = 0, db_now = t\<rparr>"

definition transaction :: "(db \<Rightarrow> (exn + 'a) \<times> db) \<Rightarrow> db \<Rightarrow> (exn + 'a) \<times> db" where
  "transaction body d =
     (case body d of
        (Inr x, d') \<Rightarrow> (Inr x, d')
      | (Inl e, d') \<Rightarrow> (Inl e, d\<lparr>events_seq := events_seq d', outbox_seq := outbox_seq d'\<rparr>))"

definition find_job :: "uuid \<Rightarrow> db \<Rightarrow> job_row option" where
  "find_job i d = find (\<lambda>r. jr_id r = i) (jobs d)"

definition insert_event :: "uuid \<Rightarrow> event_type \<Rightarrow> int \<Rightarrow> pydict \<Rightarrow> db \<Rightarrow> db" where
  "insert_event i ev attempt detail d =
     d\<lparr>job_events := job_events d @
         [\<lparr>er_id = events_seq d + 1, er_job = i, er_event = event_type_value ev, er_attempt = attempt,
           er_detail = detail, er_at = db_now d\<rparr>],
       events_seq := events_seq d + 1\<rparr>"

definition insert_outbox :: "uuid \<Rightarrow> string \<Rightarrow> json \<Rightarrow> db \<Rightarrow> db" where
  "insert_outbox i subject message d =
     d\<lparr>outbox := outbox d @
         [\<lparr>ob_id = outbox_seq d + 1, ob_job = i, ob_subject = subject, ob_payload = message,
           ob_created = db_now d, ob_published = None\<rparr>],
       outbox_seq := outbox_seq d + 1\<rparr>"

text \<open>Arguments bound to \<^verbatim>\<open>INT\<close> and \<^verbatim>\<open>BIGINT\<close> columns must fit them; the driver raises otherwise.\<close>

definition int4_ok :: "int \<Rightarrow> bool" where
  "int4_ok i \<longleftrightarrow> - (2 ^ 31) \<le> i \<and> i < 2 ^ 31"

definition int8_ok :: "int \<Rightarrow> bool" where
  "int8_ok i \<longleftrightarrow> - (2 ^ 63) \<le> i \<and> i < 2 ^ 63"

section \<open>Operations\<close>

definition submit_message :: "uuid \<Rightarrow> pydict \<Rightarrow> (string \<times> string) list \<Rightarrow> json" where
  "submit_message i payload carrier =
     JObj [(''job_id'', JStr (uuid_str i)), (''payload'', JObj payload),
           (''traceparent'', JObj (map (\<lambda>(k, v). (k, JStr v)) carrier))]"

text \<open>The fresh id of \<^verbatim>\<open>uuid.uuid4()\<close> and the carrier of \<^verbatim>\<open>current_carrier()\<close> are arguments.\<close>

definition submit_job ::
    "uuid \<Rightarrow> (string \<times> string) list \<Rightarrow> string \<Rightarrow> pydict \<Rightarrow> string \<Rightarrow> db \<Rightarrow> (exn + uuid \<times> bool) \<times> db" where
  "submit_job job_id carrier key payload subject = transaction (\<lambda>d.
     case find (\<lambda>r. jr_key r = key) (jobs d) of
       Some existing \<Rightarrow> (Inr (jr_id existing, False), d)
     | None \<Rightarrow>
         if find_job job_id d \<noteq> None then (Inl (UniqueViolation ''jobs_pkey''), d)
         else
           let row = \<lparr>jr_id = job_id, jr_key = key, jr_payload = JObj payload,
                      jr_state = job_state_value S_QUEUED, jr_attempts = 0, jr_fence = 0,
                      jr_result = None, jr_created = db_now d, jr_updated = db_now d\<rparr>;
               d1 = d\<lparr>jobs := jobs d @ [row]\<rparr>;
               d2 = insert_event job_id E_ENQUEUED 0 [] (insert_event job_id E_SUBMITTED 0 [] d1);
               d3 = insert_outbox job_id subject (submit_message job_id payload carrier) d2
           in (Inr (job_id, True), d3))"

definition event_json :: "py_runtime \<Rightarrow> event_row \<Rightarrow> json" where
  "event_json rt e =
     JObj [(''event'', JStr (er_event e)), (''attempt'', JInt (er_attempt e)),
           (''detail'', JObj (er_detail e)), (''at'', JStr (isoformat rt (er_at e)))]"

definition events_of :: "uuid \<Rightarrow> db \<Rightarrow> event_row list" where
  "events_of i d = sort_key er_id (filter (\<lambda>e. er_job e = i) (job_events d))"

text \<open>The row and its events are two queries outside a transaction; what other sessions commit between
  them is the argument \<open>others\<close>.\<close>

definition get_job :: "py_runtime \<Rightarrow> (db \<Rightarrow> db) \<Rightarrow> uuid \<Rightarrow> db \<Rightarrow> json option" where
  "get_job rt others i d =
     (case find_job i d of
        None \<Rightarrow> None
      | Some row \<Rightarrow> Some (JObj
          [(''id'', JStr (uuid_str (jr_id row))), (''state'', JStr (jr_state row)),
           (''payload'', jr_payload row), (''attempts'', JInt (jr_attempts row)),
           (''result'', (case jr_result row of None \<Rightarrow> JNull | Some j \<Rightarrow> j)),
           (''created_at'', JStr (isoformat rt (jr_created row))),
           (''updated_at'', JStr (isoformat rt (jr_updated row))),
           (''events'', JArr (map (event_json rt) (events_of i (others d))))]))"

definition repo_apply_event ::
    "uuid \<Rightarrow> event_type \<Rightarrow> int \<Rightarrow> pydict option \<Rightarrow> int option \<Rightarrow> pydict option \<Rightarrow> db \<Rightarrow>
       (exn + job_state) \<times> db" where
  "repo_apply_event i ev attempt detail fence_token result d =
     (case find_job i d of
        None \<Rightarrow> (Inl (Py (LookupError (''job '' @ uuid_str i @ '' not found''))), d)
      | Some row \<Rightarrow>
        (case job_state_of (jr_state row) of
           Inl e \<Rightarrow> (Inl e, d)
         | Inr current \<Rightarrow>
           (case apply_event (Some current) ev of
              Inl e \<Rightarrow> (Inl e, d)
            | Inr next_state \<Rightarrow>
              let token = (case fence_token of Some t \<Rightarrow> t | None \<Rightarrow> jr_fence row) in
              if \<not> (int4_ok attempt \<and> int8_ok token) then (Inl (DataError ''value out of range''), d)
              else if \<not> jr_fence row \<le> token
              then (Inl (StaleLeaseError (uuid_str i) token (jr_fence row)), d)
              else
                let d1 = d\<lparr>jobs := update_where (\<lambda>r. jr_id r = i \<and> jr_fence r \<le> token)
                       (\<lambda>r. r\<lparr>jr_state := job_state_value next_state,
                              jr_attempts := max (jr_attempts r) attempt,
                              jr_fence := token,
                              jr_result := (case result of Some x \<Rightarrow> Some (JObj x) | None \<Rightarrow> jr_result r),
                              jr_updated := db_now d\<rparr>) (jobs d)\<rparr>;
                    d2 = insert_event i ev attempt (case detail of Some x \<Rightarrow> x | None \<Rightarrow> []) d1
                in (Inr next_state, d2))))"

definition record_event ::
    "uuid \<Rightarrow> event_type \<Rightarrow> int \<Rightarrow> pydict option \<Rightarrow> int option \<Rightarrow> pydict option \<Rightarrow> db \<Rightarrow>
       (exn + job_state) \<times> db" where
  "record_event i ev attempt detail fence_token result =
     transaction (repo_apply_event i ev attempt detail fence_token result)"

definition replay_job :: "uuid \<Rightarrow> string \<Rightarrow> db \<Rightarrow> (exn + job_state option) \<times> db" where
  "replay_job i subject = transaction (\<lambda>d.
     case find_job i d of
       None \<Rightarrow> (Inr None, d)
     | Some row \<Rightarrow>
         (case repo_apply_event i E_REPLAYED 0 None None None d of
            (Inl e, d1) \<Rightarrow> (Inl e, d1)
          | (Inr st, d1) \<Rightarrow>
              let message = JObj [(''job_id'', JStr (uuid_str i)), (''payload'', jr_payload row)]
              in (Inr (Some st), insert_outbox i subject message d1)))"

definition list_jobs_by_state :: "py_runtime \<Rightarrow> job_state \<Rightarrow> db \<Rightarrow> json list" where
  "list_jobs_by_state rt st d =
     map (\<lambda>r. JObj [(''id'', JStr (uuid_str (jr_id r))), (''payload'', jr_payload r),
                     (''attempts'', JInt (jr_attempts r)),
                     (''updated_at'', JStr (isoformat rt (jr_updated r)))])
       (take 200 (sort_key (\<lambda>r. - jr_updated r)
          (filter (\<lambda>r. jr_state r = job_state_value st) (jobs d))))"

definition list_recent_jobs :: "py_runtime \<Rightarrow> nat \<Rightarrow> db \<Rightarrow> json list" where
  "list_recent_jobs rt limit_n d =
     map (\<lambda>r. JObj [(''id'', JStr (uuid_str (jr_id r))), (''state'', JStr (jr_state r)),
                     (''attempts'', JInt (jr_attempts r)),
                     (''created_at'', JStr (isoformat rt (jr_created r))),
                     (''updated_at'', JStr (isoformat rt (jr_updated r)))])
       (take limit_n (sort_key (\<lambda>r. - jr_created r) (jobs d)))"

definition replay_events :: "uuid \<Rightarrow> db \<Rightarrow> exn + job_event list" where
  "replay_events i d =
     map_res (\<lambda>e. rbind (event_type_of (er_event e)) (\<lambda>t.
         Inr \<lparr>ev_type = t, ev_attempt = er_attempt e, ev_detail = er_detail e, ev_at = er_at e\<rparr>))
       (events_of i d)"

section \<open>What the operations do\<close>

lemma transaction_Inr: "transaction f d = (Inr x, d') \<longleftrightarrow> f d = (Inr x, d')"
  by (auto simp: transaction_def split: prod.splits sum.splits)

lemma transaction_Inl:
  "transaction f d = (Inl e, d') \<longleftrightarrow>
     (\<exists>d1. f d = (Inl e, d1) \<and> d' = d\<lparr>events_seq := events_seq d1, outbox_seq := outbox_seq d1\<rparr>)"
  by (auto simp: transaction_def split: prod.splits sum.splits)

definition fence_of :: "int option \<Rightarrow> job_row \<Rightarrow> int" where
  "fence_of ft row = (case ft of Some t \<Rightarrow> t | None \<Rightarrow> jr_fence row)"

definition upd_row :: "job_state \<Rightarrow> int \<Rightarrow> int \<Rightarrow> pydict option \<Rightarrow> real \<Rightarrow> job_row \<Rightarrow> job_row" where
  "upd_row st attempt token result t r =
     r\<lparr>jr_state := job_state_value st, jr_attempts := max (jr_attempts r) attempt, jr_fence := token,
       jr_result := (case result of Some x \<Rightarrow> Some (JObj x) | None \<Rightarrow> jr_result r), jr_updated := t\<rparr>"

lemma upd_row_simps [simp]:
  "jr_id (upd_row st a t res u r) = jr_id r" "jr_key (upd_row st a t res u r) = jr_key r"
  "jr_payload (upd_row st a t res u r) = jr_payload r"
  "jr_state (upd_row st a t res u r) = job_state_value st" "jr_fence (upd_row st a t res u r) = t"
  "jr_attempts (upd_row st a t res u r) = max (jr_attempts r) a"
  by (simp_all add: upd_row_def)

definition write_event ::
    "uuid \<Rightarrow> event_type \<Rightarrow> int \<Rightarrow> pydict \<Rightarrow> int \<Rightarrow> pydict option \<Rightarrow> job_state \<Rightarrow> db \<Rightarrow> db" where
  "write_event i ev attempt detail token result st d =
     insert_event i ev attempt detail
       (d\<lparr>jobs := update_where (\<lambda>r. jr_id r = i \<and> jr_fence r \<le> token)
                    (upd_row st attempt token result (db_now d)) (jobs d)\<rparr>)"

lemma repo_apply_event_eq:
  assumes "find_job i d = Some row" "job_state_of (jr_state row) = Inr s" "apply_event (Some s) ev = Inr st"
  shows "repo_apply_event i ev a dt ft res d =
    (if \<not> (int4_ok a \<and> int8_ok (fence_of ft row)) then (Inl (DataError ''value out of range''), d)
     else if fence_of ft row < jr_fence row
     then (Inl (StaleLeaseError (uuid_str i) (fence_of ft row) (jr_fence row)), d)
     else (Inr st, write_event i ev a (case dt of Some x \<Rightarrow> x | None \<Rightarrow> []) (fence_of ft row) res st d))"
  using assms
  by (simp add: repo_apply_event_def Let_def write_event_def upd_row_def [abs_def] fence_of_def
      linorder_not_le del: apply_event.simps)

text \<open>The possible outcomes of \<open>_apply_event\<close>: one way to succeed, and five exceptions, each of
  which leaves the tables alone.\<close>

lemma repo_apply_event_cases:
  assumes "repo_apply_event i ev a dt ft res d = (out, d')"
  obtains
    (missing) "find_job i d = None" "out = Inl (Py (LookupError (''job '' @ uuid_str i @ '' not found'')))" "d' = d"
  | (badstate) row e where "find_job i d = Some row" "job_state_of (jr_state row) = Inl e" "out = Inl e" "d' = d"
  | (illegal) row s where "find_job i d = Some row" "jr_state row = job_state_value s"
      "ev \<notin> legal_events (Some s)" "out = Inl (IllegalTransition (Some s) ev)" "d' = d"
  | (range) row where "find_job i d = Some row" "\<not> (int4_ok a \<and> int8_ok (fence_of ft row))"
      "out = Inl (DataError ''value out of range'')" "d' = d"
  | (stale) row where "find_job i d = Some row" "fence_of ft row < jr_fence row"
      "out = Inl (StaleLeaseError (uuid_str i) (fence_of ft row) (jr_fence row))" "d' = d"
  | (ok) row s st where "find_job i d = Some row" "jr_state row = job_state_value s"
      "lifecycle (Some s) ev st" "jr_fence row \<le> fence_of ft row" "int4_ok a" "int8_ok (fence_of ft row)"
      "out = Inr st" "d' = write_event i ev a (case dt of Some x \<Rightarrow> x | None \<Rightarrow> []) (fence_of ft row) res st d"
proof (cases "find_job i d")
  case None
  with assms have "out = Inl (Py (LookupError (''job '' @ uuid_str i @ '' not found'')))" "d' = d"
    by (auto simp: repo_apply_event_def)
  with None show ?thesis by (rule missing)
next
  case row: (Some row)
  show ?thesis
  proof (cases "job_state_of (jr_state row)")
    case (Inl e)
    with assms row have "out = Inl e" "d' = d" by (auto simp: repo_apply_event_def)
    with row Inl show ?thesis by (rule badstate)
  next
    case (Inr s)
    then have st: "jr_state row = job_state_value s" by (simp add: job_state_of_Inr)
    show ?thesis
    proof (cases rule: apply_event_cases [of "Some s" ev])
      case illegal
      with assms row Inr have "out = Inl (IllegalTransition (Some s) ev)" "d' = d"
        by (auto simp: repo_apply_event_def simp del: apply_event.simps)
      with row st illegal(2) show ?thesis by (rule that(3))
    next
      case (ok st')
      note eq = assms [unfolded repo_apply_event_eq [OF row Inr ok(1)]]
      consider "\<not> (int4_ok a \<and> int8_ok (fence_of ft row))"
        | "int4_ok a" "int8_ok (fence_of ft row)" "fence_of ft row < jr_fence row"
        | "int4_ok a" "int8_ok (fence_of ft row)" "jr_fence row \<le> fence_of ft row"
        by linarith
      then show ?thesis
      proof cases
        case 1
        with eq show ?thesis by (intro range [OF row]) auto
      next
        case 2
        with eq show ?thesis by (intro stale [OF row]) auto
      next
        case 3
        with eq show ?thesis by (intro that(6) [OF row st ok(2)]) auto
      qed
    qed
  qed
qed

lemma record_event_cases:
  assumes "record_event i ev a dt ft res d = (out, d')"
  obtains
    (error) e where "out = Inl e" "d' = d" "repo_apply_event i ev a dt ft res d = (Inl e, d)"
  | (ok) row s st where "find_job i d = Some row" "jr_state row = job_state_value s"
      "lifecycle (Some s) ev st" "jr_fence row \<le> fence_of ft row" "int4_ok a" "int8_ok (fence_of ft row)"
      "out = Inr st" "d' = write_event i ev a (case dt of Some x \<Rightarrow> x | None \<Rightarrow> []) (fence_of ft row) res st d"
proof (cases out)
  case (Inl e)
  then obtain d1 where d1: "repo_apply_event i ev a dt ft res d = (Inl e, d1)"
      and d': "d' = d\<lparr>events_seq := events_seq d1, outbox_seq := outbox_seq d1\<rparr>"
    using assms by (auto simp: record_event_def transaction_Inl)
  from d1 have "d1 = d" by (cases rule: repo_apply_event_cases) auto
  with Inl d1 d' error show ?thesis by simp
next
  case (Inr st)
  then have "repo_apply_event i ev a dt ft res d = (Inr st, d')"
    using assms by (auto simp: record_event_def transaction_Inr)
  then show ?thesis by (cases rule: repo_apply_event_cases) (use Inr ok in auto)
qed

lemma record_event_ok:
  assumes "find_job i d = Some row" "jr_state row = job_state_value s" "lifecycle (Some s) ev st"
    "int4_ok a" "int8_ok (fence_of ft row)" "jr_fence row \<le> fence_of ft row"
  shows "record_event i ev a dt ft res d =
    (Inr st, write_event i ev a (case dt of Some x \<Rightarrow> x | None \<Rightarrow> []) (fence_of ft row) res st d)"
  using assms repo_apply_event_eq [OF assms(1), of s ev st]
  by (simp add: record_event_def transaction_def apply_event_lifecycle job_state_of_Inr del: apply_event.simps)

lemma record_event_stale:
  assumes "find_job i d = Some row" "jr_state row = job_state_value s" "lifecycle (Some s) ev st"
    "int4_ok a" "int8_ok tok" "tok < jr_fence row"
  shows "record_event i ev a dt (Some tok) res d = (Inl (StaleLeaseError (uuid_str i) tok (jr_fence row)), d)"
  using assms repo_apply_event_eq [OF assms(1), of s ev st]
  by (simp add: record_event_def transaction_def fence_of_def apply_event_lifecycle job_state_of_Inr del: apply_event.simps)

lemma record_event_illegal:
  assumes "find_job i d = Some row" "jr_state row = job_state_value s" "\<nexists>st. lifecycle (Some s) ev st"
  shows "record_event i ev a dt ft res d = (Inl (IllegalTransition (Some s) ev), d)"
proof -
  have "apply_event (Some s) ev = Inl (IllegalTransition (Some s) ev)"
    using assms(3) by (cases rule: apply_event_cases [of "Some s" ev]) auto
  then show ?thesis
    using assms(1,2) by (simp add: record_event_def transaction_def repo_apply_event_def del: apply_event.simps)
qed

section \<open>The invariant\<close>

definition replays :: "job_event list \<Rightarrow> nat" where
  "replays evs = length (filter (\<lambda>e. ev_type e = E_REPLAYED) evs)"

definition outbox_of :: "uuid \<Rightarrow> db \<Rightarrow> outbox_row list" where
  "outbox_of i d = filter (\<lambda>b. ob_job b = i) (outbox d)"

text \<open>A job row is the projection of its log, and has one outbox row per time it was to be queued.\<close>

definition job_ok :: "db \<Rightarrow> job_row \<Rightarrow> bool" where
  "job_ok d r \<longleftrightarrow> (\<exists>evs s.
     replay_events (jr_id r) d = Inr evs \<and> replay evs = Inr s \<and> jr_state r = job_state_value s \<and>
     jr_attempts r = foldl max 0 (map ev_attempt evs) \<and> 0 \<le> jr_fence r \<and>
     length (outbox_of (jr_id r) d) = Suc (replays evs))"

definition ids_ok :: "('a \<Rightarrow> int) \<Rightarrow> 'a list \<Rightarrow> int \<Rightarrow> bool" where
  "ids_ok f xs n \<longleftrightarrow> sorted_wrt (<) (map f xs) \<and> (\<forall>x \<in> set xs. f x \<le> n)"

definition db_inv :: "db \<Rightarrow> bool" where
  "db_inv d \<longleftrightarrow>
     distinct (map jr_id (jobs d)) \<and> distinct (map jr_key (jobs d)) \<and>
     ids_ok er_id (job_events d) (events_seq d) \<and> ids_ok ob_id (outbox d) (outbox_seq d) \<and>
     (\<forall>e \<in> set (job_events d). er_job e \<in> jr_id ` set (jobs d)) \<and>
     (\<forall>b \<in> set (outbox d). ob_job b \<in> jr_id ` set (jobs d)) \<and>
     (\<forall>r \<in> set (jobs d). job_ok d r)"

lemma db_inv_empty: "db_inv (empty_db t)"
  by (simp add: db_inv_def empty_db_def ids_ok_def)

lemma ids_ok_snoc: "ids_ok f xs n \<Longrightarrow> f x = n + 1 \<Longrightarrow> ids_ok f (xs @ [x]) (n + 1)"
  by (fastforce simp: ids_ok_def sorted_wrt_append)

lemma ids_ok_mono: "ids_ok f xs n \<Longrightarrow> n \<le> m \<Longrightarrow> ids_ok f xs m"
  by (fastforce simp: ids_ok_def)

lemma ids_ok_sorted: "ids_ok f xs n \<Longrightarrow> sorted (map f xs)"
  unfolding ids_ok_def by (auto intro: strict_sorted_imp_sorted)

lemma events_of_filter:
  assumes "ids_ok er_id (job_events d) n"
  shows "events_of i d = filter (\<lambda>e. er_job e = i) (job_events d)"
proof -
  have "sorted (map er_id (filter (\<lambda>e. er_job e = i) (job_events d)))"
    using ids_ok_sorted [OF assms] by (rule sorted_filter)
  then show ?thesis by (simp add: events_of_def sort_key_id_if_sorted)
qed

lemma insert_event_simps [simp]:
  "jobs (insert_event i ev a dt d) = jobs d" "outbox (insert_event i ev a dt d) = outbox d"
  "outbox_seq (insert_event i ev a dt d) = outbox_seq d" "db_now (insert_event i ev a dt d) = db_now d"
  "events_seq (insert_event i ev a dt d) = events_seq d + 1"
  by (simp_all add: insert_event_def)

lemma insert_outbox_simps [simp]:
  "jobs (insert_outbox i sub msg d) = jobs d" "job_events (insert_outbox i sub msg d) = job_events d"
  "events_seq (insert_outbox i sub msg d) = events_seq d" "db_now (insert_outbox i sub msg d) = db_now d"
  "outbox_seq (insert_outbox i sub msg d) = outbox_seq d + 1"
  by (simp_all add: insert_outbox_def)

lemma insert_event_ids:
  assumes "ids_ok er_id (job_events d) (events_seq d)"
  shows "ids_ok er_id (job_events (insert_event i ev a dt d)) (events_seq d + 1)"
  using assms by (simp add: insert_event_def ids_ok_snoc)

lemma insert_outbox_ids:
  assumes "ids_ok ob_id (outbox d) (outbox_seq d)"
  shows "ids_ok ob_id (outbox (insert_outbox i sub msg d)) (outbox_seq d + 1)"
  using assms by (simp add: insert_outbox_def ids_ok_snoc)

lemma replay_events_insert:
  assumes "ids_ok er_id (job_events d) (events_seq d)"
  shows "replay_events j (insert_event i ev a dt d) =
    (if j = i then rbind (replay_events j d)
       (\<lambda>evs. Inr (evs @ [\<lparr>ev_type = ev, ev_attempt = a, ev_detail = dt, ev_at = db_now d\<rparr>]))
     else replay_events j d)"
proof -
  have "events_of j (insert_event i ev a dt d) = events_of j d @
      (if i = j then [\<lparr>er_id = events_seq d + 1, er_job = i, er_event = event_type_value ev,
          er_attempt = a, er_detail = dt, er_at = db_now d\<rparr>] else [])"
    using events_of_filter [OF insert_event_ids [OF assms]] events_of_filter [OF assms]
    by (simp add: insert_event_def)
  then show ?thesis
    by (auto simp: replay_events_def map_res_append)
qed

lemma replay_events_cong: "job_events d = job_events d' \<Longrightarrow> replay_events j d = replay_events j d'"
  by (simp add: replay_events_def events_of_def)

lemma outbox_of_insert:
  "length (outbox_of j (insert_outbox i sub msg d)) = length (outbox_of j d) + (if j = i then 1 else 0)"
  by (simp add: outbox_of_def insert_outbox_def)

lemma outbox_of_cong: "outbox d = outbox d' \<Longrightarrow> outbox_of j d = outbox_of j d'"
  by (simp add: outbox_of_def)

lemma job_ok_cong:
  assumes "replay_events (jr_id r) d' = replay_events (jr_id r) d"
    "length (outbox_of (jr_id r) d') = length (outbox_of (jr_id r) d)"
  shows "job_ok d' r = job_ok d r"
  using assms by (simp add: job_ok_def)

lemma find_job_inv:
  assumes "db_inv d" "find_job i d = Some row"
  shows "row \<in> set (jobs d) \<and> jr_id row = i \<and> job_ok d row"
  using assms find_SomeD [of _ "jobs d" row] by (auto simp: find_job_def db_inv_def)

lemma db_inv_seqs:
  assumes "db_inv d" "events_seq d \<le> m" "outbox_seq d \<le> n"
  shows "db_inv (d\<lparr>events_seq := m, outbox_seq := n\<rparr>)"
proof -
  have "job_ok (d\<lparr>events_seq := m, outbox_seq := n\<rparr>) r = job_ok d r" for r
    by (rule job_ok_cong) (auto intro: replay_events_cong simp: outbox_of_def)
  then show ?thesis
    using assms ids_ok_mono [of _ _ "events_seq d" m] ids_ok_mono [of _ _ "outbox_seq d" n]
    by (auto simp: db_inv_def)
qed

text \<open>
  Writing one legal event for one job, with an outbox row exactly when the event is a replay, keeps
  the invariant: the row written stays the projection of its log, the others are untouched.
\<close>

lemma write_event_simps [simp]:
  "outbox (write_event i ev a dt tok res st d) = outbox d"
  "outbox_seq (write_event i ev a dt tok res st d) = outbox_seq d"
  "events_seq (write_event i ev a dt tok res st d) = events_seq d + 1"
  "db_now (write_event i ev a dt tok res st d) = db_now d"
  "jobs (write_event i ev a dt tok res st d) =
     update_where (\<lambda>r. jr_id r = i \<and> jr_fence r \<le> tok) (upd_row st a tok res (db_now d)) (jobs d)"
  by (simp_all add: write_event_def)

lemma outbox_of_write [simp]: "outbox_of j (write_event i ev a dt tok res st d) = outbox_of j d"
  by (rule outbox_of_cong) simp

lemma replay_events_write:
  assumes "ids_ok er_id (job_events d) (events_seq d)"
  shows "replay_events j (write_event i ev a dt tok res st d) =
    (if j = i then rbind (replay_events j d)
       (\<lambda>evs. Inr (evs @ [\<lparr>ev_type = ev, ev_attempt = a, ev_detail = dt, ev_at = db_now d\<rparr>]))
     else replay_events j d)"
  using assms by (simp add: write_event_def replay_events_insert replay_events_cong [of "_\<lparr>jobs := _\<rparr>" d])

lemma job_ok_written:
  assumes "job_ok d row" "jr_id row = i" "jr_state row = job_state_value s" "lifecycle (Some s) ev st"
    "jr_fence row \<le> tok" "replay_events i d' = rbind (replay_events i d)
       (\<lambda>evs. Inr (evs @ [\<lparr>ev_type = ev, ev_attempt = a, ev_detail = dt, ev_at = t\<rparr>]))"
    "length (outbox_of i d') = length (outbox_of i d) + (if ev = E_REPLAYED then 1 else 0)"
  shows "job_ok d' (upd_row st a tok res u row)"
proof -
  obtain evs where evs: "replay_events i d = Inr evs" "replay evs = Inr s"
      "jr_attempts row = foldl max 0 (map ev_attempt evs)" "0 \<le> jr_fence row"
      "length (outbox_of i d) = Suc (replays evs)"
    using assms(1-3) by (auto simp: job_ok_def)
  let ?new = "\<lparr>ev_type = ev, ev_attempt = a, ev_detail = dt, ev_at = t\<rparr>"
  have "replay (evs @ [?new]) = Inr st"
    using evs(2) assms(4) by (auto simp: replay_snoc_Inr)
  moreover have "replays (evs @ [?new]) = replays evs + (if ev = E_REPLAYED then 1 else 0)"
    by (simp add: replays_def)
  ultimately show ?thesis
    using evs assms(2,5,6,7) by (simp add: job_ok_def)
qed

lemma write_event_ids:
  assumes "ids_ok er_id (job_events d) (events_seq d)" "ids_ok ob_id (outbox d) (outbox_seq d)"
  shows "ids_ok er_id (job_events (write_event i ev a dt tok res st d)) (events_seq (write_event i ev a dt tok res st d))"
    "ids_ok ob_id (outbox (write_event i ev a dt tok res st d)) (outbox_seq (write_event i ev a dt tok res st d))"
  using insert_event_ids [of "d\<lparr>jobs := update_where (\<lambda>r. jr_id r = i \<and> jr_fence r \<le> tok) (upd_row st a tok res (db_now d)) (jobs d)\<rparr>"] assms
  by (simp_all add: write_event_def)

lemma write_event_inv:
  assumes inv: "db_inv d" and row: "find_job i d = Some row" "jr_state row = job_state_value s"
    and life: "lifecycle (Some s) ev st" and tok: "jr_fence row \<le> tok"
    and d': "d' = (if ev = E_REPLAYED then insert_outbox i sub msg (write_event i ev a dt tok res st d)
                   else write_event i ev a dt tok res st d)"
  shows "db_inv d'"
proof -
  let ?P = "\<lambda>r. jr_id r = i \<and> jr_fence r \<le> tok"
  let ?f = "upd_row st a tok res (db_now d)"
  have ids: "ids_ok er_id (job_events d) (events_seq d)" "ids_ok ob_id (outbox d) (outbox_seq d)"
    and dist: "distinct (map jr_id (jobs d))" using inv by (auto simp: db_inv_def)
  have rin: "row \<in> set (jobs d)" "jr_id row = i" "job_ok d row"
    using find_job_inv [OF inv row(1)] by auto
  have jobs': "jobs d' = update_where ?P ?f (jobs d)" by (simp add: d')
  have ev': "replay_events j d' = replay_events j (write_event i ev a dt tok res st d)" for j
    by (rule replay_events_cong) (simp add: d')
  have ob': "length (outbox_of j d') =
      length (outbox_of j d) + (if j = i \<and> ev = E_REPLAYED then 1 else 0)" for j
    by (simp add: d' outbox_of_insert)
  have ids': "ids_ok er_id (job_events d') (events_seq d') \<and> ids_ok ob_id (outbox d') (outbox_seq d')"
    using write_event_ids [OF ids] insert_outbox_ids [of "write_event i ev a dt tok res st d"] by (cases "ev = E_REPLAYED") (simp_all add: d')
  have ok: "job_ok d' r'" if r': "r' \<in> set (jobs d')" for r'
  proof -
    obtain r where r: "r \<in> set (jobs d)" "r' = (if ?P r then ?f r else r)"
      using r' by (auto simp: jobs' set_update_where)
    show ?thesis
    proof (cases "jr_id r = i")
      case True
      then have "r = row" using distinct_key_eq [OF dist r(1) rin(1)] rin(2) by simp
      moreover have "job_ok d' (?f row)"
        using job_ok_written [OF rin(3,2) row(2) life tok] ev' ob' replay_events_write [OF ids(1)] by simp
      ultimately show ?thesis using r(2) rin(2) tok by simp
    next
      case False
      then have "job_ok d' r = job_ok d r"
        by (intro job_ok_cong) (simp_all add: ev' ob' replay_events_write [OF ids(1)])
      then show ?thesis using False r inv by (simp add: db_inv_def)
    qed
  qed
  have keys: "map jr_id (jobs d') = map jr_id (jobs d)" "map jr_key (jobs d') = map jr_key (jobs d)"
    by (simp_all add: jobs' map_update_where)
  have idset: "jr_id ` set (jobs d') = jr_id ` set (jobs d)"
    using keys(1) by (metis set_map)
  show ?thesis
    using inv ok ids' rin(1,2) unfolding db_inv_def keys idset
    by (auto simp: d' write_event_def insert_event_def insert_outbox_def)
qed

lemma record_event_inv:
  assumes "db_inv d" "ev \<noteq> E_REPLAYED"
  shows "db_inv (snd (record_event i ev a dt ft res d))"
proof (cases "record_event i ev a dt ft res d")
  case (Pair out d')
  then show ?thesis
  proof (cases rule: record_event_cases)
    case (error e)
    with Pair assms show ?thesis by simp
  next
    case (ok row s st)
    with assms Pair write_event_inv [OF assms(1) ok(1,2,3,4)] show ?thesis by simp
  qed
qed

lemma replay_job_cases:
  assumes "replay_job i sub d = (out, d')"
  obtains
    (missing) "find_job i d = None" "out = Inr None" "d' = d"
  | (error) row e where "find_job i d = Some row" "out = Inl e" "d' = d"
      "repo_apply_event i E_REPLAYED 0 None None None d = (Inl e, d)"
  | (ok) row s where "find_job i d = Some row" "jr_state row = job_state_value s"
      "lifecycle (Some s) E_REPLAYED S_QUEUED" "int8_ok (jr_fence row)" "out = Inr (Some S_QUEUED)"
      "d' = insert_outbox i sub (JObj [(''job_id'', JStr (uuid_str i)), (''payload'', jr_payload row)])
              (write_event i E_REPLAYED 0 [] (jr_fence row) None S_QUEUED d)"
proof (cases "find_job i d")
  case None
  with assms have "out = Inr None" "d' = d" by (auto simp: replay_job_def transaction_def)
  with None show ?thesis by (rule missing)
next
  case (Some row)
  obtain o1 d1 where ap: "repo_apply_event i E_REPLAYED 0 None None None d = (o1, d1)" by fastforce
  show ?thesis
  proof (cases o1)
    case (Inl e)
    with ap have "d1 = d" by (cases rule: repo_apply_event_cases) auto
    moreover have "out = Inl e" "d' = d\<lparr>events_seq := events_seq d1, outbox_seq := outbox_seq d1\<rparr>"
      using assms Some ap Inl by (auto simp: replay_job_def transaction_def)
    ultimately show ?thesis using Some ap Inl by (intro error) auto
  next
    case (Inr st)
    have out: "out = Inr (Some st)" "d' = insert_outbox i sub
        (JObj [(''job_id'', JStr (uuid_str i)), (''payload'', jr_payload row)]) d1"
      using assms Some ap Inr by (auto simp: replay_job_def transaction_def Let_def)
    from ap show ?thesis
    proof (cases rule: repo_apply_event_cases)
      case (ok row' s st')
      then have "st' = S_QUEUED" by (auto simp: lifecycle_simps)
      with ok Inr out Some show ?thesis by (intro that(3)) (auto simp: fence_of_def)
    qed (use Inr in auto)
  qed
qed

lemma replay_job_inv:
  assumes "db_inv d"
  shows "db_inv (snd (replay_job i sub d))"
proof (cases "replay_job i sub d")
  case (Pair out d')
  then show ?thesis
  proof (cases rule: replay_job_cases)
    case (ok row s)
    then show ?thesis
      using Pair write_event_inv [OF assms ok(1,2,3) order_refl, of d' sub] by simp
  qed (use Pair assms in auto)
qed

section \<open>Submission\<close>

definition submitted_row :: "uuid \<Rightarrow> string \<Rightarrow> pydict \<Rightarrow> real \<Rightarrow> job_row" where
  "submitted_row i key payload t =
     \<lparr>jr_id = i, jr_key = key, jr_payload = JObj payload, jr_state = job_state_value S_QUEUED,
      jr_attempts = 0, jr_fence = 0, jr_result = None, jr_created = t, jr_updated = t\<rparr>"

definition submitted_db :: "uuid \<Rightarrow> (string \<times> string) list \<Rightarrow> string \<Rightarrow> pydict \<Rightarrow> string \<Rightarrow> db \<Rightarrow> db" where
  "submitted_db i carrier key payload subject d =
     insert_outbox i subject (submit_message i payload carrier)
       (insert_event i E_ENQUEUED 0 [] (insert_event i E_SUBMITTED 0 []
          (d\<lparr>jobs := jobs d @ [submitted_row i key payload (db_now d)]\<rparr>)))"

lemma submit_job_cases:
  assumes "submit_job i carrier key payload subject d = (out, d')"
  obtains
    (duplicate) r where "find (\<lambda>r. jr_key r = key) (jobs d) = Some r" "out = Inr (jr_id r, False)" "d' = d"
  | (collision) "find (\<lambda>r. jr_key r = key) (jobs d) = None" "find_job i d \<noteq> None"
      "out = Inl (UniqueViolation ''jobs_pkey'')" "d' = d"
  | (fresh) "find (\<lambda>r. jr_key r = key) (jobs d) = None" "find_job i d = None"
      "out = Inr (i, True)" "d' = submitted_db i carrier key payload subject d"
proof (cases "find (\<lambda>r. jr_key r = key) (jobs d)")
  case (Some r)
  with assms have "out = Inr (jr_id r, False)" "d' = d" by (auto simp: submit_job_def transaction_def)
  with Some show ?thesis by (rule duplicate)
next
  case None
  show ?thesis
  proof (cases "find_job i d")
    case f: None
    with assms None have "out = Inr (i, True)" "d' = submitted_db i carrier key payload subject d"
      by (auto simp: submit_job_def transaction_def Let_def submitted_db_def submitted_row_def)
    with None f show ?thesis by (rule fresh)
  next
    case (Some r)
    with assms None have "out = Inl (UniqueViolation ''jobs_pkey'')" "d' = d"
      by (auto simp: submit_job_def transaction_def)
    with None Some show ?thesis by (intro collision) auto
  qed
qed

lemma fresh_job_empty:
  assumes "db_inv d" "find_job i d = None"
  shows "replay_events i d = Inr []" "outbox_of i d = []"
proof -
  have "i \<notin> jr_id ` set (jobs d)"
    using assms(2) by (auto simp: find_job_def find_None_notin)
  then have no: "\<forall>e \<in> set (job_events d). er_job e \<noteq> i" "\<forall>b \<in> set (outbox d). ob_job b \<noteq> i"
    using assms(1) by (auto simp: db_inv_def)
  have "ids_ok er_id (job_events d) (events_seq d)" using assms(1) by (simp add: db_inv_def)
  then show "replay_events i d = Inr []"
    using no(1) by (simp add: replay_events_def events_of_filter filter_empty_conv)
  show "outbox_of i d = []" using no(2) by (simp add: outbox_of_def filter_empty_conv)
qed

lemma submitted_db_parts [simp]:
  "jobs (submitted_db i carrier key payload subject d) = jobs d @ [submitted_row i key payload (db_now d)]"
  "length (outbox_of j (submitted_db i carrier key payload subject d)) =
     length (outbox_of j d) + (if j = i then 1 else 0)"
  "db_now (submitted_db i carrier key payload subject d) = db_now d"
  by (simp_all add: submitted_db_def outbox_of_insert) (simp_all add: outbox_of_def)

lemma submitted_db_log:
  assumes "ids_ok er_id (job_events d) (events_seq d)"
  shows "replay_events j (submitted_db i carrier key payload subject d) =
    (if j = i then rbind (replay_events j d) (\<lambda>evs. Inr (evs @ map (\<lambda>t. \<lparr>ev_type = t, ev_attempt = 0,
       ev_detail = [], ev_at = db_now d\<rparr>) [E_SUBMITTED, E_ENQUEUED])) else replay_events j d)"
proof -
  let ?d0 = "d\<lparr>jobs := jobs d @ [submitted_row i key payload (db_now d)]\<rparr>"
  let ?d1 = "insert_event i E_SUBMITTED 0 [] ?d0"
  have i0: "ids_ok er_id (job_events ?d0) (events_seq ?d0)" using assms by simp
  have i1: "ids_ok er_id (job_events ?d1) (events_seq ?d1)" using insert_event_ids [OF i0] by simp
  have "replay_events j (submitted_db i carrier key payload subject d) =
      replay_events j (insert_event i E_ENQUEUED 0 [] ?d1)"
    by (rule replay_events_cong) (simp add: submitted_db_def)
  also have "\<dots> = (if j = i then rbind (replay_events j ?d1)
      (\<lambda>evs. Inr (evs @ [\<lparr>ev_type = E_ENQUEUED, ev_attempt = 0, ev_detail = [], ev_at = db_now d\<rparr>]))
      else replay_events j ?d1)"
    by (simp add: replay_events_insert [OF i1])
  also have "replay_events j ?d1 = (if j = i then rbind (replay_events j d)
      (\<lambda>evs. Inr (evs @ [\<lparr>ev_type = E_SUBMITTED, ev_attempt = 0, ev_detail = [], ev_at = db_now d\<rparr>]))
      else replay_events j d)"
    by (simp add: replay_events_insert [OF i0] replay_events_cong [of ?d0 d])
  finally show ?thesis by (cases "replay_events i d"; cases "j = i") simp_all
qed

lemma submitted_db_ids:
  assumes "ids_ok er_id (job_events d) (events_seq d)" "ids_ok ob_id (outbox d) (outbox_seq d)"
  shows "ids_ok er_id (job_events (submitted_db i carrier key payload subject d))
           (events_seq (submitted_db i carrier key payload subject d))"
    and "ids_ok ob_id (outbox (submitted_db i carrier key payload subject d))
           (outbox_seq (submitted_db i carrier key payload subject d))"
proof -
  let ?d0 = "d\<lparr>jobs := jobs d @ [submitted_row i key payload (db_now d)]\<rparr>"
  let ?d1 = "insert_event i E_SUBMITTED 0 [] ?d0"
  let ?d2 = "insert_event i E_ENQUEUED 0 [] ?d1"
  have "ids_ok er_id (job_events ?d1) (events_seq ?d1)" using assms(1) insert_event_ids [of ?d0] by simp
  from insert_event_ids [OF this]
  show "ids_ok er_id (job_events (submitted_db i carrier key payload subject d))
      (events_seq (submitted_db i carrier key payload subject d))" by (simp add: submitted_db_def)
  show "ids_ok ob_id (outbox (submitted_db i carrier key payload subject d))
      (outbox_seq (submitted_db i carrier key payload subject d))"
    using insert_outbox_ids [of ?d2] assms(2) by (simp add: submitted_db_def)
qed

lemma submit_job_inv:
  assumes inv: "db_inv d"
  shows "db_inv (snd (submit_job i carrier key payload subject d))"
proof (cases "submit_job i carrier key payload subject d")
  case (Pair out d')
  then show ?thesis
  proof (cases rule: submit_job_cases)
    case fresh
    let ?row = "submitted_row i key payload (db_now d)"
    have ids: "ids_ok er_id (job_events d) (events_seq d)" "ids_ok ob_id (outbox d) (outbox_seq d)"
      using inv by (auto simp: db_inv_def)
    have log: "replay_events j d' = (if j = i then Inr (map (\<lambda>t. \<lparr>ev_type = t, ev_attempt = 0,
        ev_detail = [], ev_at = db_now d\<rparr>) [E_SUBMITTED, E_ENQUEUED]) else replay_events j d)" for j
      using fresh_job_empty(1) [OF inv fresh(2)] by (simp add: fresh(4) submitted_db_log [OF ids(1)])
    have "length (outbox_of i d') = 1" using fresh_job_empty(2) [OF inv fresh(2)] by (simp add: fresh(4))
    then have new: "job_ok d' ?row"
      by (simp add: job_ok_def log submitted_row_def replay_def replays_def)
    have "i \<notin> jr_id ` set (jobs d)" "key \<notin> jr_key ` set (jobs d)"
      using fresh(1,2) by (auto simp: find_job_def find_None_notin)
    moreover from this have "job_ok d' r" if "r \<in> set (jobs d)" for r
    proof -
      have "jr_id r \<noteq> i" using that \<open>i \<notin> jr_id ` set (jobs d)\<close> by auto
      then have "job_ok d' r = job_ok d r" by (intro job_ok_cong) (simp_all add: log, simp add: fresh(4))
      then show ?thesis using that inv by (simp add: db_inv_def)
    qed
    moreover note submitted_db_ids [OF ids, folded fresh(4)]
    ultimately show ?thesis
      using inv new Pair fresh(4)
      by (auto simp: db_inv_def submitted_row_def submitted_db_def insert_event_def insert_outbox_def)
  qed (use Pair inv in auto)
qed

section \<open>Reading the tables after a write\<close>

lemma find_job_write [db_laws]:
  "find_job j (write_event i ev a dt tok res st d) =
     map_option (\<lambda>r. if jr_id r = i \<and> jr_fence r \<le> tok then upd_row st a tok res (db_now d) r else r)
       (find_job j d)"
  unfolding find_job_def write_event_simps by (rule find_key_update_where) simp

lemma find_job_insert_outbox [simp, db_laws]: "find_job j (insert_outbox i sub msg d) = find_job j d"
  by (simp add: find_job_def)

lemma find_job_id: "find_job i d = Some row \<Longrightarrow> jr_id row = i"
  by (auto simp: find_job_def dest: find_SomeD)

lemma find_job_written [db_laws]:
  assumes "find_job i d = Some row" "jr_fence row \<le> tok"
  shows "find_job i (write_event i ev a dt tok res st d) = Some (upd_row st a tok res (db_now d) row)"
  using assms find_job_id [OF assms(1)] by (simp add: find_job_write)

lemma find_job_other [db_laws]:
  assumes "j \<noteq> i"
  shows "find_job j (write_event i ev a dt tok res st d) = find_job j d"
  using assms by (cases "find_job j d") (auto simp: find_job_write dest: find_job_id)

text \<open>A row of a database that satisfies the invariant carries the state its log replays to.\<close>

lemma job_log:
  assumes "db_inv d" "find_job i d = Some row"
  obtains evs s where "replay_events i d = Inr evs" "replay evs = Inr s" "jr_state row = job_state_value s"
    "jr_attempts row = foldl max 0 (map ev_attempt evs)" "0 \<le> jr_fence row"
    "length (outbox_of i d) = Suc (replays evs)"
  using find_job_inv [OF assms] by (auto simp: job_ok_def)

lemma db_inv_ids: "db_inv d \<Longrightarrow> ids_ok er_id (job_events d) (events_seq d)"
  by (simp add: db_inv_def)

section \<open>Properties\<close>

text \<open>C27: Recording an event is atomic. If it raises, the whole database is as before; if it returns,
  the transition was legal, the fence did not go back, the job's row carries the new state, the
  larger attempt number, the token and the result, its log has gained exactly that event, and no
  other job's row or log and no outbox row has changed.\<close>

theorem record_event_effect:
  assumes "db_inv d" and "record_event i ev a dt ft res d = (out, d')"
  shows "case out of
      Inl e \<Rightarrow> d' = d
    | Inr st \<Rightarrow> \<exists>row row' s evs.
        find_job i d = Some row \<and> jr_state row = job_state_value s \<and> lifecycle (Some s) ev st \<and>
        find_job i d' = Some row' \<and> jr_state row' = job_state_value st \<and>
        jr_attempts row' = max (jr_attempts row) a \<and>
        jr_fence row' = (case ft of None \<Rightarrow> jr_fence row | Some t \<Rightarrow> t) \<and> jr_fence row \<le> jr_fence row' \<and>
        jr_result row' = (case res of None \<Rightarrow> jr_result row | Some x \<Rightarrow> Some (JObj x)) \<and>
        replay_events i d = Inr evs \<and>
        replay_events i d' = Inr (evs @ [\<lparr>ev_type = ev, ev_attempt = a,
          ev_detail = (case dt of None \<Rightarrow> [] | Some x \<Rightarrow> x), ev_at = db_now d\<rparr>]) \<and>
        (\<forall>j. j \<noteq> i \<longrightarrow> find_job j d' = find_job j d \<and> replay_events j d' = replay_events j d) \<and>
        outbox d' = outbox d"
  using assms(2)
proof (cases rule: record_event_cases)
  case (ok row s st)
  obtain evs where evs: "replay_events i d = Inr evs" using job_log [OF assms(1) ok(1)] by metis
  note log = replay_events_write [OF db_inv_ids [OF assms(1)]]
  have "replay_events i d' = Inr (evs @ [\<lparr>ev_type = ev, ev_attempt = a,
      ev_detail = (case dt of None \<Rightarrow> [] | Some x \<Rightarrow> x), ev_at = db_now d\<rparr>])"
    using evs by (simp add: ok(8) log)
  moreover have "\<forall>j. j \<noteq> i \<longrightarrow> find_job j d' = find_job j d \<and> replay_events j d' = replay_events j d"
    by (simp add: ok(8) log find_job_other)
  moreover have "find_job i d' = Some (upd_row st a (fence_of ft row) res (db_now d) row)"
    using ok(1,4) by (simp add: ok(8) find_job_written)
  moreover have "outbox d' = outbox d" by (simp add: ok(8))
  ultimately show ?thesis
    using ok(1-4,7) evs by (auto simp: fence_of_def upd_row_def split: option.splits)
qed simp

definition demo_payload :: pydict where
  "demo_payload = [(''duration_ms'', JInt 10), (''failure_rate'', JFloat (Fin 0)), (''poison'', JBool False)]"

definition demo_db :: db where
  "demo_db = snd (submit_job 1 [] ''key-1'' demo_payload ''orbiter.jobs'' (empty_db 0))"

lemma demo_db_inv: "db_inv demo_db"
  unfolding demo_db_def by (rule submit_job_inv) (rule db_inv_empty)

lemma demo_db_jobs: "jobs demo_db = [submitted_row 1 ''key-1'' demo_payload 0]"
  by (simp add: demo_db_def submit_job_def transaction_def empty_db_def Let_def find_job_def
      insert_outbox_def insert_event_def submitted_row_def)

lemma demo_db_row: "find_job 1 demo_db = Some (submitted_row 1 ''key-1'' demo_payload 0)"
  by (simp add: find_job_def demo_db_jobs) (simp add: submitted_row_def)

theorem record_event_effect_witness:
  "\<exists>d'. record_event 1 E_STARTED 1 None (Some 7) None demo_db = (Inr S_RUNNING, d') \<and>
     (\<exists>row'. find_job 1 d' = Some row' \<and> jr_state row' = ''running'' \<and> jr_fence row' = 7) \<and>
     outbox d' = outbox demo_db"
proof -
  obtain d' where run: "record_event 1 E_STARTED 1 None (Some 7) None demo_db = (Inr S_RUNNING, d')"
    by (simp add: record_event_def transaction_def repo_apply_event_def demo_db_row submitted_row_def
        int4_ok_def int8_ok_def Let_def job_state_of_def enum_job_state_def)
  from record_event_effect [OF demo_db_inv run] run show ?thesis by auto
qed

lemma replay_dead_letter:
  assumes "find_job i d = Some row" "jr_state row = job_state_value S_DEAD_LETTER" "int8_ok (jr_fence row)"
  shows "replay_job i sub d = (Inr (Some S_QUEUED), insert_outbox i sub
    (JObj [(''job_id'', JStr (uuid_str i)), (''payload'', jr_payload row)])
    (write_event i E_REPLAYED 0 [] (jr_fence row) None S_QUEUED d))"
proof -
  have "repo_apply_event i E_REPLAYED 0 None None None d = (Inr S_QUEUED, write_event i E_REPLAYED 0 [] (jr_fence row) None S_QUEUED d)"
    using assms(2,3) by (subst repo_apply_event_eq [OF assms(1), of S_DEAD_LETTER _ S_QUEUED])
      (auto simp: fence_of_def int4_ok_def job_state_of_Inr)
  then show ?thesis by (simp add: replay_job_def transaction_def assms(1) Let_def)
qed

text \<open>A replay re-queues exactly the dead-lettered jobs: an unknown job gives \<open>None\<close>, a
  dead-lettered one becomes queued with a \<open>REPLAYED\<close> event and one new unpublished outbox row that
  carries its payload, and every other state raises \<open>IllegalTransition\<close>; without success the
  database is as before.\<close>

theorem replay_job_outcome:
  assumes "db_inv d" and "\<forall>r \<in> set (jobs d). int8_ok (jr_fence r)"
  shows "case (find_job i d, replay_job i sub d) of
      (None, (out, d')) \<Rightarrow> out = Inr None \<and> d' = d
    | (Some row, (out, d')) \<Rightarrow>
        if jr_state row = job_state_value S_DEAD_LETTER
        then out = Inr (Some S_QUEUED) \<and> (\<exists>evs ev b. replay_events i d = Inr evs \<and>
          replay_events i d' = Inr (evs @ [ev]) \<and> ev_type ev = E_REPLAYED \<and>
          outbox d' = outbox d @ [b] \<and> ob_job b = i \<and> ob_subject b = sub \<and> ob_published b = None \<and>
          ob_payload b = JObj [(''job_id'', JStr (uuid_str i)), (''payload'', jr_payload row)])
        else (\<exists>s. jr_state row = job_state_value s \<and> out = Inl (IllegalTransition (Some s) E_REPLAYED)) \<and> d' = d"
proof (cases "find_job i d")
  case None
  then show ?thesis by (auto simp: replay_job_def transaction_def)
next
  case (Some row)
  obtain evs s where log: "replay_events i d = Inr evs" "jr_state row = job_state_value s"
    using job_log [OF assms(1) Some] by metis
  have row: "row \<in> set (jobs d)" using find_job_inv [OF assms(1) Some] by simp
  show ?thesis
  proof (cases "s = S_DEAD_LETTER")
    case True
    let ?w = "write_event i E_REPLAYED 0 [] (jr_fence row) None S_QUEUED d"
    have "replay_job i sub d = (Inr (Some S_QUEUED), insert_outbox i sub
        (JObj [(''job_id'', JStr (uuid_str i)), (''payload'', jr_payload row)]) ?w)"
      using replay_dead_letter [OF Some] row assms(2) True log(2) by blast
    moreover have "replay_events i (insert_outbox i sub m ?w) = replay_events i ?w" for m
      by (rule replay_events_cong) simp
    ultimately show ?thesis
      using True log Some
      by (simp add: insert_outbox_def replay_events_write [OF db_inv_ids [OF assms(1)]])
  next
    case False
    then have "apply_event (Some s) E_REPLAYED = Inl (IllegalTransition (Some s) E_REPLAYED)"
      by (cases s) simp_all
    then have "repo_apply_event i E_REPLAYED 0 None None None d =
        (Inl (IllegalTransition (Some s) E_REPLAYED), d)"
      using Some log(2) by (simp add: repo_apply_event_def del: apply_event.simps)
    then have "replay_job i sub d = (Inl (IllegalTransition (Some s) E_REPLAYED), d)"
      by (simp add: replay_job_def transaction_def Some)
    moreover have "jr_state row \<noteq> job_state_value S_DEAD_LETTER" using False log(2) by (simp del: job_state_value.simps)
    ultimately show ?thesis using log(2) Some by auto
  qed
qed

theorem replay_job_outcome_witness:
  "case replay_job 1 ''orbiter.jobs'' demo_db of
     (out, d') \<Rightarrow> out = Inl (IllegalTransition (Some S_QUEUED) E_REPLAYED) \<and> d' = demo_db"
proof -
  have "\<forall>r \<in> set (jobs demo_db). int8_ok (jr_fence r)"
    by (simp add: demo_db_jobs) (simp add: submitted_row_def int8_ok_def)
  from replay_job_outcome [OF demo_db_inv this, of 1 "''orbiter.jobs''"] show ?thesis
    by (auto simp: demo_db_row submitted_row_def simp flip: job_state_value.simps split: prod.splits)
qed

lemma events_of_log: "replay_events i d = Inr evs \<Longrightarrow> length (events_of i d) = length evs"
proof -
  have "map_res f xs = Inr ys \<Longrightarrow> length xs = length ys" for f :: "event_row \<Rightarrow> exn + job_event" and xs ys
    by (induction xs arbitrary: ys) auto
  then show "replay_events i d = Inr evs \<Longrightarrow> length (events_of i d) = length evs" unfolding replay_events_def .
qed

definition demo_runtime :: py_runtime where
  "demo_runtime = \<lparr>repr_of = \<lambda>_. [], float_of_str = \<lambda>_. None, isoformat = \<lambda>_. ''t''\<rparr>"

end
