(* ===== verification/Broker.thy ===== *)
theory Broker
  imports Domain Config
begin

text \<open>
  The message broker as the program sees it. The client library is not part of the repository: the
  record \<open>jetstream\<close> holds the calls the relay, the listener and the stream set-up make, over a state
  of the broker that stays abstract. \<open>js_stores\<close> names what the relay and the listener rely on: an
  acknowledged publish with a \<^verbatim>\<open>Nats-Msg-Id\<close> has stored its message, or one with the same id was stored
  before; a publish that raises may or may not have stored its message. How long the server remembers an
  id (its duplicate window) is left open: a repeated publish may always be stored again. \<open>ref_js\<close> is a
  broker that behaves so, with a window of the last messages only.
\<close>

record stream_config =
  sc_name :: string
  sc_subjects :: "string list"
  sc_work_queue :: bool

record consumer_config =
  cc_durable_name :: string
  cc_filter_subject :: string
  cc_ack_explicit :: bool
  cc_ack_wait :: "int option"
  cc_max_deliver :: "int option"

type_synonym headers = "(string \<times> string) list"

record 'b jetstream =
  js_publish :: "string \<Rightarrow> json_text \<Rightarrow> headers \<Rightarrow> 'b \<Rightarrow> (exn + unit) \<times> 'b"
  js_get_msg :: "string \<Rightarrow> int \<Rightarrow> 'b \<Rightarrow> (exn + json_text) \<times> 'b"
  js_delete_msg :: "string \<Rightarrow> int \<Rightarrow> 'b \<Rightarrow> (exn + unit) \<times> 'b"
  js_ack :: "json_text \<Rightarrow> 'b \<Rightarrow> (exn + unit) \<times> 'b"
  js_add_stream :: "stream_config \<Rightarrow> 'b \<Rightarrow> (exn + unit) \<times> 'b"
  js_add_consumer :: "string \<Rightarrow> consumer_config \<Rightarrow> 'b \<Rightarrow> (exn + unit) \<times> 'b"

text \<open>\<^verbatim>\<open>contextlib.suppress(Exception)\<close> around one call.\<close>

definition suppress :: "('b \<Rightarrow> (exn + unit) \<times> 'b) \<Rightarrow> 'b \<Rightarrow> 'b" where
  "suppress call b = snd (call b)"

definition ensure_stream :: "'b jetstream \<Rightarrow> settings \<Rightarrow> 'b \<Rightarrow> 'b" where
  "ensure_stream js cfg b =
     (let b1 = suppress (js_add_stream js \<lparr>sc_name = stream_name cfg, sc_subjects = [subject_jobs cfg],
                 sc_work_queue = True\<rparr>) b
      in suppress (js_add_consumer js (stream_name cfg) \<lparr>cc_durable_name = consumer_durable cfg,
           cc_filter_subject = subject_jobs cfg, cc_ack_explicit = True, cc_ack_wait = Some (ack_wait_s cfg),
           cc_max_deliver = Some (max_deliver cfg)\<rparr>) b1)"

section \<open>What the program relies on\<close>

record stored_msg =
  sm_id :: string
  sm_subject :: string
  sm_data :: json_text

text \<open>The contract, for the messages \<open>stored\<close> that the broker has accepted so far, in their order.\<close>

locale js_stores =
  fixes js :: "'b jetstream"
    and stored :: "'b \<Rightarrow> stored_msg list"
  assumes publish_stores: "map_of hs ''Nats-Msg-Id'' = Some i \<Longrightarrow> js_publish js subject data hs b = (out, b') \<Longrightarrow>
    stored b' = stored b @ [\<lparr>sm_id = i, sm_subject = subject, sm_data = data\<rparr>] \<or>
    stored b' = stored b \<and> (i \<in> sm_id ` set (stored b) \<or> (\<exists>e. out = Inl e))"
begin

lemma publish_there:
  "map_of hs ''Nats-Msg-Id'' = Some i \<Longrightarrow> js_publish js subject data hs b = (Inr (), b') \<Longrightarrow> i \<in> sm_id ` set (stored b')"
  using publish_stores by fastforce

lemma publish_fresh:
  "map_of hs ''Nats-Msg-Id'' = Some i \<Longrightarrow> js_publish js subject data hs b = (Inr (), b') \<Longrightarrow> i \<notin> sm_id ` set (stored b) \<Longrightarrow>
     stored b' = stored b @ [\<lparr>sm_id = i, sm_subject = subject, sm_data = data\<rparr>]"
  using publish_stores by fastforce

end

section \<open>A reference broker\<close>

text \<open>Streams with sequence numbers, a duplicate window that reaches back over the last messages, and a
  switch that makes the next publish lose its acknowledgement.\<close>

record ref_broker =
  rb_msgs :: "stored_msg list"
  rb_streams :: "stream_config list"
  rb_consumers :: "(string \<times> consumer_config) list"
  rb_deleted :: "int list"
  rb_acked :: nat
  rb_window :: nat
  rb_drop_acks :: nat

definition window_store :: "nat \<Rightarrow> stored_msg \<Rightarrow> stored_msg list \<Rightarrow> stored_msg list" where
  "window_store n m ms = (if sm_id m \<in> sm_id ` set (drop (length ms - n) ms) then ms else ms @ [m])"

definition ref_publish :: "string \<Rightarrow> json_text \<Rightarrow> headers \<Rightarrow> ref_broker \<Rightarrow> (exn + unit) \<times> ref_broker" where
  "ref_publish subject data hs b =
     (let i = (case map_of hs ''Nats-Msg-Id'' of None \<Rightarrow> [] | Some i \<Rightarrow> i);
          b1 = b\<lparr>rb_msgs := window_store (rb_window b) \<lparr>sm_id = i, sm_subject = subject, sm_data = data\<rparr> (rb_msgs b),
            rb_drop_acks := rb_drop_acks b - 1\<rparr>
      in (if rb_drop_acks b = 1 then Inl (BrokerError ''no response'') else Inr (), b1))"

definition ref_get_msg :: "string \<Rightarrow> int \<Rightarrow> ref_broker \<Rightarrow> (exn + json_text) \<times> ref_broker" where
  "ref_get_msg stream sq b =
     (if 1 \<le> sq \<and> nat sq \<le> length (rb_msgs b) \<and> sq \<notin> set (rb_deleted b)
      then (Inr (sm_data (rb_msgs b ! (nat sq - 1))), b)
      else (Inl (BrokerError ''no message found''), b))"

definition ref_delete_msg :: "string \<Rightarrow> int \<Rightarrow> ref_broker \<Rightarrow> (exn + unit) \<times> ref_broker" where
  "ref_delete_msg stream sq b =
     (if 1 \<le> sq \<and> nat sq \<le> length (rb_msgs b) \<and> sq \<notin> set (rb_deleted b)
      then (Inr (), b\<lparr>rb_deleted := sq # rb_deleted b\<rparr>)
      else (Inl (BrokerError ''no message found''), b))"

definition ref_js :: "ref_broker jetstream" where
  "ref_js = \<lparr>js_publish = ref_publish, js_get_msg = ref_get_msg, js_delete_msg = ref_delete_msg,
     js_ack = (\<lambda>data b. (Inr (), b\<lparr>rb_acked := rb_acked b + 1\<rparr>)),
     js_add_stream = (\<lambda>c b. (Inr (), b\<lparr>rb_streams := rb_streams b @ [c]\<rparr>)),
     js_add_consumer = (\<lambda>s c b. (Inr (), b\<lparr>rb_consumers := rb_consumers b @ [(s, c)]\<rparr>))\<rparr>"

definition ref_broker0 :: "nat \<Rightarrow> ref_broker" where
  "ref_broker0 n = \<lparr>rb_msgs = [], rb_streams = [], rb_consumers = [], rb_deleted = [], rb_acked = 0, rb_window = 1,
     rb_drop_acks = n\<rparr>"

text \<open>A broker whose only message has the given body: it can be fetched, copied and deleted.\<close>

definition ref_holding :: "json_text \<Rightarrow> ref_broker" where
  "ref_holding raw = (ref_broker0 0)\<lparr>rb_msgs := [\<lparr>sm_id = ''outbox-1'', sm_subject = ''orbiter.jobs'', sm_data = raw\<rparr>]\<rparr>"

lemma ref_holding_services:
  obtains b1 b2 where "js_get_msg ref_js stream 1 (ref_holding raw) = (Inr raw, ref_holding raw)"
    "js_publish ref_js subject raw hs (ref_holding raw) = (Inr (), b1)" "js_delete_msg ref_js stream 1 b1 = (Inr (), b2)"
proof -
  let ?b1 = "snd (ref_publish subject raw hs (ref_holding raw))"
  have "rb_msgs ?b1 \<noteq> []" "rb_deleted ?b1 = []"
    by (simp_all add: ref_publish_def Let_def window_store_def ref_broker0_def ref_holding_def)
  then have "js_delete_msg ref_js stream 1 ?b1 = (Inr (), ?b1\<lparr>rb_deleted := 1 # rb_deleted ?b1\<rparr>)"
    by (cases "rb_msgs ?b1") (simp_all add: ref_js_def ref_delete_msg_def)
  then show ?thesis
    by (intro that [of ?b1]) (simp_all add: ref_js_def ref_get_msg_def ref_publish_def Let_def ref_broker0_def ref_holding_def)
qed

interpretation ref_stream: js_stores ref_js rb_msgs
proof unfold_locales
  fix hs i subject data out and b b' :: ref_broker
  assume "map_of hs ''Nats-Msg-Id'' = Some i" "js_publish ref_js subject data hs b = (out, b')"
  then have "rb_msgs b' = window_store (rb_window b) \<lparr>sm_id = i, sm_subject = subject, sm_data = data\<rparr> (rb_msgs b)"
    by (auto simp: ref_js_def ref_publish_def Let_def)
  then show "rb_msgs b' = rb_msgs b @ [\<lparr>sm_id = i, sm_subject = subject, sm_data = data\<rparr>] \<or>
      rb_msgs b' = rb_msgs b \<and> (i \<in> sm_id ` set (rb_msgs b) \<or> (\<exists>e. out = Inl e))"
    by (auto simp: window_store_def dest: in_set_dropD split: if_splits)
qed

lemmas ref_js_stores = ref_stream.js_stores_axioms

end
