(* ===== verification/Telemetry.thy ===== *)
theory Telemetry
  imports Domain "HOL-Library.AList"
begin

text \<open>
  Trace propagation: \<^verbatim>\<open>src/orbiter/telemetry.py\<close>. The tracing library is not part of the repository: of
  its API the record \<open>otel\<close> has \<^verbatim>\<open>extract\<close> and what \<^verbatim>\<open>inject\<close> writes inside a span started in a given
  context. What matters to the rest of the program is which carriers make \<open>context_from\<close> raise.
\<close>

record 'c otel =
  otel_extract :: "(string \<times> string) list \<Rightarrow> 'c"
  span_carrier :: "'c \<Rightarrow> (string \<times> string) list"

record exporter =
  exp_service :: string
  exp_endpoint :: string

record telemetry =
  tel_initialized :: bool
  tel_tracer_provider :: "exporter option"
  tel_meter_provider :: "exporter option"

definition init_telemetry :: "string \<Rightarrow> string \<Rightarrow> telemetry \<Rightarrow> telemetry" where
  "init_telemetry service_name endpoint tel =
     (if endpoint = [] \<or> tel_initialized tel then tel
      else tel\<lparr>tel_tracer_provider := Some \<lparr>exp_service = service_name, exp_endpoint = endpoint @ ''/v1/traces''\<rparr>,
               tel_meter_provider := Some \<lparr>exp_service = service_name, exp_endpoint = endpoint @ ''/v1/metrics''\<rparr>,
               tel_initialized := True\<rparr>)"

text \<open>The tracer and the meter the components ask for; the library's look-up, by the provider installed, is
  an argument.\<close>

definition tracer :: "(exporter option \<Rightarrow> string \<Rightarrow> 't) \<Rightarrow> telemetry \<Rightarrow> 't" where
  "tracer get_tracer tel = get_tracer (tel_tracer_provider tel) ''orbiter''"

definition meter :: "(exporter option \<Rightarrow> string \<Rightarrow> 'm) \<Rightarrow> telemetry \<Rightarrow> 'm" where
  "meter get_meter tel = get_meter (tel_meter_provider tel) ''orbiter''"

definition current_carrier :: "'c otel \<Rightarrow> 'c \<Rightarrow> (string \<times> string) list" where
  "current_carrier tel ctx = span_carrier tel ctx"

text \<open>\<^verbatim>\<open>(carrier or {}).items()\<close>: an absent, null or empty carrier gives a fresh context, and a true value
  that is not a dict has no \<^verbatim>\<open>items\<close>.\<close>

definition context_from :: "'c otel \<Rightarrow> py_runtime \<Rightarrow> json \<Rightarrow> exn + 'c" where
  "context_from tel rt carrier =
     (case (if py_truthy carrier then carrier else JObj []) of
        JObj kvs \<Rightarrow> Inr (otel_extract tel (map (\<lambda>(k, v). (k, py_str rt v)) kvs))
      | _ \<Rightarrow> Inl (Py (AttributeError ''items'')))"

text \<open>\<^verbatim>\<open>d.get(k)\<close> with its default \<open>None\<close>, and \<^verbatim>\<open>d.update(other)\<close>.\<close>

definition dict_get_none :: "pydict \<Rightarrow> string \<Rightarrow> json" where
  "dict_get_none d k = (case dict_get d k of None \<Rightarrow> JNull | Some v \<Rightarrow> v)"

definition dict_update :: "(string \<times> string) list \<Rightarrow> (string \<times> string) list \<Rightarrow> (string \<times> string) list" where
  "dict_update d e = foldl (\<lambda>h (k, v). AList.update k v h) d e"

lemma init_telemetry_once:
  "init_telemetry s2 e2 (init_telemetry s1 e1 tel) =
     (if e1 = [] then init_telemetry s2 e2 tel else init_telemetry s1 e1 tel)"
  by (simp add: init_telemetry_def)

text \<open>The first initialisation with an endpoint decides for good what tracer and meter a process has.\<close>

lemma tracer_initialized:
  assumes "\<not> tel_initialized tel" "e1 \<noteq> []"
  shows "tracer get (init_telemetry s2 e2 (init_telemetry s1 e1 tel)) = get (Some \<lparr>exp_service = s1, exp_endpoint = e1 @ ''/v1/traces''\<rparr>) ''orbiter''"
    and "meter get (init_telemetry s2 e2 (init_telemetry s1 e1 tel)) = get (Some \<lparr>exp_service = s1, exp_endpoint = e1 @ ''/v1/metrics''\<rparr>) ''orbiter''"
  using assms by (simp_all add: tracer_def meter_def init_telemetry_def)

lemma context_from_ok:
  "is_ok (context_from tel rt j) \<longleftrightarrow> \<not> py_truthy j \<or> (\<exists>kvs. j = JObj kvs)"
  by (auto simp: context_from_def split: json.splits)

lemma dict_update_other: "k \<notin> fst ` set e \<Longrightarrow> map_of (dict_update d e) k = map_of d k"
  unfolding dict_update_def
  by (induction e arbitrary: d) (auto simp: update_conv')

end
