(* ===== verification/Relay.thy ===== *)
theory Relay
  imports Repo Broker Telemetry
begin

text \<open>
  The outbox relay: \<^verbatim>\<open>src/orbiter/relay/outbox_relay.py\<close>. The rows other relays have locked are an
  argument (\<^verbatim>\<open>SKIP LOCKED\<close>); the broker and the tracing library are parameters. The poll loop is a
  recursion over the polls made before the stop event is seen; each poll comes with what the rest of
  the system has done to the database since the one before.
\<close>

definition relay_batch :: "int \<Rightarrow> int set \<Rightarrow> db \<Rightarrow> outbox_row list" where
  "relay_batch limit_n locked d =
     take (nat limit_n) (sort_key ob_id
       (filter (\<lambda>r. ob_published r = None \<and> ob_id r \<notin> locked) (outbox d)))"

definition relay_msg_id :: "outbox_row \<Rightarrow> string" where
  "relay_msg_id row = ''outbox-'' @ int_str (ob_id row)"

definition relay_row :: "'b jetstream \<Rightarrow> 'c otel \<Rightarrow> py_runtime \<Rightarrow> outbox_row \<Rightarrow> 'b \<Rightarrow> (exn + unit) \<times> 'b" where
  "relay_row js tel rt row b =
     (let payload = json_dumps (ob_payload row) in
      case json_loads payload of
        Inl e \<Rightarrow> (Inl (Py e), b)
      | Inr (JObj body) \<Rightarrow>
          (case context_from tel rt (dict_get_none body ''traceparent'') of
             Inl e \<Rightarrow> (Inl e, b)
           | Inr ctx \<Rightarrow>
               js_publish js (ob_subject row) payload
                 (dict_update [(''Nats-Msg-Id'', relay_msg_id row)] (current_carrier tel ctx)) b)
      | Inr _ \<Rightarrow> (Inl (Py (AttributeError ''get'')), b))"

fun relay_rows :: "'b jetstream \<Rightarrow> 'c otel \<Rightarrow> py_runtime \<Rightarrow> outbox_row list \<Rightarrow> 'b \<Rightarrow> (exn + unit) \<times> 'b" where
  "relay_rows js tel rt [] b = (Inr (), b)"
| "relay_rows js tel rt (row # rows) b =
     (case relay_row js tel rt row b of
        (Inl e, b1) \<Rightarrow> (Inl e, b1)
      | (Inr _, b1) \<Rightarrow> relay_rows js tel rt rows b1)"

definition mark_published :: "int list \<Rightarrow> db \<Rightarrow> db" where
  "mark_published ids d =
     d\<lparr>outbox := update_where (\<lambda>r. ob_id r \<in> set ids) (\<lambda>r. r\<lparr>ob_published := Some (db_now d)\<rparr>) (outbox d)\<rparr>"

definition relay_once ::
    "'b jetstream \<Rightarrow> 'c otel \<Rightarrow> py_runtime \<Rightarrow> settings \<Rightarrow> int set \<Rightarrow> db \<Rightarrow> 'b \<Rightarrow> (exn + nat) \<times> db \<times> 'b" where
  "relay_once js tel rt cfg locked d b =
     (if relay_batch_size cfg < 0 then (Inl (DataError ''LIMIT must not be negative''), d, b)
      else
        let rows = relay_batch (relay_batch_size cfg) locked d in
        case relay_rows js tel rt rows b of
          (Inl e, b1) \<Rightarrow> (Inl e, d, b1)
        | (Inr _, b1) \<Rightarrow>
            (Inr (length rows), if rows \<noteq> [] then mark_published (map ob_id rows) d else d, b1))"

fun relay_run ::
    "'b jetstream \<Rightarrow> 'c otel \<Rightarrow> py_runtime \<Rightarrow> settings \<Rightarrow> ((db \<Rightarrow> db) \<times> int set) list \<Rightarrow> db \<Rightarrow> 'b \<Rightarrow>
       (exn + unit) \<times> db \<times> 'b" where
  "relay_run js tel rt cfg [] d b = (Inr (), d, b)"
| "relay_run js tel rt cfg ((others, locked) # polls) d b =
     (case relay_once js tel rt cfg locked (others d) b of
        (Inl e, d1, b1) \<Rightarrow> (Inl e, d1, b1)
      | (Inr published, d1, b1) \<Rightarrow> relay_run js tel rt cfg polls d1 b1)"

section \<open>What a batch publishes\<close>

text \<open>The message of a row, as the stream stores it.\<close>

definition row_msg :: "outbox_row \<Rightarrow> stored_msg" where
  "row_msg row = \<lparr>sm_id = relay_msg_id row, sm_subject = ob_subject row, sm_data = json_dumps (ob_payload row)\<rparr>"

lemma relay_msg_id_inj [simp]: "relay_msg_id r = relay_msg_id r' \<longleftrightarrow> ob_id r = ob_id r'"
  by (simp add: relay_msg_id_def)

lemma relay_msg_ids_apart: "ob_id ` A \<inter> ob_id ` B = {} \<Longrightarrow> relay_msg_id ` A \<inter> relay_msg_id ` B = {}"
  by (fastforce simp: disjoint_iff image_iff)

lemma row_msg_sel [simp]: "sm_id (row_msg row) = relay_msg_id row"
  by (simp add: row_msg_def)

lemma row_msg_mark [simp]: "row_msg (row\<lparr>ob_published := p\<rparr>) = row_msg row"
  by (simp add: row_msg_def relay_msg_id_def)

text \<open>The header block carries the row's message id whenever the tracing headers leave it alone.\<close>

definition carrier_keeps_id :: "'c otel \<Rightarrow> bool" where
  "carrier_keeps_id tel \<longleftrightarrow> (\<forall>c. ''Nats-Msg-Id'' \<notin> fst ` set (span_carrier tel c))"

lemma relay_row_publish:
  assumes "carrier_keeps_id tel" "relay_row js tel rt row b = (out, b')"
  obtains (raised) e where "out = Inl e" "b' = b"
    | (published) hs where "map_of hs ''Nats-Msg-Id'' = Some (relay_msg_id row)"
        "js_publish js (ob_subject row) (json_dumps (ob_payload row)) hs b = (out, b')"
proof (cases "ob_payload row")
  case (JObj body)
  show ?thesis
  proof (cases "context_from tel rt (dict_get_none body ''traceparent'')")
    case (Inl e)
    with assms(2) JObj have "out = Inl e" "b' = b" by (auto simp: relay_row_def Let_def)
    then show ?thesis by (rule raised)
  next
    case (Inr ctx)
    let ?hs = "dict_update [(''Nats-Msg-Id'', relay_msg_id row)] (current_carrier tel ctx)"
    have "map_of ?hs ''Nats-Msg-Id'' = Some (relay_msg_id row)"
      using assms(1) by (simp add: dict_update_other carrier_keeps_id_def current_carrier_def)
    moreover have "js_publish js (ob_subject row) (json_dumps (ob_payload row)) ?hs b = (out, b')"
      using assms(2) JObj Inr by (simp add: relay_row_def Let_def)
    ultimately show ?thesis by (rule published)
  qed
qed (use assms(2) raised in \<open>auto simp: relay_row_def Let_def\<close>)

text \<open>What a batch adds to the stream: some of its messages, in order. When it succeeds, every row has its
  message there, and messages that are new to the stream are all added.\<close>

context js_stores
begin

lemma relay_row_stores:
  assumes "carrier_keeps_id tel" "relay_row js tel rt row b = (out, b')"
  shows "stored b' = stored b @ [row_msg row] \<or>
    stored b' = stored b \<and> (relay_msg_id row \<in> sm_id ` set (stored b) \<or> (\<exists>e. out = Inl e))"
  using assms by (cases rule: relay_row_publish) (auto simp: row_msg_def dest: publish_stores)

lemma relay_rows_add:
  assumes "carrier_keeps_id tel" "relay_rows js tel rt rows b = (out, b')"
  obtains new where "stored b' = stored b @ new" "subseq new (map row_msg rows)"
    "out = Inr () \<Longrightarrow> relay_msg_id ` set rows \<subseteq> sm_id ` set (stored b')"
  using assms(2)
proof (induction rows arbitrary: b thesis)
  case Nil
  then show ?case by (intro Nil.prems(1) [of "[]"]) simp_all
next
  case (Cons row rows)
  obtain o1 b1 where b1: "relay_row js tel rt row b = (o1, b1)" by fastforce
  obtain first where first: "stored b1 = stored b @ first" "subseq first [row_msg row]"
      "relay_msg_id row \<in> sm_id ` set (stored b1) \<or> (\<exists>e. o1 = Inl e)"
    using relay_row_stores [OF assms(1) b1] by force
  show ?case
  proof (cases o1)
    case (Inl e)
    then have "b' = b1" "out = Inl e" using Cons.prems(2) b1 by simp_all
    moreover have "subseq first (map row_msg (row # rows))"
      using list_emb_append_mono [OF first(2), of "[]" "map row_msg rows"] by simp
    ultimately show ?thesis using first(1) by (intro Cons.prems(1)) simp_all
  next
    case (Inr u)
    then have "relay_rows js tel rt rows b1 = (out, b')" using Cons.prems(2) b1 by simp
    then obtain new where new: "stored b' = stored b1 @ new" "subseq new (map row_msg rows)"
        "out = Inr () \<Longrightarrow> relay_msg_id ` set rows \<subseteq> sm_id ` set (stored b')" using Cons.IH by blast
    have "subseq (first @ new) (map row_msg (row # rows))"
      using list_emb_append_mono [OF first(2) new(2)] by simp
    moreover have "relay_msg_id row \<in> sm_id ` set (stored b')" using first(3) Inr new(1) by auto
    ultimately show ?thesis using first(1) new by (intro Cons.prems(1) [of "first @ new"]) simp_all
  qed
qed

lemma relay_rows_fresh:
  assumes "carrier_keeps_id tel" "relay_rows js tel rt rows b = (Inr (), b')" "distinct (map ob_id rows)"
    "relay_msg_id ` set rows \<inter> sm_id ` set (stored b) = {}"
  shows "stored b' = stored b @ map row_msg rows"
  using assms(2-4)
proof (induction rows arbitrary: b)
  case (Cons row rows)
  then obtain b1 where b1: "relay_row js tel rt row b = (Inr (), b1)" "relay_rows js tel rt rows b1 = (Inr (), b')"
    by (auto split: prod.splits sum.splits)
  have one: "stored b1 = stored b @ [row_msg row]" using relay_row_stores [OF assms(1) b1(1)] Cons.prems(3) by auto
  have "relay_msg_id ` set rows \<inter> sm_id ` set (stored b1) = {}" using Cons.prems(2,3) by (auto simp: one)
  then show ?case using Cons.IH [OF b1(2)] Cons.prems(2) by (simp add: one)
qed simp

end

section \<open>Rows the relay can always decode\<close>

text \<open>Every row the repository writes carries an object whose trace carrier, if any, is an object; so
  no committed row can stop the relay.\<close>

definition relayable :: "json \<Rightarrow> bool" where
  "relayable j = (case j of
     JObj kvs \<Rightarrow> (case dict_get kvs ''traceparent'' of None \<Rightarrow> True | Some (JObj c) \<Rightarrow> True | Some _ \<Rightarrow> False)
   | _ \<Rightarrow> False)"

definition outbox_wf :: "db \<Rightarrow> bool" where
  "outbox_wf d \<longleftrightarrow> (\<forall>r \<in> set (outbox d). relayable (ob_payload r))"

lemma relayable_messages [simp]:
  "relayable (submit_message i payload carrier)"
  "relayable (JObj [(''job_id'', j), (''payload'', p)])"
  by (simp_all add: relayable_def submit_message_def dict_get_def)

lemma relay_row_relayable:
  assumes "relayable (ob_payload row)"
  obtains hs where "relay_row js tel rt row b = js_publish js (ob_subject row) (json_dumps (ob_payload row)) hs b"
proof -
  obtain kvs where kvs: "ob_payload row = JObj kvs" using assms by (cases "ob_payload row") (auto simp: relayable_def)
  have "is_ok (context_from tel rt (dict_get_none kvs ''traceparent''))"
    using assms kvs by (auto simp: context_from_ok relayable_def dict_get_none_def split: option.splits json.splits)
  then obtain ctx where "context_from tel rt (dict_get_none kvs ''traceparent'') = Inr ctx"
    by (cases "context_from tel rt (dict_get_none kvs ''traceparent'')") auto
  with kvs show ?thesis by (intro that) (simp add: relay_row_def Let_def)
qed

lemma relay_rows_error:
  assumes "\<forall>r \<in> set rows. relayable (ob_payload r)" "relay_rows js tel rt rows b = (Inl e, b')"
  shows "\<exists>subject data hs b0. fst (js_publish js subject data hs b0) = Inl e"
  using assms
proof (induction rows arbitrary: b)
  case (Cons row rows)
  obtain hs where hs: "relay_row js tel rt row b = js_publish js (ob_subject row) (json_dumps (ob_payload row)) hs b"
    using Cons.prems(1) by (auto intro: relay_row_relayable)
  show ?case
  proof (cases "relay_row js tel rt row b")
    case (Pair o1 b1)
    show ?thesis
    proof (cases o1)
      case (Inl e1)
      with Pair Cons.prems(2) hs have "fst (js_publish js (ob_subject row) (json_dumps (ob_payload row)) hs b) = Inl e"
        by simp
      then show ?thesis by blast
    next
      case (Inr u)
      with Pair Cons.prems have "relay_rows js tel rt rows b1 = (Inl e, b')" by simp
      then show ?thesis using Cons.IH Cons.prems(1) by simp
    qed
  qed
qed simp

lemma set_relay_batch: "set (relay_batch n locked d) \<subseteq> set (outbox d)"
  by (auto simp: relay_batch_def dest: in_set_takeD)

lemma relay_batch_unpublished: "r \<in> set (relay_batch n locked d) \<Longrightarrow> ob_published r = None \<and> ob_id r \<notin> locked"
  by (auto simp: relay_batch_def dest!: in_set_takeD)

section \<open>Marking rows keeps the invariants\<close>

lemma mark_published_simps [simp]:
  "jobs (mark_published ids d) = jobs d" "job_events (mark_published ids d) = job_events d"
  "events_seq (mark_published ids d) = events_seq d" "outbox_seq (mark_published ids d) = outbox_seq d"
  "db_now (mark_published ids d) = db_now d"
  "length (outbox (mark_published ids d)) = length (outbox d)"
  "find_job i (mark_published ids d) = find_job i d"
  by (simp_all add: mark_published_def find_job_def)

lemma map_mark_published:
  assumes "\<And>r t. f (r\<lparr>ob_published := t\<rparr>) = f r"
  shows "map f (outbox (mark_published ids d)) = map f (outbox d)"
  by (simp add: mark_published_def map_update_where assms)

lemma mark_published_outbox_of: "length (outbox_of i (mark_published ids d)) = length (outbox_of i d)"
proof -
  have len: "length (filter (\<lambda>b. ob_job b = i) xs) = count_list (map ob_job xs) i" for xs
    by (induction xs) auto
  show ?thesis unfolding outbox_of_def len by (simp add: map_mark_published)
qed

lemma mark_published_inv:
  assumes "db_inv d"
  shows "db_inv (mark_published ids d)"
proof -
  have "job_ok (mark_published ids d) r = job_ok d r" for r
    by (rule job_ok_cong) (simp_all add: mark_published_outbox_of replay_events_cong [of "mark_published ids d" d])
  moreover have "ids_ok ob_id (outbox (mark_published ids d)) n \<longleftrightarrow> ids_ok ob_id (outbox d) n" for n
  proof -
    have alt: "ids_ok ob_id xs n \<longleftrightarrow> sorted_wrt (<) (map ob_id xs) \<and> (\<forall>k \<in> set (map ob_id xs). k \<le> n)" for xs
      by (simp add: ids_ok_def)
    have "map ob_id (outbox (mark_published ids d)) = map ob_id (outbox d)" by (simp add: map_mark_published)
    then show ?thesis by (simp only: alt)
  qed
  moreover have "ob_job ` set (outbox (mark_published ids d)) = ob_job ` set (outbox d)"
  proof -
    have "map ob_job (outbox (mark_published ids d)) = map ob_job (outbox d)" by (simp add: map_mark_published)
    then show ?thesis by (metis set_map)
  qed
  ultimately show ?thesis using assms unfolding db_inv_def by (metis (no_types, lifting) image_iff mark_published_simps(1,2,3,4))
qed

lemma mark_published_wf: "outbox_wf d \<Longrightarrow> outbox_wf (mark_published ids d)"
  by (auto simp: outbox_wf_def mark_published_def set_update_where)

lemma relay_once_db:
  "relay_once js tel rt cfg locked d b = (out, d', b') \<Longrightarrow> d' = d \<or> (\<exists>ids. d' = mark_published ids d)"
  by (auto simp: relay_once_def Let_def split: if_splits prod.splits sum.splits)

text \<open>The rows a round works on, described without the query: the first unpublished and unlocked ones in
  the order of their ids, as many as the batch size allows.\<close>

lemma relay_batch_selects:
  assumes "distinct (map ob_id (outbox d))" and free_def: "free = {r \<in> set (outbox d). ob_published r = None \<and> ob_id r \<notin> locked}"
  shows "set (relay_batch n locked d) \<subseteq> free" "sorted_wrt (<) (map ob_id (relay_batch n locked d))"
    "length (relay_batch n locked d) = min (nat n) (card free)"
    "r \<in> set (relay_batch n locked d) \<Longrightarrow> q \<in> free - set (relay_batch n locked d) \<Longrightarrow> ob_id r < ob_id q"
proof -
  define xs where "xs = sort_key ob_id (filter (\<lambda>r. ob_published r = None \<and> ob_id r \<notin> locked) (outbox d))"
  have batch: "relay_batch n locked d = take (nat n) xs" by (simp add: relay_batch_def xs_def)
  have set_xs: "set xs = free" by (auto simp: xs_def free_def)
  have "distinct (map ob_id xs)"
    using distinct_map_filter [OF assms(1)] unfolding xs_def by (simp add: distinct_map)
  moreover have "sorted (map ob_id xs)" by (simp add: xs_def)
  ultimately have sorted: "sorted_wrt (<) (map ob_id xs)" by (simp add: strict_sorted_iff)
  then have "distinct xs" by (simp add: strict_sorted_iff distinct_map)
  then have "card free = length xs" by (simp add: set_xs [symmetric] distinct_card)
  then show "length (relay_batch n locked d) = min (nat n) (card free)" by (simp add: batch min.commute)
  show "set (relay_batch n locked d) \<subseteq> free" using set_take_subset [of "nat n" xs] by (simp add: batch set_xs)
  have split: "sorted_wrt (<) (map ob_id (take (nat n) xs) @ map ob_id (drop (nat n) xs))"
    using sorted by (simp flip: map_append)
  then show "sorted_wrt (<) (map ob_id (relay_batch n locked d))" by (simp add: batch sorted_wrt_append)
  assume r: "r \<in> set (relay_batch n locked d)" "q \<in> free - set (relay_batch n locked d)"
  then have "q \<in> set (take (nat n) xs @ drop (nat n) xs)" by (simp add: set_xs)
  then have "q \<in> set (drop (nat n) xs)" using r(2) unfolding batch set_append by blast
  then show "ob_id r < ob_id q" using r(1) split by (simp add: batch sorted_wrt_append)
qed

lemma mark_published_rows:
  assumes "distinct (map ob_id (outbox d))" "set rows \<subseteq> set (outbox d)"
  shows "mark_published (map ob_id rows) d =
    d\<lparr>outbox := map (\<lambda>r. if r \<in> set rows then r\<lparr>ob_published := Some (db_now d)\<rparr> else r) (outbox d)\<rparr>"
proof -
  have "ob_id r \<in> ob_id ` set rows \<longleftrightarrow> r \<in> set rows" if "r \<in> set (outbox d)" for r
    using that assms by (auto simp: distinct_map dest: inj_onD)
  then show ?thesis by (auto simp: mark_published_def update_where_def)
qed

lemma relay_once_rows:
  assumes "0 \<le> relay_batch_size cfg" "relay_once js tel rt cfg locked d b = (out, d', b')"
    and rows_def: "rows = relay_batch (relay_batch_size cfg) locked d"
  obtains e where "relay_rows js tel rt rows b = (Inl e, b')" "out = Inl e" "d' = d"
    | "relay_rows js tel rt rows b = (Inr (), b')" "out = Inr (length rows)" "d' = mark_published (map ob_id rows) d"
proof -
  obtain o1 b1 where run: "relay_rows js tel rt rows b = (o1, b1)" by fastforce
  have "mark_published [] d = d" by (simp add: mark_published_def update_where_none)
  then show ?thesis using assms(1,2) run that by (cases o1) (auto simp: relay_once_def Let_def rows_def)
qed

section \<open>Properties\<close>

text \<open>C25: A relay round works on the first unpublished rows in the order of their ids that no other relay
  has locked, as many of them as there are up to the batch size. It adds some of their messages to the
  stream, in that order. A round that returns answers the number of these rows, and has set the
  publication time of exactly these rows and changed nothing else in the database; every one of them
  has its message in the stream, and rows whose message ids were new to the stream have added exactly
  one message each. A round that raises leaves the database as it was, and when the outbox rows are
  ones the repository writes, the exception is one the broker raised.\<close>

theorem relay_once_effect:
  assumes "carrier_keeps_id tel" and "js_stores js stored" and "0 \<le> relay_batch_size cfg" and "outbox_wf d"
    and "distinct (map ob_id (outbox d))" and "relay_once js tel rt cfg locked d b = (out, d', b')"
    and "free = {r \<in> set (outbox d). ob_published r = None \<and> ob_id r \<notin> locked}"
  shows "\<exists>rows new. set rows \<subseteq> free \<and> sorted_wrt (<) (map ob_id rows) \<and>
    length rows = min (nat (relay_batch_size cfg)) (card free) \<and> (\<forall>r \<in> set rows. \<forall>q \<in> free - set rows. ob_id r < ob_id q) \<and>
    stored b' = stored b @ new \<and> subseq new (map row_msg rows) \<and>
    (case out of
      Inr n \<Rightarrow> n = length rows \<and>
        d' = d\<lparr>outbox := map (\<lambda>r. if r \<in> set rows then r\<lparr>ob_published := Some (db_now d)\<rparr> else r) (outbox d)\<rparr> \<and>
        relay_msg_id ` set rows \<subseteq> sm_id ` set (stored b') \<and>
        (relay_msg_id ` set rows \<inter> sm_id ` set (stored b) = {} \<longrightarrow> new = map row_msg rows)
    | Inl e \<Rightarrow> d' = d \<and> (\<exists>subject data hs b0. fst (js_publish js subject data hs b0) = Inl e))"
proof -
  define rows where "rows = relay_batch (relay_batch_size cfg) locked d"
  note sel = relay_batch_selects [OF assms(5,7), where n = "relay_batch_size cfg", folded rows_def]
  have sub: "set rows \<subseteq> set (outbox d)" using sel(1) by (auto simp: assms(7))
  have ok: "\<forall>r \<in> set rows. relayable (ob_payload r)" using assms(4) sub by (auto simp: outbox_wf_def)
  have dist: "distinct (map ob_id rows)" using sel(2) by (simp add: strict_sorted_iff)
  obtain o1 b1 where run: "relay_rows js tel rt rows b = (o1, b1)" by fastforce
  from assms(3,6) rows_def have "\<exists>new. stored b' = stored b @ new \<and> subseq new (map row_msg rows) \<and> (case out of
      Inr n \<Rightarrow> n = length rows \<and>
        d' = d\<lparr>outbox := map (\<lambda>r. if r \<in> set rows then r\<lparr>ob_published := Some (db_now d)\<rparr> else r) (outbox d)\<rparr> \<and>
        relay_msg_id ` set rows \<subseteq> sm_id ` set (stored b') \<and>
        (relay_msg_id ` set rows \<inter> sm_id ` set (stored b) = {} \<longrightarrow> new = map row_msg rows)
    | Inl e \<Rightarrow> d' = d \<and> (\<exists>subject data hs b0. fst (js_publish js subject data hs b0) = Inl e))"
  proof (cases rule: relay_once_rows)
    case (1 e)
    obtain new where "stored b' = stored b @ new" "subseq new (map row_msg rows)"
      using js_stores.relay_rows_add [OF assms(2,1) 1(1)] by metis
    with 1 relay_rows_error [OF ok 1(1)] show ?thesis by auto
  next
    case 2
    obtain new where "stored b' = stored b @ new" "subseq new (map row_msg rows)" "relay_msg_id ` set rows \<subseteq> sm_id ` set (stored b')"
      using js_stores.relay_rows_add [OF assms(2,1) 2(1)] by metis
    moreover have "new = map row_msg rows" if "relay_msg_id ` set rows \<inter> sm_id ` set (stored b) = {}" "stored b' = stored b @ new" for new
      using that js_stores.relay_rows_fresh [OF assms(2,1) 2(1) dist that(1)] by simp
    ultimately show ?thesis using 2 mark_published_rows [OF assms(5) sub] by auto
  qed
  with sel show ?thesis by (intro exI [of _ rows]) auto
qed

definition demo_otel :: "unit otel" where
  "demo_otel = \<lparr>otel_extract = \<lambda>_. (), span_carrier = \<lambda>_. [(''traceparent'', ''00-1-1-01'')]\<rparr>"

lemma demo_otel_keeps: "carrier_keeps_id demo_otel"
  by (simp add: carrier_keeps_id_def demo_otel_def)

lemma demo_db_outbox:
  "outbox demo_db = [\<lparr>ob_id = 1, ob_job = 1, ob_subject = ''orbiter.jobs'',
     ob_payload = submit_message 1 demo_payload [], ob_created = 0, ob_published = None\<rparr>]"
  by (simp add: demo_db_def submit_job_def transaction_def empty_db_def Let_def find_job_def
      insert_outbox_def insert_event_def)

lemma demo_db_wf: "outbox_wf demo_db"
  by (simp add: outbox_wf_def demo_db_outbox)

lemma demo_batch: "relay_batch 100 {} demo_db = outbox demo_db"
  by (simp add: relay_batch_def demo_db_outbox)

lemma demo_relay_row:
  "relay_row ref_js demo_otel demo_runtime (hd (outbox demo_db)) b =
     ref_publish ''orbiter.jobs'' (json_dumps (submit_message 1 demo_payload []))
       [(''Nats-Msg-Id'', relay_msg_id (hd (outbox demo_db))), (''traceparent'', ''00-1-1-01'')] b"
  by (simp add: relay_row_def Let_def demo_db_outbox submit_message_def context_from_def dict_get_none_def
      dict_get_def demo_otel_def current_carrier_def dict_update_def ref_js_def)

lemma demo_relay_rows:
  "relay_rows ref_js demo_otel demo_runtime (outbox demo_db) b = relay_row ref_js demo_otel demo_runtime (hd (outbox demo_db)) b"
  by (simp add: demo_db_outbox split: prod.splits sum.splits)

lemma demo_relay_once:
  obtains b' where "relay_once ref_js demo_otel demo_runtime Settings {} demo_db (ref_broker0 0) = (Inr 1, mark_published [1] demo_db, b')"
proof -
  have "mark_published (map ob_id (outbox demo_db)) demo_db = mark_published [1] demo_db" "length (outbox demo_db) = 1" "outbox demo_db \<noteq> []"
    by (simp_all add: demo_db_outbox)
  then show ?thesis
    by (intro that) (simp add: relay_once_def demo_batch Settings_def demo_relay_rows demo_relay_row ref_publish_def ref_broker0_def Let_def)
qed

theorem relay_once_effect_witness:
  "\<exists>d' b' row. relay_once ref_js demo_otel demo_runtime Settings {} demo_db (ref_broker0 0) = (Inr 1, d', b') \<and>
     outbox demo_db = [row] \<and> rb_msgs b' = [row_msg row] \<and> outbox d' = [row\<lparr>ob_published := Some (db_now demo_db)\<rparr>]"
proof -
  obtain b' where run: "relay_once ref_js demo_otel demo_runtime Settings {} demo_db (ref_broker0 0) = (Inr 1, mark_published [1] demo_db, b')"
    by (rule demo_relay_once)
  obtain row where row: "outbox demo_db = [row]" "ob_published row = None" by (simp add: demo_db_outbox)
  have dist: "0 \<le> relay_batch_size Settings" "distinct (map ob_id (outbox demo_db))" by (simp_all add: Settings_def row)
  have free: "{row} = {r \<in> set (outbox demo_db). ob_published r = None \<and> ob_id r \<notin> {}}" using row by auto
  note eff = relay_once_effect [OF demo_otel_keeps ref_js_stores dist(1) demo_db_wf dist(2) run free]
  obtain rows new where "set rows \<subseteq> {row}" "1 = length rows" "rb_msgs b' = rb_msgs (ref_broker0 0) @ new"
      "relay_msg_id ` set rows \<inter> sm_id ` set (rb_msgs (ref_broker0 0)) = {} \<longrightarrow> new = map row_msg rows"
      "mark_published [1] demo_db = demo_db\<lparr>outbox := map (\<lambda>r. if r \<in> set rows then r\<lparr>ob_published := Some (db_now demo_db)\<rparr> else r) (outbox demo_db)\<rparr>"
    using eff unfolding sum.case by (elim exE conjE) (rule that; assumption)
  moreover from this(1,2) have "rows = [row]" by (cases rows) auto
  ultimately show ?thesis using run row by (auto simp: ref_broker0_def)
qed

definition unpublished :: "db \<Rightarrow> outbox_row list" where
  "unpublished d = filter (\<lambda>r. ob_published r = None) (outbox d)"

lemma relay_batch_ids:
  assumes "ids_ok ob_id (outbox d) n"
  shows "relay_batch k {} d = take (nat k) (unpublished d)"
proof -
  have "sorted (map ob_id (unpublished d))"
    unfolding unpublished_def using ids_ok_sorted [OF assms] by (rule sorted_filter)
  then show ?thesis by (simp add: relay_batch_def unpublished_def sort_key_id_if_sorted)
qed

lemma unpublished_mark:
  assumes "ids_ok ob_id (outbox d) n"
  shows "unpublished (mark_published (map ob_id (take k (unpublished d))) d) = drop k (unpublished d)"
proof -
  have dist: "distinct (map ob_id (outbox d))"
    using assms strict_sorted_iff unfolding ids_ok_def by blast
  have aux: "filter (\<lambda>r. ob_published r = None)
        (update_where (\<lambda>r. ob_id r \<in> S) (\<lambda>r. r\<lparr>ob_published := Some t\<rparr>) xs) =
      filter (\<lambda>r. ob_id r \<notin> S) (filter (\<lambda>r. ob_published r = None) xs)" for S t xs
    by (induction xs) auto
  have drop: "filter (\<lambda>r. ob_id r \<notin> set (map ob_id (take k xs))) xs = drop k xs"
    if "distinct (map ob_id xs)" for xs
  proof -
    have "filter (\<lambda>r. ob_id r \<notin> set (map ob_id (take k xs))) (take k xs @ drop k xs) = drop k xs"
    proof -
      have "distinct (map ob_id (take k xs @ drop k xs))" using that by simp
      then have "ob_id ` set (take k xs) \<inter> ob_id ` set (drop k xs) = {}"
        unfolding map_append distinct_append by simp
      then show ?thesis unfolding filter_append by (auto simp: filter_empty_conv filter_id_conv)
    qed
    then show ?thesis by simp
  qed
  have "distinct (map ob_id (unpublished d))"
    unfolding unpublished_def using dist by (rule distinct_map_filter)
  from drop [OF this] show ?thesis
    unfolding unpublished_def mark_published_def by (simp add: aux)
qed

lemma relay_rows_total:
  assumes "\<And>s p h b. accepting b \<Longrightarrow> is_ok (fst (js_publish js s p h b)) \<and> accepting (snd (js_publish js s p h b))"
    "\<forall>r \<in> set rows. relayable (ob_payload r)" "accepting b"
  obtains b' where "relay_rows js tel rt rows b = (Inr (), b')" "accepting b'"
  using assms(2,3)
proof (induction rows arbitrary: b thesis)
  case (Cons row rows)
  obtain hs where hs: "relay_row js tel rt row b = js_publish js (ob_subject row) (json_dumps (ob_payload row)) hs b"
    using Cons.prems(2) by (auto intro: relay_row_relayable)
  obtain b1 where "js_publish js (ob_subject row) (json_dumps (ob_payload row)) hs b = (Inr (), b1)" "accepting b1"
    using assms(1) [OF Cons.prems(3), of "ob_subject row" "json_dumps (ob_payload row)" hs] by (metis is_ok.elims(2) old.unit.exhaust prod.collapse)
  moreover from this(2) obtain b' where "relay_rows js tel rt rows b1 = (Inr (), b')" "accepting b'" using Cons.IH Cons.prems(2) by auto
  ultimately show ?case using hs by (intro Cons.prems(1) [of b']) simp_all
qed simp

lemma relay_once_total:
  assumes "\<And>s p h b. accepting b \<Longrightarrow> is_ok (fst (js_publish js s p h b)) \<and> accepting (snd (js_publish js s p h b))"
    "accepting b" "outbox_wf d" "0 \<le> relay_batch_size cfg" "ids_ok ob_id (outbox d) m"
  obtains n b' where "accepting b'" "relay_rows js tel rt (take (nat (relay_batch_size cfg)) (unpublished d)) b = (Inr (), b')"
    "relay_once js tel rt cfg {} d b =
      (Inr n, mark_published (map ob_id (take (nat (relay_batch_size cfg)) (unpublished d))) d, b')"
proof -
  let ?rows = "take (nat (relay_batch_size cfg)) (unpublished d)"
  have "\<forall>r \<in> set ?rows. relayable (ob_payload r)"
    using assms(3) by (auto simp: outbox_wf_def unpublished_def dest: in_set_takeD)
  then obtain b1 where "relay_rows js tel rt ?rows b = (Inr (), b1)" "accepting b1"
    using relay_rows_total [of accepting js ?rows b tel rt] assms(1,2) by blast
  moreover have "mark_published [] d = d" by (simp add: mark_published_def update_where_none)
  ultimately show ?thesis
    using assms(4) by (intro that [of b1 "length ?rows"]) (auto simp: relay_once_def Let_def relay_batch_ids [OF assms(5)])
qed

context js_stores
begin

lemma relay_run_published:
  assumes "carrier_keeps_id tel" "0 \<le> relay_batch_size cfg"
    "\<And>s p h b. accepting b \<Longrightarrow> is_ok (fst (js_publish js s p h b)) \<and> accepting (snd (js_publish js s p h b))"
    "accepting b" "outbox_wf d" "db_inv d"
  shows "\<exists>d' b'. relay_run js tel rt cfg (replicate k (id, {})) d b = (Inr (), d', b') \<and>
    unpublished d' = drop (k * nat (relay_batch_size cfg)) (unpublished d) \<and>
    sm_id ` set (stored b) \<union> relay_msg_id ` set (take (k * nat (relay_batch_size cfg)) (unpublished d)) \<subseteq> sm_id ` set (stored b') \<and>
    (relay_msg_id ` set (unpublished d) \<inter> sm_id ` set (stored b) = {} \<longrightarrow>
      stored b' = stored b @ map row_msg (take (k * nat (relay_batch_size cfg)) (unpublished d)))"
  using assms(4-6)
proof (induction k arbitrary: d b)
  case (Suc k)
  let ?size = "nat (relay_batch_size cfg)" and ?u = "unpublished d"
  let ?d1 = "mark_published (map ob_id (take ?size ?u)) d"
  have ids: "ids_ok ob_id (outbox d) (outbox_seq d)" using Suc.prems(3) by (simp add: db_inv_def)
  then have "distinct (map ob_id ?u)"
    unfolding unpublished_def ids_ok_def by (intro distinct_map_filter) (simp add: strict_sorted_iff)
  then have dist: "distinct (map ob_id (take ?size ?u @ drop ?size ?u))" by simp
  obtain n b1 where acc: "accepting b1" and rows: "relay_rows js tel rt (take ?size ?u) b = (Inr (), b1)" and one: "relay_once js tel rt cfg {} d b = (Inr n, ?d1, b1)"
    using relay_once_total [of accepting js, OF assms(3) Suc.prems(1,2) assms(2) ids] by blast
  have left: "unpublished ?d1 = drop ?size ?u" by (rule unpublished_mark [OF ids])
  obtain new where add: "stored b1 = stored b @ new" "relay_msg_id ` set (take ?size ?u) \<subseteq> sm_id ` set (stored b1)"
    using relay_rows_add [OF assms(1) rows] by metis
  obtain d' b' where rest: "relay_run js tel rt cfg (replicate k (id, {})) ?d1 b1 = (Inr (), d', b')"
      "unpublished d' = drop (k * ?size) (drop ?size ?u)"
      "sm_id ` set (stored b1) \<union> relay_msg_id ` set (take (k * ?size) (drop ?size ?u)) \<subseteq> sm_id ` set (stored b')"
      "relay_msg_id ` set (drop ?size ?u) \<inter> sm_id ` set (stored b1) = {} \<longrightarrow> stored b' = stored b1 @ map row_msg (take (k * ?size) (drop ?size ?u))"
    using Suc.IH [OF acc mark_published_wf mark_published_inv, OF Suc.prems(2,3), of "map ob_id (take ?size ?u)"] unfolding left by blast
  have take: "take (Suc k * ?size) ?u = take ?size ?u @ take (k * ?size) (drop ?size ?u)" by (simp add: take_add)
  have fresh: "stored b' = stored b @ map row_msg (take (Suc k * ?size) ?u)" if new: "relay_msg_id ` set ?u \<inter> sm_id ` set (stored b) = {}"
  proof -
    have "relay_msg_id ` set (take ?size ?u) \<inter> sm_id ` set (stored b) = {}" using new by (auto dest: in_set_takeD)
    moreover have "distinct (map ob_id (take ?size ?u))" using dist unfolding map_append distinct_append by blast
    ultimately have grown: "stored b1 = stored b @ map row_msg (take ?size ?u)" using relay_rows_fresh [OF assms(1) rows] by blast
    have "relay_msg_id ` set (drop ?size ?u) \<inter> sm_id ` set (stored b1) = {}"
    proof -
      have "relay_msg_id ` set (drop ?size ?u) \<inter> relay_msg_id ` set (take ?size ?u) = {}"
        using dist unfolding map_append distinct_append by (intro relay_msg_ids_apart) auto
      moreover have "relay_msg_id ` set (drop ?size ?u) \<inter> sm_id ` set (stored b) = {}" using new set_drop_subset [of ?size ?u] by blast
      moreover have "sm_id ` set (stored b1) = sm_id ` set (stored b) \<union> relay_msg_id ` set (take ?size ?u)"
        by (simp add: grown image_Un image_image)
      ultimately show ?thesis by (simp only: Int_Un_distrib Un_empty_left)
    qed
    then have "stored b' = stored b1 @ map row_msg (take (k * ?size) (drop ?size ?u))" using rest(4) by blast
    then show ?thesis unfolding take map_append grown append_assoc .
  qed
  show ?case
  proof (intro exI conjI impI)
    show "relay_run js tel rt cfg (replicate (Suc k) (id, {})) d b = (Inr (), d', b')" using one rest(1) by simp
    show "unpublished d' = drop (Suc k * ?size) ?u" using rest(2) by (simp add: add.commute)
    show "sm_id ` set (stored b) \<union> relay_msg_id ` set (take (Suc k * ?size) ?u) \<subseteq> sm_id ` set (stored b')"
      using rest(3) add unfolding take by auto
  qed (rule fresh)
qed simp

end

text \<open>C26: The relay drains the outbox into the stream: with a broker that accepts publishes, a batch size of
  at least one and nothing new submitted, every poll publishes the next batch. After \<open>k\<close> polls exactly
  the first \<open>k\<close> batches are marked and each of their rows has its message in the stream; if the stream
  knew none of the rows, it has grown by exactly their messages, in the order of the outbox. As many
  polls as there are rows leave no unpublished row.\<close>

theorem relay_run_drains:
  assumes "carrier_keeps_id tel" and "js_stores js stored" and "1 \<le> relay_batch_size cfg"
    and "\<And>s p h b. accepting b \<Longrightarrow> is_ok (fst (js_publish js s p h b)) \<and> accepting (snd (js_publish js s p h b))"
    and "accepting b" and "outbox_wf d" and "db_inv d"
  shows "\<exists>d' b'. relay_run js tel rt cfg (replicate k (id, {})) d b = (Inr (), d', b') \<and>
    unpublished d' = drop (k * nat (relay_batch_size cfg)) (unpublished d) \<and>
    (length (unpublished d) \<le> k \<longrightarrow> unpublished d' = []) \<and>
    relay_msg_id ` set (take (k * nat (relay_batch_size cfg)) (unpublished d)) \<subseteq> sm_id ` set (stored b') \<and>
    (relay_msg_id ` set (unpublished d) \<inter> sm_id ` set (stored b) = {} \<longrightarrow>
      stored b' = stored b @ map row_msg (take (k * nat (relay_batch_size cfg)) (unpublished d)))"
proof -
  have "length (unpublished d) \<le> k * nat (relay_batch_size cfg)" if "length (unpublished d) \<le> k"
    using that assms(3) mult_le_mono2 [of 1 "nat (relay_batch_size cfg)" k] by linarith
  moreover have "0 \<le> relay_batch_size cfg" using assms(3) by simp
  ultimately show ?thesis using js_stores.relay_run_published [OF assms(2,1) _ assms(4-7), of cfg rt k] by fastforce
qed

theorem relay_run_drains_witness:
  "\<exists>d' b'. relay_run ref_js demo_otel demo_runtime Settings [(id, {})] demo_db (ref_broker0 0) = (Inr (), d', b') \<and>
     unpublished d' = [] \<and> rb_msgs b' = map row_msg (outbox demo_db)"
proof -
  have acc: "is_ok (fst (js_publish ref_js s p h b)) \<and> rb_drop_acks (snd (js_publish ref_js s p h b)) = 0" if "rb_drop_acks b = 0" for s p h b
    using that by (simp add: ref_js_def ref_publish_def Let_def)
  have start: "1 \<le> relay_batch_size Settings" "rb_drop_acks (ref_broker0 0) = 0" "unpublished demo_db = outbox demo_db" "rb_msgs (ref_broker0 0) = []"
      "length (outbox demo_db) = 1" "take (nat (relay_batch_size Settings)) (outbox demo_db) = outbox demo_db"
    by (simp_all add: Settings_def ref_broker0_def unpublished_def demo_db_outbox)
  from relay_run_drains [OF demo_otel_keeps ref_js_stores start(1) acc start(2) demo_db_wf demo_db_inv, of demo_runtime 1]
  obtain d' b' where "relay_run ref_js demo_otel demo_runtime Settings (replicate 1 (id, {})) demo_db (ref_broker0 0) = (Inr (), d', b')"
      "unpublished d' = []" "rb_msgs b' = map row_msg (outbox demo_db)"
    unfolding start(3-6) mult_1 by auto
  then show ?thesis by (intro exI [of _ d'] exI [of _ b']) simp
qed

end
