(* ===== verification/KV_Store.thy ===== *)
theory KV_Store
  imports Py_Values
begin

text \<open>
  The key-value store: \<^verbatim>\<open>src/orbiter/kv/store.py\<close> (the \<open>KeyValueStore\<close> protocol, the test clock and
  \<open>InMemoryKV\<close>) and \<^verbatim>\<open>src/orbiter/kv/valkey.py\<close> (the production store over a Valkey client). The
  protocol is the record \<open>kv_ops\<close>, an argument of the lease manager and of the execution guard; what
  its implementations promise is the locale \<open>key_value_store\<close>. \<open>InMemoryKV\<close> is interpreted in it
  outright; \<open>ValkeyKV\<close> is shown to meet it for every client that behaves as the server's command
  documentation says (locale \<open>redis_server\<close>).
\<close>

section \<open>The protocol\<close>

record 's kv_ops =
  kv_get :: "string \<Rightarrow> 's \<Rightarrow> string option \<times> 's"
  kv_set_if_absent :: "string \<Rightarrow> string \<Rightarrow> real \<Rightarrow> 's \<Rightarrow> bool \<times> 's"
  kv_incr :: "string \<Rightarrow> 's \<Rightarrow> int \<times> 's"
  kv_compare_and_delete :: "string \<Rightarrow> string \<Rightarrow> 's \<Rightarrow> bool \<times> 's"

section \<open>\<^verbatim>\<open>FakeClock\<close> and \<^verbatim>\<open>InMemoryKV\<close>\<close>

record fake_clock =
  clock_now :: real

definition FakeClock :: "real \<Rightarrow> fake_clock" where
  "FakeClock start = \<lparr>clock_now = start\<rparr>"

definition clock_advance :: "real \<Rightarrow> fake_clock \<Rightarrow> fake_clock" where
  "clock_advance seconds c = c\<lparr>clock_now := clock_now c + seconds\<rparr>"

record kv_entry =
  entry_value :: string
  expires_at :: "real option"

record in_memory_kv =
  mem_clock :: fake_clock
  mem_data :: "string \<rightharpoonup> kv_entry"
  mem_counters :: "string \<rightharpoonup> int"

definition InMemoryKV :: "fake_clock \<Rightarrow> in_memory_kv" where
  "InMemoryKV c = \<lparr>mem_clock = c, mem_data = Map.empty, mem_counters = Map.empty\<rparr>"

definition mem_now :: "in_memory_kv \<Rightarrow> real" where
  "mem_now m = clock_now (mem_clock m)"

definition entry_expired :: "real \<Rightarrow> kv_entry \<Rightarrow> bool" where
  "entry_expired t e = (case expires_at e of None \<Rightarrow> False | Some d \<Rightarrow> d \<le> t)"

definition mem_live :: "string \<Rightarrow> in_memory_kv \<Rightarrow> kv_entry option \<times> in_memory_kv" where
  "mem_live key m =
     (case mem_data m key of
        None \<Rightarrow> (None, m)
      | Some entry \<Rightarrow>
          if entry_expired (mem_now m) entry
          then (None, m\<lparr>mem_data := (mem_data m)(key := None)\<rparr>)
          else (Some entry, m))"

definition mem_get :: "string \<Rightarrow> in_memory_kv \<Rightarrow> string option \<times> in_memory_kv" where
  "mem_get key m =
     (let (entry, m1) = mem_live key m
      in (case entry of None \<Rightarrow> None | Some e \<Rightarrow> Some (entry_value e), m1))"

definition mem_set_if_absent :: "string \<Rightarrow> string \<Rightarrow> real \<Rightarrow> in_memory_kv \<Rightarrow> bool \<times> in_memory_kv" where
  "mem_set_if_absent key v ttl_s m =
     (let (entry, m1) = mem_live key m
      in if entry \<noteq> None then (False, m1)
         else (True, m1\<lparr>mem_data := (mem_data m1)(key \<mapsto>
                 \<lparr>entry_value = v, expires_at = Some (mem_now m1 + ttl_s)\<rparr>)\<rparr>))"

definition mem_incr :: "string \<Rightarrow> in_memory_kv \<Rightarrow> int \<times> in_memory_kv" where
  "mem_incr key m =
     (let n = (case mem_counters m key of None \<Rightarrow> 0 | Some c \<Rightarrow> c) + 1
      in (n, m\<lparr>mem_counters := (mem_counters m)(key \<mapsto> n)\<rparr>))"

definition mem_compare_and_delete :: "string \<Rightarrow> string \<Rightarrow> in_memory_kv \<Rightarrow> bool \<times> in_memory_kv" where
  "mem_compare_and_delete key expected m =
     (let (entry, m1) = mem_live key m
      in case entry of
           None \<Rightarrow> (False, m1)
         | Some e \<Rightarrow>
             if entry_value e \<noteq> expected then (False, m1)
             else (True, m1\<lparr>mem_data := (mem_data m1)(key := None)\<rparr>))"

definition mem_kv :: "in_memory_kv kv_ops" where
  "mem_kv = \<lparr>kv_get = mem_get, kv_set_if_absent = mem_set_if_absent, kv_incr = mem_incr,
     kv_compare_and_delete = mem_compare_and_delete\<rparr>"

section \<open>\<^verbatim>\<open>ValkeyKV\<close>\<close>

text \<open>
  The client library is not part of the repository: \<open>redis_client\<close> is the part of it the code
  calls, with \<open>rd_set_nx_px\<close> the command \<^verbatim>\<open>SET key value NX PX ms\<close>. The Lua text of
  \<^verbatim>\<open>_COMPARE_AND_DELETE\<close> is part of the source; the server runs a script without interleaving
  other commands, so it is one step of the state.
\<close>

record 's redis_client =
  rd_get :: "string \<Rightarrow> 's \<Rightarrow> string option \<times> 's"
  rd_set_nx_px :: "string \<Rightarrow> string \<Rightarrow> int \<Rightarrow> 's \<Rightarrow> bool \<times> 's"
  rd_incr :: "string \<Rightarrow> 's \<Rightarrow> int \<times> 's"
  rd_del :: "string \<Rightarrow> 's \<Rightarrow> int \<times> 's"

definition COMPARE_AND_DELETE :: "'s redis_client \<Rightarrow> string \<Rightarrow> string \<Rightarrow> 's \<Rightarrow> int \<times> 's" where
  "COMPARE_AND_DELETE c key arg s =
     (let (v, s1) = rd_get c key s
      in if v = Some arg then rd_del c key s1 else (0, s1))"

definition valkey_get :: "'s redis_client \<Rightarrow> string \<Rightarrow> 's \<Rightarrow> string option \<times> 's" where
  "valkey_get c key s = rd_get c key s"

definition valkey_px :: "real \<Rightarrow> int" where
  "valkey_px ttl_s = max 1 \<lceil>ttl_s * 1000\<rceil>"

definition valkey_set_if_absent :: "'s redis_client \<Rightarrow> string \<Rightarrow> string \<Rightarrow> real \<Rightarrow> 's \<Rightarrow> bool \<times> 's" where
  "valkey_set_if_absent c key v ttl_s s = rd_set_nx_px c key v (valkey_px ttl_s) s"

definition valkey_incr :: "'s redis_client \<Rightarrow> string \<Rightarrow> 's \<Rightarrow> int \<times> 's" where
  "valkey_incr c key s = rd_incr c key s"

definition valkey_compare_and_delete :: "'s redis_client \<Rightarrow> string \<Rightarrow> string \<Rightarrow> 's \<Rightarrow> bool \<times> 's" where
  "valkey_compare_and_delete c key expected s =
     (let (deleted, s1) = COMPARE_AND_DELETE c key expected s in (deleted \<noteq> 0, s1))"

definition valkey_kv :: "'s redis_client \<Rightarrow> 's kv_ops" where
  "valkey_kv c = \<lparr>kv_get = valkey_get c, kv_set_if_absent = valkey_set_if_absent c,
     kv_incr = valkey_incr c, kv_compare_and_delete = valkey_compare_and_delete c\<rparr>"

lemmas mem_ops_defs = mem_live_def mem_get_def mem_set_if_absent_def mem_incr_def
  mem_compare_and_delete_def

section \<open>What a store promises\<close>

text \<open>
  A store is observed through \<open>now\<close> (its clock), \<open>held s k\<close> (the value a reader would see under
  \<open>k\<close>, with the instant it expires, if any) and \<open>ctr s k\<close> (the value of the counter \<open>k\<close>, \<open>None\<close> when
  an increment would fail). \<open>advance\<close> is the passing of time, \<open>deadline s ttl\<close> the expiry that a key
  set now receives: no sooner than asked for and at most a millisecond later. Strings and counters
  may share one key space, so a write promises nothing about the other view of its own key.
\<close>

definition alive :: "real \<Rightarrow> real option \<Rightarrow> bool" where
  "alive t d = (case d of None \<Rightarrow> True | Some e \<Rightarrow> t < e)"

locale key_value_store =
  fixes ops :: "'s kv_ops"
    and inv :: "'s \<Rightarrow> bool"
    and now :: "'s \<Rightarrow> real"
    and held :: "'s \<Rightarrow> string \<Rightarrow> (string \<times> real option) option"
    and ctr :: "'s \<Rightarrow> string \<Rightarrow> int option"
    and deadline :: "'s \<Rightarrow> real \<Rightarrow> real"
    and advance :: "real \<Rightarrow> 's \<Rightarrow> 's"
  assumes inv_get [simp]: "inv s \<Longrightarrow> inv (snd (kv_get ops k s))"
    and inv_set [simp]: "inv s \<Longrightarrow> inv (snd (kv_set_if_absent ops k v ttl s))"
    and inv_incr [simp]: "inv s \<Longrightarrow> inv (snd (kv_incr ops k s))"
    and inv_cad [simp]: "inv s \<Longrightarrow> inv (snd (kv_compare_and_delete ops k v s))"
    and inv_advance [simp]: "inv s \<Longrightarrow> 0 \<le> t \<Longrightarrow> inv (advance t s)"
    and now_get [simp]: "inv s \<Longrightarrow> now (snd (kv_get ops k s)) = now s"
    and now_set [simp]: "inv s \<Longrightarrow> now (snd (kv_set_if_absent ops k v ttl s)) = now s"
    and now_incr [simp]: "inv s \<Longrightarrow> now (snd (kv_incr ops k s)) = now s"
    and now_cad [simp]: "inv s \<Longrightarrow> now (snd (kv_compare_and_delete ops k v s)) = now s"
    and now_advance [simp]: "inv s \<Longrightarrow> 0 \<le> t \<Longrightarrow> now (advance t s) = now s + t"
    and get_result [simp]: "inv s \<Longrightarrow> fst (kv_get ops k s) = map_option fst (held s k)"
    and held_get [simp]: "inv s \<Longrightarrow> held (snd (kv_get ops k s)) = held s"
    and ctr_get [simp]: "inv s \<Longrightarrow> ctr (snd (kv_get ops k s)) = ctr s"
    and set_result [simp]: "inv s \<Longrightarrow> fst (kv_set_if_absent ops k v ttl s) \<longleftrightarrow> held s k = None"
    and held_set: "inv s \<Longrightarrow> 0 < ttl \<Longrightarrow> held (snd (kv_set_if_absent ops k v ttl s)) =
      (if held s k = None then (held s)(k \<mapsto> (v, Some (deadline s ttl))) else held s)"
    and ctr_set: "inv s \<Longrightarrow> k' \<noteq> k \<Longrightarrow> ctr (snd (kv_set_if_absent ops k v ttl s)) k' = ctr s k'"
    and deadline_lower: "inv s \<Longrightarrow> 0 < ttl \<Longrightarrow> now s + ttl \<le> deadline s ttl"
    and deadline_upper: "inv s \<Longrightarrow> 0 < ttl \<Longrightarrow> deadline s ttl \<le> now s + ttl + 1 / 1000"
    and incr_result: "inv s \<Longrightarrow> ctr s k = Some n \<Longrightarrow> n < 2 ^ 63 - 1 \<Longrightarrow> fst (kv_incr ops k s) = n + 1"
    and ctr_incr: "inv s \<Longrightarrow> ctr s k = Some n \<Longrightarrow> n < 2 ^ 63 - 1 \<Longrightarrow>
      ctr (snd (kv_incr ops k s)) k = Some (n + 1)"
    and ctr_incr_other: "inv s \<Longrightarrow> k' \<noteq> k \<Longrightarrow> ctr (snd (kv_incr ops k s)) k' = ctr s k'"
    and held_incr: "inv s \<Longrightarrow> k' \<noteq> k \<Longrightarrow> held (snd (kv_incr ops k s)) k' = held s k'"
    and cad_result [simp]: "inv s \<Longrightarrow>
      fst (kv_compare_and_delete ops k v s) \<longleftrightarrow> map_option fst (held s k) = Some v"
    and held_cad: "inv s \<Longrightarrow> held (snd (kv_compare_and_delete ops k v s)) =
      (if map_option fst (held s k) = Some v then (held s)(k := None) else held s)"
    and ctr_cad: "inv s \<Longrightarrow> k' \<noteq> k \<Longrightarrow> ctr (snd (kv_compare_and_delete ops k v s)) k' = ctr s k'"
    and held_advance: "inv s \<Longrightarrow> 0 \<le> t \<Longrightarrow> held (advance t s) k =
      (case held s k of None \<Rightarrow> None | Some (v, d) \<Rightarrow> if alive (now s + t) d then Some (v, d) else None)"
    and ctr_advance: "inv s \<Longrightarrow> 0 \<le> t \<Longrightarrow> ctr s k = Some n \<Longrightarrow> ctr (advance t s) k = Some n"
begin

text \<open>A key that nobody sets again is seen until its deadline and never after it.\<close>

lemma set_then_advance:
  assumes "inv s" "held s k = None" "0 < ttl" "0 \<le> t"
  shows "held (advance t (snd (kv_set_if_absent ops k v ttl s))) k =
    (if now s + t < deadline s ttl then Some (v, Some (deadline s ttl)) else None)"
  using assms by (simp add: held_advance held_set alive_def)

lemma set_then_set:
  assumes "inv s" "held s k = None" "0 < ttl"
  shows "\<not> fst (kv_set_if_absent ops k v' ttl' (snd (kv_set_if_absent ops k v ttl s)))"
  using assms by (simp add: held_set)

end

section \<open>\<^verbatim>\<open>InMemoryKV\<close> keeps the promise\<close>

definition mem_held :: "in_memory_kv \<Rightarrow> string \<Rightarrow> (string \<times> real option) option" where
  "mem_held m k =
     (case mem_data m k of
        None \<Rightarrow> None
      | Some e \<Rightarrow> if entry_expired (mem_now m) e then None else Some (entry_value e, expires_at e))"

definition mem_ctr :: "in_memory_kv \<Rightarrow> string \<Rightarrow> int option" where
  "mem_ctr m k = Some (case mem_counters m k of None \<Rightarrow> 0 | Some c \<Rightarrow> c)"

definition mem_advance :: "real \<Rightarrow> in_memory_kv \<Rightarrow> in_memory_kv" where
  "mem_advance t m = m\<lparr>mem_clock := clock_advance t (mem_clock m)\<rparr>"

text \<open>Every entry the operations write carries an expiry, and every stored counter has counted.\<close>

definition mem_inv :: "in_memory_kv \<Rightarrow> bool" where
  "mem_inv m \<longleftrightarrow> (\<forall>e \<in> ran (mem_data m). expires_at e \<noteq> None) \<and> (\<forall>n \<in> ran (mem_counters m). 1 \<le> n)"

lemma mem_inv_InMemoryKV [simp]: "mem_inv (InMemoryKV c)"
  by (simp add: mem_inv_def InMemoryKV_def)

lemma mem_held_InMemoryKV [simp]: "mem_held (InMemoryKV c) k = None"
  by (simp add: mem_held_def InMemoryKV_def)

lemma mem_live_result: "map_option (\<lambda>e. (entry_value e, expires_at e)) (fst (mem_live k m)) = mem_held m k"
  by (simp add: mem_live_def mem_held_def split: option.splits)

lemma mem_live_None: "fst (mem_live k m) = None \<longleftrightarrow> mem_held m k = None"
  by (simp flip: mem_live_result)

lemma mem_live_state:
  "mem_held (snd (mem_live k m)) = mem_held m" "mem_counters (snd (mem_live k m)) = mem_counters m"
  "mem_clock (snd (mem_live k m)) = mem_clock m"
  by (auto simp: mem_live_def mem_held_def mem_now_def fun_eq_iff split: option.splits)

lemma mem_live_inv: "mem_inv m \<Longrightarrow> mem_inv (snd (mem_live k m))"
  by (auto simp: mem_live_def mem_inv_def ran_def split: option.splits)

lemma mem_held_cong:
  "mem_data m = mem_data m' \<Longrightarrow> mem_clock m = mem_clock m' \<Longrightarrow> mem_held m = mem_held m'"
  by (auto simp: mem_held_def mem_now_def fun_eq_iff split: option.splits)

lemma mem_ctr_cong: "mem_counters m = mem_counters m' \<Longrightarrow> mem_ctr m = mem_ctr m'"
  by (simp add: mem_ctr_def fun_eq_iff)

lemma mem_get_eq: "mem_get k m = (map_option fst (mem_held m k), snd (mem_live k m))"
  using mem_live_result [of k m, symmetric]
  by (auto simp: mem_get_def split_beta Let_def split: option.splits)

lemma mem_set_eq:
  "mem_set_if_absent k v ttl m =
     (if mem_held m k \<noteq> None then (False, snd (mem_live k m))
      else (True, (snd (mem_live k m))\<lparr>mem_data := (mem_data (snd (mem_live k m)))(k \<mapsto>
             \<lparr>entry_value = v, expires_at = Some (mem_now m + ttl)\<rparr>)\<rparr>))"
  unfolding mem_set_if_absent_def Let_def split_beta mem_live_None
  by (simp add: mem_now_def mem_live_state)

lemma mem_cad_eq:
  "mem_compare_and_delete k v m =
     (if map_option fst (mem_held m k) = Some v
      then (True, (snd (mem_live k m))\<lparr>mem_data := (mem_data (snd (mem_live k m)))(k := None)\<rparr>)
      else (False, snd (mem_live k m)))"
  using mem_live_result [of k m, symmetric]
  by (auto simp: mem_compare_and_delete_def split_beta Let_def split: option.splits)

lemma mem_held_upd:
  "mem_held (m\<lparr>mem_data := (mem_data m)(k \<mapsto> e)\<rparr>) =
     (mem_held m)(k := if entry_expired (mem_now m) e then None else Some (entry_value e, expires_at e))"
  by (auto simp: mem_held_def mem_now_def fun_eq_iff split: option.splits)

lemma mem_held_del: "mem_held (m\<lparr>mem_data := (mem_data m)(k := None)\<rparr>) = (mem_held m)(k := None)"
  by (auto simp: mem_held_def mem_now_def fun_eq_iff split: option.splits)

lemma mem_advance_expired:
  "0 \<le> t \<Longrightarrow> entry_expired (mem_now m) e \<Longrightarrow> entry_expired (mem_now m + t) e"
  by (auto simp: entry_expired_def split: option.splits)

interpretation mem: key_value_store mem_kv mem_inv mem_now mem_held mem_ctr
  "\<lambda>m ttl. mem_now m + ttl" mem_advance
proof (unfold_locales, goal_cases)
  case (2 s k v ttl)
  then show ?case
    using mem_live_inv [OF 2, of k] by (auto simp: mem_kv_def mem_set_eq mem_inv_def ran_def)
next
  case (3 s k)
  then show ?case
    by (auto simp: mem_kv_def mem_incr_def mem_inv_def ran_def Let_def split: option.splits if_splits)
next
  case (4 s k v)
  then show ?case
    using mem_live_inv [OF 4, of k] by (auto simp: mem_kv_def mem_cad_eq mem_inv_def ran_def)
next
  case (15 s ttl k v)
  then show ?case
    by (auto simp: mem_kv_def mem_set_eq mem_held_upd mem_live_state entry_expired_def mem_now_def)
next
  case (26 s t k)
  then show ?case
    using mem_advance_expired [of t s]
    by (auto simp: mem_held_def mem_advance_def mem_now_def clock_advance_def alive_def
        entry_expired_def split: option.splits)
next
  case (14 s k v ttl)
  then show ?case by (cases "mem_held s k") (simp_all add: mem_kv_def mem_set_eq)
next
  case (5 s t)
  then show ?case by (simp add: mem_inv_def mem_advance_def)
next
  case (22 s k' k)
  then show ?case
    by (intro mem_held_cong [THEN fun_cong]) (simp_all add: mem_kv_def mem_incr_def Let_def)
qed (auto simp: mem_kv_def mem_get_eq mem_set_eq mem_cad_eq mem_incr_def mem_held_del mem_live_state
    mem_live_inv mem_now_def mem_advance_def clock_advance_def mem_ctr_def Let_def)

section \<open>\<^verbatim>\<open>ValkeyKV\<close> keeps the promise\<close>

text \<open>
  What the server documents of the commands used: \<^verbatim>\<open>GET\<close> reads, \<^verbatim>\<open>SET NX PX\<close> sets an absent key
  with an expiry in milliseconds and otherwise does nothing, \<^verbatim>\<open>INCR\<close> adds one to a decimal counter
  below the 64-bit limit, \<^verbatim>\<open>DEL\<close> removes a key and counts the keys it removed.
\<close>

locale redis_server =
  fixes client :: "'s redis_client"
    and inv :: "'s \<Rightarrow> bool"
    and now :: "'s \<Rightarrow> real"
    and held :: "'s \<Rightarrow> string \<Rightarrow> (string \<times> real option) option"
    and ctr :: "'s \<Rightarrow> string \<Rightarrow> int option"
    and advance :: "real \<Rightarrow> 's \<Rightarrow> 's"
  assumes inv_rd_get: "inv s \<Longrightarrow> inv (snd (rd_get client k s))"
    and inv_rd_set: "inv s \<Longrightarrow> inv (snd (rd_set_nx_px client k v ms s))"
    and inv_rd_incr: "inv s \<Longrightarrow> inv (snd (rd_incr client k s))"
    and inv_rd_del: "inv s \<Longrightarrow> inv (snd (rd_del client k s))"
    and inv_tick: "inv s \<Longrightarrow> 0 \<le> t \<Longrightarrow> inv (advance t s)"
    and now_rd_get: "inv s \<Longrightarrow> now (snd (rd_get client k s)) = now s"
    and now_rd_set: "inv s \<Longrightarrow> now (snd (rd_set_nx_px client k v ms s)) = now s"
    and now_rd_incr: "inv s \<Longrightarrow> now (snd (rd_incr client k s)) = now s"
    and now_rd_del: "inv s \<Longrightarrow> now (snd (rd_del client k s)) = now s"
    and now_tick: "inv s \<Longrightarrow> 0 \<le> t \<Longrightarrow> now (advance t s) = now s + t"
    and get_reads: "inv s \<Longrightarrow> fst (rd_get client k s) = map_option fst (held s k)"
    and get_keeps: "inv s \<Longrightarrow> held (snd (rd_get client k s)) = held s"
      "inv s \<Longrightarrow> ctr (snd (rd_get client k s)) = ctr s"
    and set_nx: "inv s \<Longrightarrow> fst (rd_set_nx_px client k v ms s) \<longleftrightarrow> held s k = None"
    and set_px: "inv s \<Longrightarrow> 1 \<le> ms \<Longrightarrow> held (snd (rd_set_nx_px client k v ms s)) =
      (if held s k = None then (held s)(k \<mapsto> (v, Some (now s + of_int ms / 1000))) else held s)"
    and set_other: "inv s \<Longrightarrow> k' \<noteq> k \<Longrightarrow> ctr (snd (rd_set_nx_px client k v ms s)) k' = ctr s k'"
    and incr_adds: "inv s \<Longrightarrow> ctr s k = Some n \<Longrightarrow> n < 2 ^ 63 - 1 \<Longrightarrow>
      fst (rd_incr client k s) = n + 1 \<and> ctr (snd (rd_incr client k s)) k = Some (n + 1)"
    and incr_other: "inv s \<Longrightarrow> k' \<noteq> k \<Longrightarrow>
      ctr (snd (rd_incr client k s)) k' = ctr s k' \<and> held (snd (rd_incr client k s)) k' = held s k'"
    and del_counts: "inv s \<Longrightarrow> fst (rd_del client k s) = (if held s k = None then 0 else 1)"
    and del_removes: "inv s \<Longrightarrow> held (snd (rd_del client k s)) = (held s)(k := None)"
    and del_other: "inv s \<Longrightarrow> k' \<noteq> k \<Longrightarrow> ctr (snd (rd_del client k s)) k' = ctr s k'"
    and tick_expires: "inv s \<Longrightarrow> 0 \<le> t \<Longrightarrow> held (advance t s) k =
      (case held s k of None \<Rightarrow> None | Some (v, d) \<Rightarrow> if alive (now s + t) d then Some (v, d) else None)"
    and tick_ctr: "inv s \<Longrightarrow> 0 \<le> t \<Longrightarrow> ctr s k = Some n \<Longrightarrow> ctr (advance t s) k = Some n"
begin

lemma script_result: "inv s \<Longrightarrow>
  fst (valkey_compare_and_delete client k v s) \<longleftrightarrow> map_option fst (held s k) = Some v"
  by (auto simp: valkey_compare_and_delete_def COMPARE_AND_DELETE_def Let_def split_beta get_reads
      del_counts inv_rd_get get_keeps)

lemma script_held: "inv s \<Longrightarrow> held (snd (valkey_compare_and_delete client k v s)) =
  (if map_option fst (held s k) = Some v then (held s)(k := None) else held s)"
  by (auto simp: valkey_compare_and_delete_def COMPARE_AND_DELETE_def Let_def split_beta get_reads
      del_removes inv_rd_get get_keeps)

lemma script_frame: "inv s \<Longrightarrow>
  inv (snd (valkey_compare_and_delete client k v s)) \<and>
  now (snd (valkey_compare_and_delete client k v s)) = now s \<and>
  (k' \<noteq> k \<longrightarrow> ctr (snd (valkey_compare_and_delete client k v s)) k' = ctr s k')"
  by (auto simp: valkey_compare_and_delete_def COMPARE_AND_DELETE_def Let_def split_beta
      inv_rd_get inv_rd_del now_rd_get now_rd_del get_keeps del_other)

end

lemma valkey_px_bounds:
  "1 \<le> valkey_px ttl" "ttl * 1000 \<le> of_int (valkey_px ttl)"
  "0 < ttl \<Longrightarrow> of_int (valkey_px ttl) < ttl * 1000 + 1"
  unfolding valkey_px_def by (auto simp: max_def, linarith+)

lemmas valkey_defs = valkey_kv_def valkey_get_def valkey_set_if_absent_def valkey_incr_def

sublocale redis_server \<subseteq> valkey: key_value_store "valkey_kv client" inv now held ctr
  "\<lambda>s ttl. now s + of_int (valkey_px ttl) / 1000" advance
proof (unfold_locales, goal_cases)
  case (18 s ttl)
  then show ?case using valkey_px_bounds(3) [of ttl] by simp
qed (use valkey_px_bounds script_frame in \<open>auto simp: valkey_defs inv_rd_get inv_rd_set inv_rd_incr
    inv_tick now_rd_get now_rd_set now_rd_incr now_tick get_reads get_keeps set_nx set_px
    set_other incr_adds incr_other tick_expires tick_ctr script_result script_held field_simps\<close>)

context redis_server
begin

lemma valkey_is_store: "key_value_store (valkey_kv client) inv now held ctr
  (\<lambda>s ttl. now s + of_int (valkey_px ttl) / 1000) advance"
  by unfold_locales

end

text \<open>
  The documented behaviour is consistent: a server that keeps texts and counters in one table with
  optional expiries has it. This instance serves the witnesses of properties over a Valkey client.
\<close>

datatype srv_value = SText string | SNum int

fun srv_text :: "srv_value \<Rightarrow> string" where
  "srv_text (SText t) = t"
| "srv_text (SNum n) = int_str n"

record ref_server =
  srv_now :: real
  srv_keys :: "string \<rightharpoonup> (srv_value \<times> real option)"

definition srv_seen :: "ref_server \<Rightarrow> string \<Rightarrow> (srv_value \<times> real option) option" where
  "srv_seen s k =
     (case srv_keys s k of None \<Rightarrow> None | Some (v, d) \<Rightarrow> if alive (srv_now s) d then Some (v, d) else None)"

definition srv_held :: "ref_server \<Rightarrow> string \<Rightarrow> (string \<times> real option) option" where
  "srv_held s k = map_option (\<lambda>(v, d). (srv_text v, d)) (srv_seen s k)"

definition srv_ctr :: "ref_server \<Rightarrow> string \<Rightarrow> int option" where
  "srv_ctr s k = (case srv_seen s k of None \<Rightarrow> Some 0 | Some (SNum n, d) \<Rightarrow> Some n | Some (SText t, d) \<Rightarrow> None)"

definition srv_client :: "ref_server redis_client" where
  "srv_client = \<lparr>
     rd_get = (\<lambda>k s. (map_option fst (srv_held s k), s)),
     rd_set_nx_px = (\<lambda>k v ms s. if srv_held s k = None
        then (True, s\<lparr>srv_keys := (srv_keys s)(k \<mapsto> (SText v, Some (srv_now s + of_int ms / 1000)))\<rparr>)
        else (False, s)),
     rd_incr = (\<lambda>k s. case srv_ctr s k of
          Some n \<Rightarrow> (n + 1, s\<lparr>srv_keys := (srv_keys s)(k \<mapsto> (SNum (n + 1), None))\<rparr>)
        | None \<Rightarrow> (0, s)),
     rd_del = (\<lambda>k s. (if srv_held s k = None then 0 else 1, s\<lparr>srv_keys := (srv_keys s)(k := None)\<rparr>))\<rparr>"

definition srv_inv :: "ref_server \<Rightarrow> bool" where
  "srv_inv s \<longleftrightarrow> (\<forall>k n d. srv_keys s k = Some (SNum n, d) \<longrightarrow> d = None)"

definition srv_advance :: "real \<Rightarrow> ref_server \<Rightarrow> ref_server" where
  "srv_advance t s = s\<lparr>srv_now := srv_now s + t\<rparr>"

lemma srv_seen_upd:
  "srv_seen (s\<lparr>srv_keys := (srv_keys s)(k \<mapsto> (v, d))\<rparr>) =
     (srv_seen s)(k := if alive (srv_now s) d then Some (v, d) else None)"
  "srv_seen (s\<lparr>srv_keys := (srv_keys s)(k := None)\<rparr>) = (srv_seen s)(k := None)"
  by (auto simp: srv_seen_def fun_eq_iff split: option.splits)

lemma srv_held_upd:
  "srv_held (s\<lparr>srv_keys := (srv_keys s)(k \<mapsto> (v, d))\<rparr>) =
     (srv_held s)(k := if alive (srv_now s) d then Some (srv_text v, d) else None)"
  "srv_held (s\<lparr>srv_keys := (srv_keys s)(k := None)\<rparr>) = (srv_held s)(k := None)"
  by (auto simp: srv_held_def srv_seen_upd fun_eq_iff)

lemma srv_ctr_upd:
  "k' \<noteq> k \<Longrightarrow> srv_ctr (s\<lparr>srv_keys := (srv_keys s)(k := e)\<rparr>) k' = srv_ctr s k'"
  by (cases e) (auto simp: srv_ctr_def srv_seen_upd)

lemma srv_ctr_num: "srv_ctr (s\<lparr>srv_keys := (srv_keys s)(k \<mapsto> (SNum n, None))\<rparr>) k = Some n"
  by (simp add: srv_ctr_def srv_seen_def alive_def)

lemma srv_seen_advance:
  "0 \<le> t \<Longrightarrow> srv_seen (srv_advance t s) k =
     (case srv_seen s k of None \<Rightarrow> None | Some (v, d) \<Rightarrow> if alive (srv_now s + t) d then Some (v, d) else None)"
  by (auto simp: srv_seen_def srv_advance_def alive_def split: option.splits)

lemma srv_ctr_advance:
  assumes "srv_inv s" "0 \<le> t" "srv_ctr s k = Some n"
  shows "srv_ctr (srv_advance t s) k = Some n"
  using assms srv_seen_advance [OF assms(2), of s k]
  by (auto simp: srv_ctr_def srv_inv_def srv_seen_def alive_def
      split: option.splits srv_value.splits if_splits)

interpretation ref: redis_server srv_client srv_inv srv_now srv_held srv_ctr srv_advance
proof (unfold_locales, goal_cases)
  case (15 s ms k v)
  then show ?case by (auto simp: srv_client_def srv_held_upd alive_def)
next
  case (22 s t k)
  then show ?case
    by (auto simp: srv_held_def srv_seen_advance split: option.splits)
next
  case (23 s t k n)
  then show ?case by (rule srv_ctr_advance)
qed (auto simp: srv_client_def srv_inv_def srv_held_upd srv_ctr_upd srv_ctr_num srv_advance_def
    split: option.splits)

section \<open>Properties\<close>

text \<open>A value stored in the in-memory store under a free key is returned by every \<^verbatim>\<open>get\<close> strictly
  before its time to live has passed, and by none from that instant on.\<close>

theorem mem_value_lifetime:
  assumes "mem_held m k = None" and "0 < ttl" and "0 \<le> t" and "mem_inv m"
  shows "fst (mem_set_if_absent k v ttl m) \<and>
    fst (mem_get k (mem_advance t (snd (mem_set_if_absent k v ttl m)))) = (if t < ttl then Some v else None)"
proof -
  have ops: "mem_set_if_absent = kv_set_if_absent mem_kv" "mem_get = kv_get mem_kv"
    by (simp_all add: mem_kv_def)
  show ?thesis
    using assms mem.set_then_advance [OF assms(4,1,2,3)] by (simp add: ops)
qed

theorem mem_value_lifetime_witness:
  "fst (mem_get ''k'' (mem_advance 5 (snd (mem_set_if_absent ''k'' ''v'' 10 (InMemoryKV (FakeClock 0)))))) = Some ''v'' \<and>
   fst (mem_get ''k'' (mem_advance 10 (snd (mem_set_if_absent ''k'' ''v'' 10 (InMemoryKV (FakeClock 0)))))) = None"
  using mem_value_lifetime [of "InMemoryKV (FakeClock 0)" "''k''" 10 5 "''v''"]
    mem_value_lifetime [of "InMemoryKV (FakeClock 0)" "''k''" 10 10 "''v''"] by simp

text \<open>Over any client that behaves as the server documents, a value stored through \<open>ValkeyKV\<close> under
  a free key is readable for at least its time to live and for less than a millisecond more: the
  rounding of the expiry to whole milliseconds never shortens a lease.\<close>

theorem valkey_value_lifetime:
  assumes "redis_server c ok now held ctr advance"
    and "ok s" and "held s k = None" and "0 < ttl" and "0 \<le> t"
  shows "fst (valkey_set_if_absent c k v ttl s) \<and>
    (t < ttl \<longrightarrow> fst (valkey_get c k (advance t (snd (valkey_set_if_absent c k v ttl s)))) = Some v) \<and>
    (ttl + 1 / 1000 \<le> t \<longrightarrow> fst (valkey_get c k (advance t (snd (valkey_set_if_absent c k v ttl s)))) = None)"
proof -
  have K: "key_value_store (valkey_kv c) ok now held ctr
      (\<lambda>s ttl. now s + of_int (valkey_px ttl) / 1000) advance"
    using redis_server.valkey_is_store [OF assms(1)] .
  have ops: "valkey_set_if_absent c = kv_set_if_absent (valkey_kv c)" "valkey_get c = kv_get (valkey_kv c)"
    by (simp_all add: valkey_kv_def)
  show ?thesis
    using assms(2-5) valkey_px_bounds(2,3) [of ttl]
      key_value_store.set_then_advance [OF K assms(2-5), of v]
    by (auto simp: ops key_value_store.get_result [OF K] key_value_store.set_result [OF K]
        key_value_store.inv_advance [OF K] key_value_store.inv_set [OF K])
qed

theorem valkey_value_lifetime_witness:
  "fst (valkey_get srv_client ''k''
     (srv_advance 19 (snd (valkey_set_if_absent srv_client ''k'' ''v'' 20 \<lparr>srv_now = 0, srv_keys = Map.empty\<rparr>)))) = Some ''v''"
  using valkey_value_lifetime [OF ref.redis_server_axioms, of "\<lparr>srv_now = 0, srv_keys = Map.empty\<rparr>" "''k''" 20 19 "''v''"]
  by (simp add: srv_inv_def srv_held_def srv_seen_def)

end
