(* ===== verification/Leases.thy ===== *)
theory Leases
  imports KV_Store Domain
begin

text \<open>
  Fenced leases: \<^verbatim>\<open>src/orbiter/leases/fencing.py\<close>. The lease manager is parametric in the store's
  operations; its lemmas are proved once in the locale \<open>key_value_store\<close> and hold for both stores.
  The laws shown: a live lease excludes every other acquisition, a release by a stale holder leaves
  its successor's lease alone, tokens of granted leases strictly increase, and a write guarded by
  \<open>FencedWriter\<close> refuses a holder that has been overtaken.
\<close>

section \<open>\<^verbatim>\<open>LeaseManager\<close> and \<^verbatim>\<open>FencedWriter\<close>\<close>

record lease =
  lease_resource :: string
  lease_holder :: string
  lease_token :: int

definition lease_key :: "string \<Rightarrow> string" where
  "lease_key resource = ''orbiter:lease:'' @ resource"

definition token_key :: "string \<Rightarrow> string" where
  "token_key resource = ''orbiter:lease:'' @ resource @ '':token''"

definition lease_text :: "string \<Rightarrow> int \<Rightarrow> string" where
  "lease_text holder token = holder @ '':'' @ int_str token"

definition acquire :: "'s kv_ops \<Rightarrow> real \<Rightarrow> string \<Rightarrow> string \<Rightarrow> 's \<Rightarrow> lease option \<times> 's" where
  "acquire kv ttl_s resource holder s =
     (let (token, s1) = kv_incr kv (token_key resource) s;
          (acquired, s2) = kv_set_if_absent kv (lease_key resource) (lease_text holder token) ttl_s s1
      in if \<not> acquired then (None, s2)
         else (Some \<lparr>lease_resource = resource, lease_holder = holder, lease_token = token\<rparr>, s2))"

definition release :: "'s kv_ops \<Rightarrow> lease \<Rightarrow> 's \<Rightarrow> bool \<times> 's" where
  "release kv l s =
     kv_compare_and_delete kv (lease_key (lease_resource l))
       (lease_text (lease_holder l) (lease_token l)) s"

type_synonym fenced_writer = "string \<rightharpoonup> int"

definition newest_accepted :: "string \<Rightarrow> fenced_writer \<Rightarrow> int" where
  "newest_accepted resource w = (case w resource of None \<Rightarrow> 0 | Some t \<Rightarrow> t)"

definition fence_check :: "string \<Rightarrow> int \<Rightarrow> fenced_writer \<Rightarrow> (exn + unit) \<times> fenced_writer" where
  "fence_check resource token w =
     (let newest = newest_accepted resource w
      in if token < newest then (Inl (StaleLeaseError resource token newest), w)
         else (Inr (), w(resource \<mapsto> token)))"

section \<open>Interleavings of lease operations\<close>

text \<open>
  A trace of lease operations by any number of clients, with the passing of time between them:
  \<open>lease_run\<close> performs it and collects the leases that were granted, in order.
\<close>

datatype lease_op = Acquire string string | Release lease | Wait real

fun lease_run :: "'s kv_ops \<Rightarrow> (real \<Rightarrow> 's \<Rightarrow> 's) \<Rightarrow> real \<Rightarrow> lease_op list \<Rightarrow> 's \<Rightarrow> lease list \<times> 's" where
  "lease_run kv adv ttl [] s = ([], s)"
| "lease_run kv adv ttl (Acquire r h # xs) s =
     (let (got, s1) = acquire kv ttl r h s; (ls, s2) = lease_run kv adv ttl xs s1
      in ((case got of None \<Rightarrow> ls | Some l \<Rightarrow> l # ls), s2))"
| "lease_run kv adv ttl (Release l # xs) s = lease_run kv adv ttl xs (snd (release kv l s))"
| "lease_run kv adv ttl (Wait t # xs) s = lease_run kv adv ttl xs (adv t s)"

fun op_ok :: "lease_op \<Rightarrow> bool" where
  "op_ok (Acquire r h) \<longleftrightarrow> CHR '':'' \<notin> set r"
| "op_ok (Release l) \<longleftrightarrow> CHR '':'' \<notin> set (lease_resource l)"
| "op_ok (Wait t) \<longleftrightarrow> 0 \<le> t"

fun op_wait :: "lease_op \<Rightarrow> real" where
  "op_wait (Wait t) = t"
| "op_wait _ = 0"

lemma op_wait_nonneg: "op_ok x \<Longrightarrow> 0 \<le> op_wait x"
  by (cases x) auto

definition granted :: "string \<Rightarrow> lease list \<Rightarrow> lease list" where
  "granted r ls = filter (\<lambda>l. lease_resource l = r) ls"

lemma granted_simps [simp]:
  "granted r [] = []"
  "granted r (l # ls) = (if lease_resource l = r then l # granted r ls else granted r ls)"
  by (simp_all add: granted_def)

section \<open>Keys and texts\<close>

lemma lease_key_inj [simp]: "lease_key r = lease_key r' \<longleftrightarrow> r = r'"
  by (simp add: lease_key_def)

lemma token_key_inj [simp]: "token_key r = token_key r' \<longleftrightarrow> r = r'"
  by (simp add: token_key_def)

lemma lease_text_inj [simp]: "lease_text h t = lease_text h' t' \<longleftrightarrow> h = h' \<and> t = t'"
  using colon_int_inj [of h t h' t'] by (simp add: lease_text_def)

text \<open>
  The token key of a resource is the lease key of another resource exactly when that resource's
  name ends in \<^verbatim>\<open>:token\<close>; job ids never contain a colon.
\<close>

lemma lease_key_eq_token_key: "lease_key r = token_key r' \<longleftrightarrow> r = r' @ '':token''"
  by (simp add: lease_key_def token_key_def)

lemma keys_apart [simp]:
  assumes "CHR '':'' \<notin> set r"
  shows "lease_key r \<noteq> token_key r'" "token_key r' \<noteq> lease_key r"
  using assms by (auto simp: lease_key_eq_token_key dest: sym)

lemma own_keys_apart [simp]: "lease_key r \<noteq> token_key r" "token_key r \<noteq> lease_key r"
  by (auto simp: lease_key_def token_key_def)

section \<open>Lease laws, for every store\<close>

context key_value_store
begin

lemma acquire_counts:
  assumes "inv s" "ctr s (token_key r) = Some n" "n < 2 ^ 63 - 1"
  shows "inv (snd (acquire ops ttl r h s)) \<and> now (snd (acquire ops ttl r h s)) = now s \<and>
    ctr (snd (acquire ops ttl r h s)) (token_key r) = Some (n + 1)"
  using assms by (simp add: acquire_def Let_def split_beta ctr_set ctr_incr)

lemma acquire_result:
  assumes "inv s" "ctr s (token_key r) = Some n" "n < 2 ^ 63 - 1"
  shows "fst (acquire ops ttl r h s) =
    (if held s (lease_key r) = None
     then Some \<lparr>lease_resource = r, lease_holder = h, lease_token = n + 1\<rparr> else None)"
  using assms by (simp add: acquire_def Let_def split_beta held_incr incr_result)

lemma acquire_held:
  assumes "inv s" "ctr s (token_key r) = Some n" "n < 2 ^ 63 - 1" "0 < ttl"
  shows "held (snd (acquire ops ttl r h s)) (lease_key r) =
    (if held s (lease_key r) = None
     then Some (lease_text h (n + 1), Some (deadline (snd (kv_incr ops (token_key r) s)) ttl))
     else held s (lease_key r))"
  using assms by (simp add: acquire_def Let_def split_beta held_incr held_set incr_result)

lemma acquire_deadline:
  assumes "inv s" "0 < ttl"
  shows "now s + ttl \<le> deadline (snd (kv_incr ops (token_key r) s)) ttl"
  using assms deadline_lower [of "snd (kv_incr ops (token_key r) s)" ttl] by simp

lemma acquire_frame:
  assumes "inv s" "k \<noteq> lease_key r" "k \<noteq> token_key r" "0 < ttl"
  shows "held (snd (acquire ops ttl r h s)) k = held s k \<and> ctr (snd (acquire ops ttl r h s)) k = ctr s k"
  using assms by (simp add: acquire_def Let_def split_beta held_incr held_set ctr_set ctr_incr_other)

lemma acquire_inv [simp]: "inv s \<Longrightarrow> inv (snd (acquire ops ttl r h s))"
  by (simp add: acquire_def Let_def split_beta)

lemma acquire_now [simp]: "inv s \<Longrightarrow> now (snd (acquire ops ttl r h s)) = now s"
  by (simp add: acquire_def Let_def split_beta)

lemma release_result [simp]:
  "inv s \<Longrightarrow> fst (release ops l s) \<longleftrightarrow>
     map_option fst (held s (lease_key (lease_resource l))) = Some (lease_text (lease_holder l) (lease_token l))"
  by (simp add: release_def)

lemma release_held:
  "inv s \<Longrightarrow> held (snd (release ops l s)) =
     (if map_option fst (held s (lease_key (lease_resource l))) = Some (lease_text (lease_holder l) (lease_token l))
      then (held s)(lease_key (lease_resource l) := None) else held s)"
  by (simp add: release_def held_cad)

lemma release_frame [simp]:
  assumes "inv s"
  shows "inv (snd (release ops l s))" "now (snd (release ops l s)) = now s"
  using assms by (simp_all add: release_def)

lemma release_ctr: "inv s \<Longrightarrow> k \<noteq> lease_key (lease_resource l) \<Longrightarrow> ctr (snd (release ops l s)) k = ctr s k"
  by (simp add: release_def ctr_cad)

text \<open>A release by a holder whose lease was taken over changes nothing a reader can see.\<close>

lemma stale_release:
  assumes "inv s" "held s (lease_key (lease_resource l)) = Some (lease_text h t, d)"
    "h \<noteq> lease_holder l \<or> t \<noteq> lease_token l"
  shows "\<not> fst (release ops l s) \<and> held (snd (release ops l s)) = held s"
  using assms by (auto simp: release_held)

lemma acquire_None:
  "inv s \<Longrightarrow> held s (lease_key r) \<noteq> None \<Longrightarrow> fst (acquire ops ttl r h s) = None"
  by (simp add: acquire_def Let_def split_beta held_incr)

lemma acquire_Some:
  "fst (acquire ops ttl r h s) = Some l \<Longrightarrow>
     lease_resource l = r \<and> lease_holder l = h \<and> lease_token l = fst (kv_incr ops (token_key r) s)"
  by (auto simp: acquire_def Let_def split_beta split: if_splits)

lemma lease_run_tokens:
  assumes "inv s" "ctr s (token_key r) = Some n" "n + int (length xs) < 2 ^ 63" "0 < ttl"
    "\<forall>x \<in> set xs. op_ok x"
  shows "sorted_wrt (<) (n # map lease_token (granted r (fst (lease_run ops advance ttl xs s))))"
  using assms
proof (induction xs arbitrary: s n)
  case Nil
  then show ?case by simp
next
  case (Cons x xs)
  show ?case
  proof (cases x)
    case (Acquire r' h)
    let ?s = "snd (acquire ops ttl r' h s)"
    show ?thesis
    proof (cases "r' = r")
      case True
      have "sorted_wrt (<) ((n + 1) # map lease_token (granted r (fst (lease_run ops advance ttl xs ?s))))"
        using Cons acquire_counts [of s r n ttl h] True by (intro Cons.IH) auto
      then show ?thesis
        using Cons.prems acquire_result [of s r n ttl h] True Acquire
        by (auto simp: split_beta Let_def split: option.splits)
    next
      case False
      have "ctr ?s (token_key r) = Some n"
        using Cons.prems Acquire False acquire_frame [of s "token_key r" r' ttl h] by simp
      then have "sorted_wrt (<) (n # map lease_token (granted r (fst (lease_run ops advance ttl xs ?s))))"
        using Cons by (intro Cons.IH) auto
      then show ?thesis
        using False Acquire acquire_Some [of ttl r' h s]
        by (auto simp: split_beta Let_def split: option.splits)
    qed
  next
    case (Release l)
    then have "ctr (snd (release ops l s)) (token_key r) = Some n"
      using Cons.prems by (simp add: release_ctr)
    then show ?thesis using Cons.prems Cons.IH [of "snd (release ops l s)" n] Release by simp
  next
    case (Wait t)
    then show ?thesis using Cons.prems Cons.IH [of "advance t s" n] by (simp add: ctr_advance)
  qed
qed

lemma lease_run_excluded:
  assumes "inv s" "held s (lease_key r) = Some (lease_text h t, Some d)" "CHR '':'' \<notin> set r" "0 < ttl"
    "\<forall>x \<in> set xs. op_ok x" "now s + sum_list (map op_wait xs) < d"
    "Release \<lparr>lease_resource = r, lease_holder = h, lease_token = t\<rparr> \<notin> set xs"
  shows "granted r (fst (lease_run ops advance ttl xs s)) = [] \<and>
    held (snd (lease_run ops advance ttl xs s)) (lease_key r) = Some (lease_text h t, Some d)"
  using assms
proof (induction xs arbitrary: s)
  case Nil
  then show ?case by simp
next
  case (Cons x xs)
  have pos: "0 \<le> sum_list (map op_wait xs)"
    by (rule sum_list_nonneg) (use Cons.prems(5) op_wait_nonneg in auto)
  show ?case
  proof (cases x)
    case (Acquire r' h')
    let ?s = "snd (acquire ops ttl r' h' s)"
    have "held ?s (lease_key r) = Some (lease_text h t, Some d)"
      using Cons.prems acquire_frame [of s "lease_key r" r' ttl h']
      by (cases "r' = r") (simp_all add: acquire_def Let_def split_beta held_incr held_set)
    moreover have "fst (acquire ops ttl r' h' s) = None" if "r' = r"
      using Cons.prems that by (simp add: acquire_None)
    ultimately show ?thesis
      using Cons.prems Cons.IH [of ?s] Acquire acquire_Some [of ttl r' h' s]
      by (auto simp: split_beta Let_def split: option.splits)
  next
    case (Release l)
    have "held (snd (release ops l s)) (lease_key r) = Some (lease_text h t, Some d)"
      using Cons.prems Release by (cases l) (auto simp: release_held)
    then show ?thesis using Cons Release by simp
  next
    case (Wait u)
    have "held (advance u s) (lease_key r) = Some (lease_text h t, Some d)"
      using Cons.prems Wait pos by (simp add: held_advance alive_def)
    then show ?thesis using Cons Wait by simp
  qed
qed

end

section \<open>Fenced writes\<close>

fun fence_run :: "(string \<times> int) list \<Rightarrow> fenced_writer \<Rightarrow> (string \<times> int) list \<times> fenced_writer" where
  "fence_run [] w = ([], w)"
| "fence_run ((r, t) # ws) w =
     (let (res, w1) = fence_check r t w; (acc, w2) = fence_run ws w1
      in ((if is_ok res then (r, t) # acc else acc), w2))"

lemma fence_check_newest:
  "newest_accepted r (snd (fence_check r' t w)) =
     (if r' = r \<and> newest_accepted r w \<le> t then t else newest_accepted r w)"
  by (auto simp: fence_check_def newest_accepted_def Let_def)

lemma fence_check_ok: "is_ok (fst (fence_check r t w)) \<longleftrightarrow> newest_accepted r w \<le> t"
  by (auto simp: fence_check_def Let_def)

lemma fence_run_sorted:
  "sorted (newest_accepted r w # map snd (filter (\<lambda>(r', t). r' = r) (fst (fence_run ws w)))) \<and>
   newest_accepted r (snd (fence_run ws w)) =
     last (newest_accepted r w # map snd (filter (\<lambda>(r', t). r' = r) (fst (fence_run ws w))))"
proof (induction ws arbitrary: w)
  case Nil
  then show ?case by simp
next
  case (Cons x ws)
  obtain r' t where x: "x = (r', t)" by (cases x)
  show ?case
    using Cons.IH [of "snd (fence_check r' t w)"]
    by (auto simp: x Let_def split_beta fence_check_newest fence_check_ok split: if_splits)
qed

section \<open>Properties\<close>

text \<open>C19: Whatever acquisitions, releases and waits any clients perform on any job ids, each one
  uninterrupted, the tokens of the leases granted on one job strictly increase and exceed the value
  its counter had before.\<close>

theorem lease_tokens_monotonic:
  assumes "mem_inv m" and "0 < ttl" and "\<forall>x \<in> set xs. op_ok x"
    and "mem_ctr m (token_key r) = Some n" and "n + int (length xs) < 2 ^ 63"
  shows "sorted_wrt (<) (n # map lease_token (granted r (fst (lease_run mem_kv mem_advance ttl xs m))))"
  using mem.lease_run_tokens [OF assms(1,4,5,2,3)] .

theorem lease_tokens_monotonic_witness:
  "sorted_wrt (<) (0 # map lease_token (granted ''j'' (fst (lease_run mem_kv mem_advance 10
     [Acquire ''j'' ''a'', Acquire ''j'' ''b'', Wait 11, Acquire ''j'' ''b''] (InMemoryKV (FakeClock 0))))))"
  by (rule lease_tokens_monotonic) (simp_all add: mem_ctr_def InMemoryKV_def mem_inv_def)

text \<open>C20: On a Valkey server that behaves as documented, a granted lease excludes every other client:
  until its time to live has passed, no acquisition of the same job succeeds, whatever else the
  clients do short of the holder's own release, and the entry under the lease's key still names the
  holder and its token.\<close>

theorem valkey_lease_excludes:
  assumes srv: "redis_server c ok now held ctr advance"
    and "ok s" and "ctr s (token_key r) = Some n" and "n < 2 ^ 63 - 1"
    and "held s (lease_key r) = None" and "0 < ttl" and "CHR '':'' \<notin> set r"
    and "\<forall>x \<in> set xs. op_ok x" and "sum_list (map op_wait xs) < ttl"
    and "Release \<lparr>lease_resource = r, lease_holder = h, lease_token = n + 1\<rparr> \<notin> set xs"
  shows "fst (acquire (valkey_kv c) ttl r h s) =
      Some \<lparr>lease_resource = r, lease_holder = h, lease_token = n + 1\<rparr> \<and>
    granted r (fst (lease_run (valkey_kv c) advance ttl xs (snd (acquire (valkey_kv c) ttl r h s)))) = [] \<and>
    map_option fst (held (snd (lease_run (valkey_kv c) advance ttl xs (snd (acquire (valkey_kv c) ttl r h s)))) (lease_key r)) =
      Some (lease_text h (n + 1))"
proof -
  have K: "key_value_store (valkey_kv c) ok now held ctr
      (\<lambda>s ttl. now s + of_int (valkey_px ttl) / 1000) advance"
    using srv by (rule redis_server.valkey_is_store)
  let ?s = "snd (acquire (valkey_kv c) ttl r h s)"
  obtain d where d: "held ?s (lease_key r) = Some (lease_text h (n + 1), Some d)" "now s + ttl \<le> d"
    using key_value_store.acquire_held [OF K assms(2,3,4,6)]
      key_value_store.acquire_deadline [OF K assms(2,6)] assms(5) by auto
  have "now ?s = now s" "ok ?s"
    using key_value_store.acquire_counts [OF K assms(2,3,4)] by auto
  then have "granted r (fst (lease_run (valkey_kv c) advance ttl xs ?s)) = [] \<and>
      held (snd (lease_run (valkey_kv c) advance ttl xs ?s)) (lease_key r) = Some (lease_text h (n + 1), Some d)"
    using key_value_store.lease_run_excluded [OF K _ d(1) assms(7,6,8) _ assms(10)] d(2) assms(9) by simp
  then show ?thesis
    using key_value_store.acquire_result [OF K assms(2,3,4)] assms(5) by simp
qed

theorem valkey_lease_excludes_witness:
  "granted ''j'' (fst (lease_run (valkey_kv srv_client) srv_advance 20
     [Wait 15, Acquire ''j'' ''b''] (snd (acquire (valkey_kv srv_client) 20 ''j'' ''a''
       \<lparr>srv_now = 0, srv_keys = Map.empty\<rparr>)))) = []"
  by (rule valkey_lease_excludes [OF ref.redis_server_axioms, where n = 0, THEN conjunct2, THEN conjunct1])
    (simp_all add: srv_inv_def srv_held_def srv_seen_def srv_ctr_def)

text \<open>A holder that releases after its lease was taken over by another holder or under another
  token gets \<open>False\<close>, and the successor's lease is still readable afterwards.\<close>

theorem stale_release_keeps_successor:
  assumes "mem_inv m" and "mem_held m (lease_key (lease_resource l)) = Some (lease_text h t, d)"
    and "h \<noteq> lease_holder l \<or> t \<noteq> lease_token l"
  shows "\<not> fst (release mem_kv l m) \<and>
    mem_held (snd (release mem_kv l m)) (lease_key (lease_resource l)) = Some (lease_text h t, d)"
  using mem.stale_release [OF assms] assms(2) by simp

theorem stale_release_keeps_successor_witness:
  "\<not> fst (release mem_kv \<lparr>lease_resource = ''j'', lease_holder = ''a'', lease_token = 1\<rparr>
     (snd (lease_run mem_kv mem_advance 10 [Acquire ''j'' ''a'', Wait 11, Acquire ''j'' ''b''] (InMemoryKV (FakeClock 0)))))"
proof (rule stale_release_keeps_successor [where h = "''b''" and t = 2 and d = "Some 21", THEN conjunct1])
  let ?m = "snd (lease_run mem_kv mem_advance 10 [Acquire ''j'' ''a'', Wait 11, Acquire ''j'' ''b''] (InMemoryKV (FakeClock 0)))"
  show "mem_inv ?m"
    by (simp add: split_beta Let_def del: One_nat_def)
  show "mem_held ?m (lease_key (lease_resource \<lparr>lease_resource = ''j'', lease_holder = ''a'', lease_token = 1\<rparr>)) =
      Some (lease_text ''b'' 2, Some 21)"
    by (simp add: acquire_def mem_kv_def mem_ops_defs mem_held_def entry_expired_def mem_now_def
        mem_advance_def clock_advance_def InMemoryKV_def FakeClock_def Let_def)
qed simp

text \<open>A holder that was overtaken is fenced out at the write site: if two leases on a job were
  granted in this order, then once a write under the later token has been accepted, a write under
  the earlier token raises \<open>StaleLeaseError\<close> naming both tokens and leaves the writer unchanged.\<close>

theorem paused_holder_is_fenced_out:
  assumes "mem_inv m" and "0 < ttl" and "\<forall>x \<in> set xs. op_ok x"
    and "mem_ctr m (token_key r) = Some n" and "n + int (length xs) < 2 ^ 63"
    and "granted r (fst (lease_run mem_kv mem_advance ttl xs m)) = us @ a # vs @ b # ws"
    and "fence_check r (lease_token b) w = (Inr (), w')"
  shows "fence_check r (lease_token a) w' = (Inl (StaleLeaseError r (lease_token a) (lease_token b)), w')"
proof -
  have "lease_token a < lease_token b"
    using mem.lease_run_tokens [OF assms(1,4,5,2,3)] unfolding assms(6)
    by (simp add: sorted_wrt_append)
  then show ?thesis
    using assms(7) by (auto simp: fence_check_def Let_def newest_accepted_def split: if_splits)
qed

theorem paused_holder_is_fenced_out_witness:
  "fence_check ''j'' 1 [''j'' \<mapsto> 2] = (Inl (StaleLeaseError ''j'' 1 2), [''j'' \<mapsto> 2])"
proof -
  let ?xs = "[Acquire ''j'' ''a'', Wait 15, Acquire ''j'' ''b'']"
  let ?l = "\<lambda>h t. \<lparr>lease_resource = ''j'', lease_holder = h, lease_token = t\<rparr>"
  have run: "granted ''j'' (fst (lease_run mem_kv mem_advance 10 ?xs (InMemoryKV (FakeClock 0))))
      = [] @ ?l ''a'' 1 # [] @ ?l ''b'' 2 # []"
    by (simp add: acquire_def mem_kv_def mem_ops_defs entry_expired_def mem_now_def
        mem_advance_def clock_advance_def InMemoryKV_def FakeClock_def Let_def)
  have "fence_check ''j'' (lease_token (?l ''a'' 1)) [''j'' \<mapsto> 2] =
      (Inl (StaleLeaseError ''j'' (lease_token (?l ''a'' 1)) (lease_token (?l ''b'' 2))), [''j'' \<mapsto> 2])"
    by (rule paused_holder_is_fenced_out [OF _ _ _ _ _ run, where n = 0 and w = Map.empty])
      (simp_all add: mem_ctr_def InMemoryKV_def mem_inv_def fence_check_def newest_accepted_def)
  then show ?thesis by simp
qed

text \<open>Over any sequence of guarded writes to any resources, the tokens accepted for one resource
  never decrease, and the newest accepted token reported is the last one accepted.\<close>

theorem fenced_writes_monotone:
  "sorted (newest_accepted r w # map snd (filter (\<lambda>(r', t). r' = r) (fst (fence_run ws w)))) \<and>
   newest_accepted r (snd (fence_run ws w)) =
     last (newest_accepted r w # map snd (filter (\<lambda>(r', t). r' = r) (fst (fence_run ws w))))"
  by (rule fence_run_sorted)

end
