(* ===== verification/History.thy ===== *)
theory History
  imports Relay Leases
begin

text \<open>
  Histories of the database. Every component reaches the tables only through the transactions of the
  repository and the relay, and each transaction locks the rows it decides on; so any interleaving of
  API replicas, relays, workers and listeners is a sequence of \<open>db_step\<close>s. What holds along every such
  sequence is shown here by rule induction: the invariant of the tables, growth of the logs, the
  order of accepted fencing tokens, and idempotent submission.
\<close>

inductive db_step :: "db \<Rightarrow> db \<Rightarrow> bool" where
  submitting: "db_step d (snd (submit_job i carrier key payload subject d))"
| recording: "ev \<in> {E_STARTED, E_COMPLETED, E_FAILED, E_REQUEUED, E_DEAD_LETTERED} \<Longrightarrow>
    db_step d (snd (record_event i ev a dt ft res d))"
| replaying: "db_step d (snd (replay_job i subject d))"
| publishing: "db_step d (mark_published ids d)"
| ticking: "db_now d \<le> t \<Longrightarrow> db_step d (d\<lparr>db_now := t\<rparr>)"

abbreviation db_steps :: "db \<Rightarrow> db \<Rightarrow> bool" where
  "db_steps \<equiv> db_step\<^sup>*\<^sup>*"

abbreviation reachable :: "db \<Rightarrow> bool" where
  "reachable d \<equiv> \<exists>t. db_steps (empty_db t) d"

section \<open>The invariant along histories\<close>

definition fences_ok :: "db \<Rightarrow> bool" where
  "fences_ok d \<longleftrightarrow> (\<forall>r \<in> set (jobs d). int8_ok (jr_fence r))"

definition history_inv :: "db \<Rightarrow> bool" where
  "history_inv d \<longleftrightarrow> db_inv d \<and> outbox_wf d \<and> fences_ok d"

lemma db_inv_now: "db_inv d \<Longrightarrow> db_inv (d\<lparr>db_now := t\<rparr>)"
proof -
  have "job_ok (d\<lparr>db_now := t\<rparr>) r = job_ok d r" for r
    by (rule job_ok_cong) (auto intro: replay_events_cong simp: outbox_of_def)
  then show "db_inv d \<Longrightarrow> db_inv (d\<lparr>db_now := t\<rparr>)" by (auto simp: db_inv_def)
qed

lemma history_inv_write:
  assumes "outbox_wf d" "fences_ok d" "int8_ok tok"
  shows "outbox_wf (write_event i ev a dt tok res st d) \<and> fences_ok (write_event i ev a dt tok res st d)"
  using assms by (auto simp: outbox_wf_def fences_ok_def set_update_where)

lemma history_inv_record:
  assumes "history_inv d" "ev \<noteq> E_REPLAYED"
  shows "history_inv (snd (record_event i ev a dt ft res d))"
proof -
  obtain out d' where run: "record_event i ev a dt ft res d = (out, d')" by fastforce
  have "outbox_wf d' \<and> fences_ok d'" using run
  proof (cases rule: record_event_cases)
    case (ok row s st)
    with assms show ?thesis by (simp add: history_inv_def history_inv_write)
  qed (use assms in \<open>simp add: history_inv_def\<close>)
  with run record_event_inv [of d ev i a dt ft res] assms show ?thesis by (simp add: history_inv_def)
qed

lemma history_inv_replay:
  assumes "history_inv d"
  shows "history_inv (snd (replay_job i subject d))"
proof -
  obtain out d' where run: "replay_job i subject d = (out, d')" by fastforce
  have "outbox_wf d' \<and> fences_ok d'" using run
  proof (cases rule: replay_job_cases)
    case (ok row s)
    then have "outbox_wf (write_event i E_REPLAYED 0 [] (jr_fence row) None S_QUEUED d)"
      "fences_ok (write_event i E_REPLAYED 0 [] (jr_fence row) None S_QUEUED d)"
      using assms history_inv_write by (auto simp: history_inv_def)
    with ok(6) show ?thesis by (auto simp: outbox_wf_def fences_ok_def insert_outbox_def)
  qed (use assms in \<open>auto simp: history_inv_def\<close>)
  with run replay_job_inv [of d i subject] assms show ?thesis by (simp add: history_inv_def)
qed

lemma history_inv_submit:
  assumes "history_inv d"
  shows "history_inv (snd (submit_job i carrier key payload subject d))"
proof -
  obtain out d' where run: "submit_job i carrier key payload subject d = (out, d')" by fastforce
  have "outbox_wf d' \<and> fences_ok d'" using run
  proof (cases rule: submit_job_cases)
    case fresh
    then show ?thesis
      using assms by (auto simp: history_inv_def outbox_wf_def fences_ok_def submitted_db_def submitted_row_def
          insert_outbox_def int8_ok_def)
  qed (use assms in \<open>auto simp: history_inv_def\<close>)
  with run submit_job_inv [of d i carrier key payload subject] assms show ?thesis by (simp add: history_inv_def)
qed

lemma history_inv_step: "db_step d d' \<Longrightarrow> history_inv d \<Longrightarrow> history_inv d'"
proof (induction rule: db_step.induct)
  case (publishing d ids)
  then show ?case by (simp add: history_inv_def mark_published_inv mark_published_wf fences_ok_def)
next
  case (ticking d t)
  then show ?case by (simp add: history_inv_def db_inv_now outbox_wf_def fences_ok_def)
qed (auto intro: history_inv_submit history_inv_record history_inv_replay)

lemma history_inv_steps: "db_steps d d' \<Longrightarrow> history_inv d \<Longrightarrow> history_inv d'"
  by (induction rule: rtranclp_induct) (auto intro: history_inv_step)

lemma history_inv_empty: "history_inv (empty_db t)"
  unfolding history_inv_def using db_inv_empty [of t] by (simp add: outbox_wf_def fences_ok_def empty_db_def)

lemma history_inv_reachable: "reachable d \<Longrightarrow> history_inv d"
  using history_inv_steps history_inv_empty by blast

section \<open>Growth\<close>

text \<open>What a step may do to a job that exists: its key and payload stay, its fence and attempts only
  grow, and its log only gains events at the end.\<close>

definition job_grows :: "uuid \<Rightarrow> db \<Rightarrow> db \<Rightarrow> bool" where
  "job_grows i d d' \<longleftrightarrow> (\<forall>row evs. find_job i d = Some row \<longrightarrow> replay_events i d = Inr evs \<longrightarrow>
     (\<exists>row' more. find_job i d' = Some row' \<and> jr_key row' = jr_key row \<and> jr_payload row' = jr_payload row \<and>
        jr_fence row \<le> jr_fence row' \<and> jr_attempts row \<le> jr_attempts row' \<and>
        replay_events i d' = Inr (evs @ more)))"

lemma job_grows_refl: "job_grows i d d"
  by (auto simp: job_grows_def)

lemma job_grows_trans:
  assumes "job_grows i d d'" "job_grows i d' d''"
  shows "job_grows i d d''"
  unfolding job_grows_def
proof (intro allI impI)
  fix row evs
  assume "find_job i d = Some row" "replay_events i d = Inr evs"
  with assms(1) obtain row' more where one: "find_job i d' = Some row'" "jr_key row' = jr_key row"
      "jr_payload row' = jr_payload row" "jr_fence row \<le> jr_fence row'" "jr_attempts row \<le> jr_attempts row'"
      "replay_events i d' = Inr (evs @ more)"
    unfolding job_grows_def by blast
  with assms(2) obtain row'' more' where "find_job i d'' = Some row''" "jr_key row'' = jr_key row'"
      "jr_payload row'' = jr_payload row'" "jr_fence row' \<le> jr_fence row''" "jr_attempts row' \<le> jr_attempts row''"
      "replay_events i d'' = Inr ((evs @ more) @ more')"
    unfolding job_grows_def by blast
  with one show "\<exists>row' more. find_job i d'' = Some row' \<and> jr_key row' = jr_key row \<and>
      jr_payload row' = jr_payload row \<and> jr_fence row \<le> jr_fence row' \<and> jr_attempts row \<le> jr_attempts row' \<and>
      replay_events i d'' = Inr (evs @ more)"
    by (intro exI [of _ row''] exI [of _ "more @ more'"]) simp
qed

lemma job_grows_same:
  assumes "jobs d' = jobs d" "job_events d' = job_events d"
  shows "job_grows i d d'"
  using assms replay_events_cong [of d' d i] by (auto simp: job_grows_def find_job_def)

lemma job_grows_write:
  assumes "ids_ok er_id (job_events d) (events_seq d)" "find_job j d = Some row" "jr_fence row \<le> tok"
  shows "job_grows i d (write_event j ev a dt tok res st d)"
proof (cases "i = j")
  case True
  with assms show ?thesis
    by (simp add: job_grows_def find_job_written replay_events_write)
next
  case False
  with assms(1) show ?thesis by (simp add: job_grows_def find_job_other replay_events_write)
qed

lemma job_grows_submit:
  assumes "db_inv d"
  shows "job_grows i d (snd (submit_job j carrier key payload subject d))"
proof -
  obtain out d' where run: "submit_job j carrier key payload subject d = (out, d')" by fastforce
  then show ?thesis
  proof (cases rule: submit_job_cases)
    case fresh
    have "find_job i d' = Some row \<and> replay_events i d' = Inr evs"
      if "find_job i d = Some row" "replay_events i d = Inr evs" for row evs
    proof -
      have "i \<noteq> j" using that(1) fresh(2) by auto
      with that show ?thesis
        using submitted_db_log [OF db_inv_ids [OF assms], of i j carrier key payload subject]
        by (simp add: fresh(4) find_job_def find_append)
    qed
    then show ?thesis using run by (simp add: job_grows_def)
  qed (use run job_grows_refl in auto)
qed

lemma job_grows_step: "db_step d d' \<Longrightarrow> db_inv d \<Longrightarrow> job_grows i d d'"
proof (induction rule: db_step.induct)
  case (submitting d j carrier key payload subject)
  then show ?case by (rule job_grows_submit)
next
  case (recording ev d j a dt ft res)
  obtain out d' where run: "record_event j ev a dt ft res d = (out, d')" by fastforce
  then show ?case
  proof (cases rule: record_event_cases)
    case (ok row s st)
    with run show ?thesis using job_grows_write [OF db_inv_ids [OF recording(2)] ok(1,4)] by simp
  qed (use run job_grows_refl in auto)
next
  case (replaying d j subject)
  obtain out d' where run: "replay_job j subject d = (out, d')" by fastforce
  then show ?case
  proof (cases rule: replay_job_cases)
    case (ok row s)
    let ?w = "write_event j E_REPLAYED 0 [] (jr_fence row) None S_QUEUED d"
    have "job_grows i d ?w" by (rule job_grows_write [OF db_inv_ids [OF replaying] ok(1)]) simp
    moreover have "job_grows i ?w d'" by (rule job_grows_same) (simp_all add: ok(6))
    ultimately show ?thesis using run job_grows_trans by auto
  qed (use run job_grows_refl in auto)
qed (auto intro: job_grows_same)

lemma job_grows_steps: "db_steps d d' \<Longrightarrow> history_inv d \<Longrightarrow> job_grows i d d'"
proof (induction rule: rtranclp_induct)
  case (step d1 d2)
  then have "db_inv d1" using history_inv_steps by (auto simp: history_inv_def)
  with step show ?case using job_grows_step job_grows_trans by blast
qed (rule job_grows_refl)

text \<open>The form the client proofs use.\<close>

lemma steps_keep_job:
  assumes "db_steps d d'" "history_inv d" "find_job i d = Some row"
  obtains row' evs more where "find_job i d' = Some row'" "jr_key row' = jr_key row"
    "jr_payload row' = jr_payload row" "jr_fence row \<le> jr_fence row'" "jr_attempts row \<le> jr_attempts row'"
    "replay_events i d = Inr evs" "replay_events i d' = Inr (evs @ more)"
proof -
  obtain evs where "replay_events i d = Inr evs"
    using assms(2,3) job_log [of d i row] by (metis history_inv_def)
  with job_grows_steps [OF assms(1,2), of i] assms(3) that show ?thesis unfolding job_grows_def by blast
qed

lemma find_key_row:
  assumes "db_inv d" "find (\<lambda>r. jr_key r = key) (jobs d) = Some r"
  shows "find_job (jr_id r) d = Some r \<and> jr_key r = key"
  using assms find_SomeD [OF assms(2)] find_key_distinct [of jr_id "jobs d" r] by (simp add: find_job_def db_inv_def)

lemma steps_keep_key:
  assumes "db_steps d d'" "history_inv d" "find (\<lambda>r. jr_key r = key) (jobs d) = Some row"
  shows "\<exists>row'. find (\<lambda>r. jr_key r = key) (jobs d') = Some row' \<and> jr_id row' = jr_id row"
proof -
  have inv: "db_inv d" "db_inv d'" using assms(2) history_inv_steps [OF assms(1,2)] by (simp_all add: history_inv_def)
  have "find_job (jr_id row) d = Some row" "jr_key row = key" using find_key_row [OF inv(1) assms(3)] by simp_all
  then obtain row' where row': "find_job (jr_id row) d' = Some row'" "jr_key row' = key"
    using steps_keep_job [OF assms(1,2)] by metis
  then have "row' \<in> set (jobs d')" "jr_id row' = jr_id row" using find_job_inv [OF inv(2) row'(1)] by simp_all
  with row'(2) find_key_distinct [of jr_key "jobs d'" row'] inv(2) show ?thesis by (simp add: db_inv_def)
qed

lemma terminal_row_stays:
  assumes "db_steps d d'" "history_inv d" "find_job i d = Some row" "jr_state row = job_state_value s" "is_terminal s"
  shows "replay_events i d' = replay_events i d \<and> (\<exists>row'. find_job i d' = Some row' \<and> jr_state row' = jr_state row)"
proof -
  obtain row' evs more where row': "find_job i d' = Some row'" "replay_events i d = Inr evs"
      "replay_events i d' = Inr (evs @ more)"
    using assms(1-3) by (rule steps_keep_job)
  obtain t where t: "replay evs = Inr t" "jr_state row = job_state_value t"
    using assms(2,3) row'(2) by (metis history_inv_def job_log sum.inject(2))
  obtain t' where t': "replay (evs @ more) = Inr t'" "jr_state row' = job_state_value t'"
    using row'(1,3) history_inv_steps [OF assms(1,2)] by (metis history_inv_def job_log sum.inject(2))
  have "t = s" using t(2) assms(4) by simp
  then have "more = []" using replay_terminal_append [OF t(1)] t'(1) assms(5) by fastforce
  with row' t t' show ?thesis by simp
qed

section \<open>Properties\<close>

lemma demo_reachable: "reachable demo_db"
  unfolding demo_db_def by (blast intro: db_step.submitting)

text \<open>C2: In every database the system can reach, by any interleaving of submissions, recorded events,
  replays, relay rounds and the passing of time, every job's log replays without error to the state
  its row caches, holds at most one completion or permanent failure, and the outbox holds exactly
  one message for the submission and one for each replay; ids and idempotency keys are unique.\<close>

theorem reachable_rows_are_projections:
  assumes "reachable d" and "r \<in> set (jobs d)"
  shows "\<exists>evs s. replay_events (jr_id r) d = Inr evs \<and> replay evs = Inr s \<and> jr_state r = job_state_value s \<and>
    jr_attempts r = foldl max 0 (map ev_attempt evs) \<and>
    length (filter (\<lambda>e. ev_type e \<in> {E_COMPLETED, E_FAILED}) evs) \<le> 1 \<and>
    length (outbox_of (jr_id r) d) = 1 + length (filter (\<lambda>e. ev_type e = E_REPLAYED) evs) \<and>
    find_job (jr_id r) d = Some r \<and> find (\<lambda>r'. jr_key r' = jr_key r) (jobs d) = Some r"
proof -
  have inv: "db_inv d" using history_inv_reachable [OF assms(1)] by (simp add: history_inv_def)
  then have keys: "distinct (map jr_id (jobs d))" "distinct (map jr_key (jobs d))" by (simp_all add: db_inv_def)
  have row: "find_job (jr_id r) d = Some r" unfolding find_job_def by (rule find_key_distinct [OF keys(1) assms(2)])
  obtain evs s where log: "replay_events (jr_id r) d = Inr evs" "replay evs = Inr s" "jr_state r = job_state_value s"
      "jr_attempts r = foldl max 0 (map ev_attempt evs)" "length (outbox_of (jr_id r) d) = Suc (replays evs)"
    using job_log [OF inv row] by blast
  then show ?thesis
    using count_terminal_le_1 [OF log(2)] row find_key_distinct [OF keys(2) assms(2)] by (simp add: replays_def)
qed

theorem reachable_rows_are_projections_witness:
  "\<exists>evs s. replay_events 1 demo_db = Inr evs \<and> replay evs = Inr s \<and> job_state_value s = ''queued''"
proof -
  have "submitted_row 1 ''key-1'' demo_payload 0 \<in> set (jobs demo_db)" by (simp add: demo_db_jobs)
  from reachable_rows_are_projections [OF demo_reachable this] show ?thesis by (auto simp: submitted_row_def)
qed

text \<open>C5: A finished job stays finished: once its row says succeeded or failed, no further activity of
  any component changes its state or adds anything to its log.\<close>

theorem finished_jobs_stay_finished:
  assumes "reachable d" and "db_steps d d'" and "find_job i d = Some row"
    and "jr_state row = job_state_value s" and "is_terminal s"
  shows "replay_events i d' = replay_events i d \<and> (\<exists>row'. find_job i d' = Some row' \<and> jr_state row' = jr_state row)"
  using terminal_row_stays [OF assms(2) history_inv_reachable [OF assms(1)] assms(3-5)] .

definition demo_done :: db where
  "demo_done = snd (record_event 1 E_COMPLETED 1 None (Some 7) (Some [(''elapsed_ms'', JInt 10)])
     (snd (record_event 1 E_STARTED 1 None (Some 7) None demo_db)))"

lemma demo_done_reachable: "reachable demo_done"
proof -
  obtain t where "db_steps (empty_db t) demo_db" using demo_reachable by blast
  then have "db_steps (empty_db t) (snd (record_event 1 E_STARTED 1 None (Some 7) None demo_db))"
    by (rule rtranclp.rtrancl_into_rtrancl) (rule db_step.recording, simp)
  then have "db_steps (empty_db t) demo_done" unfolding demo_done_def
    by (rule rtranclp.rtrancl_into_rtrancl) (rule db_step.recording, simp)
  then show ?thesis by blast
qed

lemma demo_running: "record_event 1 E_STARTED 1 None (Some 7) None demo_db =
    (Inr S_RUNNING, write_event 1 E_STARTED 1 [] 7 None S_RUNNING demo_db)"
  using record_event_ok [OF demo_db_row, of S_QUEUED E_STARTED S_RUNNING 1 "Some 7" None None]
  by (simp add: submitted_row_def fence_of_def int4_ok_def int8_ok_def lifecycle_simps)

lemma demo_running_row: "find_job 1 (write_event 1 E_STARTED 1 [] 7 None S_RUNNING demo_db) =
    Some (upd_row S_RUNNING 1 7 None (db_now demo_db) (submitted_row 1 ''key-1'' demo_payload 0))"
  by (rule find_job_written [OF demo_db_row]) (simp add: submitted_row_def)

lemma demo_done_row:
  "\<exists>row. find_job 1 demo_done = Some row \<and> jr_state row = job_state_value S_SUCCEEDED \<and> jr_fence row = 7"
proof -
  let ?d = "write_event 1 E_STARTED 1 [] 7 None S_RUNNING demo_db"
  let ?res = "Some [(''elapsed_ms'', JInt 10)]"
  have "record_event 1 E_COMPLETED 1 None (Some 7) ?res ?d = (Inr S_SUCCEEDED, write_event 1 E_COMPLETED 1 [] 7 ?res S_SUCCEEDED ?d)"
    using record_event_ok [OF demo_running_row, of S_RUNNING E_COMPLETED S_SUCCEEDED 1 "Some 7" None ?res]
    by (simp add: fence_of_def int4_ok_def int8_ok_def lifecycle_simps)
  then show ?thesis
    unfolding demo_done_def demo_running using find_job_written [OF demo_running_row, of 7] by simp
qed

theorem finished_jobs_stay_finished_witness:
  "\<exists>row'. find_job 1 (snd (record_event 1 E_STARTED 2 None (Some 9) None demo_done)) = Some row' \<and>
     jr_state row' = ''succeeded''"
proof -
  obtain row where row: "find_job 1 demo_done = Some row" "jr_state row = job_state_value S_SUCCEEDED"
    using demo_done_row by blast
  have "db_steps demo_done (snd (record_event 1 E_STARTED 2 None (Some 9) None demo_done))"
    by (rule r_into_rtranclp) (rule db_step.recording, simp)
  from finished_jobs_stay_finished [OF demo_done_reachable this row] row(2) show ?thesis
    by (simp add: is_terminal_def TERMINAL_STATES_def)
qed

text \<open>C28: What the status query returns, however the rest of the system runs between its two reads: the
  events are a log of the job, and the state and the attempts it reports are those of a prefix of that
  log, the log at the moment of the first read; the prefix may be a proper one.\<close>

theorem get_job_shows_a_moment_of_the_log:
  assumes "reachable d" and "db_steps d (others d)" and "get_job rt others i d = Some (JObj kvs)"
  shows "\<exists>evs more s. replay_events i d = Inr evs \<and> replay_events i (others d) = Inr (evs @ more) \<and> replay evs = Inr s \<and>
    dict_get kvs ''state'' = Some (JStr (job_state_value s)) \<and>
    dict_get kvs ''attempts'' = Some (JInt (foldl max 0 (map ev_attempt evs))) \<and>
    dict_get kvs ''events'' = Some (JArr (map (event_json rt) (events_of i (others d)))) \<and>
    length (events_of i (others d)) = length (evs @ more)"
proof -
  obtain row where row: "find_job i d = Some row" using assms(3) by (auto simp: get_job_def split: option.splits)
  have inv: "history_inv d" by (rule history_inv_reachable [OF assms(1)])
  obtain evs more where logs: "replay_events i d = Inr evs" "replay_events i (others d) = Inr (evs @ more)"
    using assms(2) inv row by (rule steps_keep_job)
  then obtain s where "replay evs = Inr s" "jr_state row = job_state_value s" "jr_attempts row = foldl max 0 (map ev_attempt evs)"
    using job_log [OF _ row] inv by (auto simp: history_inv_def)
  with assms(3) row logs events_of_log [OF logs(2)] show ?thesis by (auto simp: get_job_def dict_get_def)
qed

text \<open>A worker records \<open>STARTED\<close> between the two reads: the response says \<open>queued\<close>, its events end with the start.\<close>

theorem get_job_shows_a_moment_of_the_log_witness:
  "\<exists>kvs evs more. get_job demo_runtime (\<lambda>d. snd (record_event 1 E_STARTED 1 None (Some 7) None d)) 1 demo_db = Some (JObj kvs) \<and>
     dict_get kvs ''state'' = Some (JStr ''queued'') \<and> replay_events 1 demo_db = Inr evs \<and> more \<noteq> [] \<and>
     (\<exists>xs. dict_get kvs ''events'' = Some (JArr xs) \<and> length xs = length (evs @ more))"
proof -
  let ?start = "\<lambda>d. snd (record_event 1 E_STARTED 1 None (Some 7) None d)"
  obtain kvs where g: "get_job demo_runtime ?start 1 demo_db = Some (JObj kvs)" by (simp add: get_job_def demo_db_row)
  then have state: "dict_get kvs ''state'' = Some (JStr ''queued'')" by (auto simp: get_job_def demo_db_row submitted_row_def dict_get_def)
  have "db_steps demo_db (?start demo_db)" by (rule r_into_rtranclp) (rule db_step.recording, simp)
  from get_job_shows_a_moment_of_the_log [OF demo_reachable this g] obtain evs more where
      log: "replay_events 1 demo_db = Inr evs" "replay_events 1 (?start demo_db) = Inr (evs @ more)"
      "dict_get kvs ''events'' = Some (JArr (map (event_json demo_runtime) (events_of 1 (?start demo_db))))"
      "length (events_of 1 (?start demo_db)) = length (evs @ more)" by blast
  have "more \<noteq> []" using log(2) by (auto simp: demo_running replay_events_write [OF db_inv_ids [OF demo_db_inv]] log(1))
  with g state log show ?thesis by (intro exI [of _ kvs] exI [of _ evs] exI [of _ more]) simp
qed

text \<open>C4: The fence holds at the data, under every interleaving: once a write with token \<open>t\<close> has been
  accepted for a job, any later write for it with a smaller token raises and leaves the database
  unchanged, however much has happened in between; and when the state machine would allow the
  write, the exception is \<open>StaleLeaseError\<close> with the newest accepted token.\<close>

theorem overtaken_writer_is_refused:
  assumes "reachable d" and "record_event i ev a dt (Some t) res d = (Inr st, d1)"
    and "ev \<noteq> E_REPLAYED" and "db_steps d1 d2" and "t' < t"
    and "record_event i ev' a' dt' (Some t') res' d2 = (out, d3)"
  shows "d3 = d2 \<and> (\<exists>e. out = Inl e) \<and>
    (\<forall>row s. find_job i d2 = Some row \<longrightarrow> jr_state row = job_state_value s \<longrightarrow> ev' \<in> legal_events (Some s) \<longrightarrow>
       int4_ok a' \<longrightarrow> int8_ok t' \<longrightarrow> out = Inl (StaleLeaseError (uuid_str i) t' (jr_fence row)) \<and> t \<le> jr_fence row)"
proof -
  have inv1: "history_inv d1"
    using history_inv_record [OF history_inv_reachable [OF assms(1)] assms(3), of i a dt "Some t" res] assms(2) by simp
  from assms(2) have "\<exists>row1. find_job i d1 = Some row1 \<and> jr_fence row1 = t"
    by (cases rule: record_event_cases) (auto simp: fence_of_def find_job_written)
  then obtain row1 where "find_job i d1 = Some row1" "jr_fence row1 = t" by blast
  then obtain row2 where row2: "find_job i d2 = Some row2" "t \<le> jr_fence row2"
    using steps_keep_job [OF assms(4) inv1] by metis
  show ?thesis using assms(6)
  proof (cases rule: record_event_cases)
    case (ok row s st)
    then show ?thesis using row2 assms(5) by (simp add: fence_of_def)
  next
    case (error e)
    have "out = Inl (StaleLeaseError (uuid_str i) t' (jr_fence row2))"
      if "jr_state row2 = job_state_value s" "ev' \<in> legal_events (Some s)" "int4_ok a'" "int8_ok t'" for s
    proof -
      note asm = that
      obtain st' where "apply_event (Some s) ev' = Inr st'"
        using asm(2) apply_event_legal [of "Some s" ev'] by (cases "apply_event (Some s) ev'") auto
      from repo_apply_event_eq [OF row2(1) _ this, of a' dt' "Some t'" res'] asm row2(2) assms(5) error
      show ?thesis by (simp add: fence_of_def)
    qed
    with error row2 show ?thesis by auto
  qed
qed

theorem overtaken_writer_is_refused_witness:
  "record_event 1 E_COMPLETED 1 None (Some 3) None (write_event 1 E_STARTED 1 [] 7 None S_RUNNING demo_db) =
     (Inl (StaleLeaseError (uuid_str 1) 3 7), write_event 1 E_STARTED 1 [] 7 None S_RUNNING demo_db)"
proof -
  let ?d1 = "write_event 1 E_STARTED 1 [] 7 None S_RUNNING demo_db"
  obtain out d3 where run: "record_event 1 E_COMPLETED 1 None (Some 3) None ?d1 = (out, d3)" by fastforce
  note refused = overtaken_writer_is_refused [OF demo_reachable demo_running _ rtranclp.rtrancl_refl _ run]
  have "d3 = ?d1" using refused by simp
  moreover have "out = Inl (StaleLeaseError (uuid_str 1) 3 7)"
    using refused demo_running_row by (auto simp: int4_ok_def int8_ok_def dest!: spec [of _ S_RUNNING])
  ultimately show ?thesis using run by simp
qed

text \<open>C37: Submission is idempotent for ever: after a key has been submitted, whatever the system does in
  between, submitting the same key again, with any payload, returns the same job with
  \<open>created = False\<close> and writes nothing.\<close>

theorem resubmission_returns_the_same_job:
  assumes "reachable d" and "submit_job i carrier key payload subject d = (Inr (job, created), d1)"
    and "db_steps d1 d2"
  shows "submit_job i' carrier' key payload' subject' d2 = (Inr (job, False), d2)"
proof -
  have inv: "history_inv d" by (rule history_inv_reachable [OF assms(1)])
  have inv1: "history_inv d1" using history_inv_submit [OF inv, of i carrier key payload subject] assms(2) by simp
  have "\<exists>row. find (\<lambda>r. jr_key r = key) (jobs d1) = Some row \<and> jr_id row = job" using assms(2)
    by (cases rule: submit_job_cases) (auto simp: find_append submitted_row_def)
  then obtain row where "find (\<lambda>r. jr_key r = key) (jobs d2) = Some row" "jr_id row = job"
    using steps_keep_key [OF assms(3) inv1] by metis
  then show ?thesis by (simp add: submit_job_def transaction_def)
qed

theorem resubmission_returns_the_same_job_witness:
  "submit_job 2 [] ''key-1'' [] ''orbiter.jobs'' demo_done = (Inr (1, False), demo_done)"
proof -
  have sub: "submit_job 1 [] ''key-1'' demo_payload ''orbiter.jobs'' (empty_db 0) = (Inr (1, True), demo_db)"
    by (simp add: demo_db_def submit_job_def transaction_def empty_db_def Let_def find_job_def)
  have steps: "db_steps demo_db demo_done"
    unfolding demo_done_def
    by (rule rtranclp.rtrancl_into_rtrancl [OF r_into_rtranclp]; rule db_step.recording, simp)
  have "reachable (empty_db 0)" by blast
  from resubmission_returns_the_same_job [OF this sub steps] show ?thesis by simp
qed

text \<open>The accepted tokens the jobs table stands for, by the name the leases use for a job.\<close>

definition fence_table :: "db \<Rightarrow> fenced_writer" where
  "fence_table d = (\<lambda>name. map_option jr_fence (find (\<lambda>r. uuid_str (jr_id r) = name) (jobs d)))"

lemma fence_table_job [simp]: "fence_table d (uuid_str i) = map_option jr_fence (find_job i d)"
  by (simp add: fence_table_def find_job_def)

lemma fence_table_write:
  assumes "find_job i d = Some row" "jr_fence row \<le> tok"
  shows "fence_table (write_event i ev a dt tok res st d) = (fence_table d)(uuid_str i \<mapsto> tok)"
proof
  fix name
  let ?d = "write_event i ev a dt tok res st d"
  show "fence_table ?d name = ((fence_table d)(uuid_str i \<mapsto> tok)) name"
  proof (cases "\<exists>j. name = uuid_str j")
    case True
    then obtain j where "name = uuid_str j" by blast
    then show ?thesis using assms by (cases "j = i") (simp_all add: find_job_written find_job_other)
  next
    case False
    then have "find (\<lambda>r. uuid_str (jr_id r) = name) xs = None" for xs :: "job_row list"
      by (induction xs) auto
    with False show ?thesis by (auto simp: fence_table_def)
  qed
qed

text \<open>C21: The fence in the jobs table refines the in-memory \<open>FencedWriter\<close>: on a job whose state allows
  the event and with arguments the columns can hold, recording it with a token has the same verdict
  as \<open>FencedWriter.check\<close> on the accepted tokens the table stands for, the same exception when it is
  stale, and leaves the table standing for the writer's new state.\<close>

theorem fence_refines_FencedWriter:
  assumes "find_job i d = Some row" and "jr_state row = job_state_value s" and "ev \<in> legal_events (Some s)"
    and "int4_ok a" and "int8_ok t"
  shows "case (fence_check (uuid_str i) t (fence_table d), record_event i ev a dt (Some t) res d) of
    ((verdict, w'), (out, d')) \<Rightarrow> (verdict = Inr () \<longleftrightarrow> (\<exists>st. out = Inr st)) \<and>
      (\<forall>e. verdict = Inl e \<longleftrightarrow> out = Inl e) \<and> fence_table d' = w'"
proof -
  obtain st where st: "apply_event (Some s) ev = Inr st"
    using assms(3) apply_event_legal [of "Some s" ev] by (cases "apply_event (Some s) ev") auto
  have eq: "record_event i ev a dt (Some t) res d = (if t < jr_fence row
      then (Inl (StaleLeaseError (uuid_str i) t (jr_fence row)), d)
      else (Inr st, write_event i ev a (case dt of Some x \<Rightarrow> x | None \<Rightarrow> []) t res st d))"
    using repo_apply_event_eq [OF assms(1) _ st, of a dt "Some t" res] assms(2,4,5)
    by (simp add: record_event_def transaction_def fence_of_def)
  show ?thesis
    using assms(1) fence_table_write [OF assms(1)]
    by (simp add: eq fence_check_def newest_accepted_def Let_def)
qed

theorem fence_refines_FencedWriter_witness:
  "case (fence_check (uuid_str 1) 7 (fence_table demo_db), record_event 1 E_STARTED 1 None (Some 7) None demo_db) of
    ((verdict, w'), (out, d')) \<Rightarrow> verdict = Inr () \<and> fence_table d' = w'"
  using fence_refines_FencedWriter [OF demo_db_row, of S_QUEUED E_STARTED 1 7 None None]
  by (auto simp: submitted_row_def int4_ok_def int8_ok_def demo_running)

end
