(* ===== verification/Idempotency.thy ===== *)
theory Idempotency
  imports KV_Store
begin

text \<open>
  The execution guard: \<^verbatim>\<open>src/orbiter/worker/idempotency.py\<close>, parametric in the store's operations.
  The laws shown, for every store: a claim excludes every other delivery until it is released or
  expires, a done marker answers every later delivery until it expires, only the claiming delivery
  can give its claim back, and a crashed claim frees itself.
\<close>

datatype claim_result = CLAIMED | ALREADY_DONE | IN_PROGRESS

definition done_key :: "string \<Rightarrow> string" where
  "done_key job_id = ''orbiter:exec:'' @ job_id @ '':done''"

definition claim_key :: "string \<Rightarrow> string" where
  "claim_key job_id = ''orbiter:exec:'' @ job_id @ '':claim''"

definition try_claim :: "'s kv_ops \<Rightarrow> real \<Rightarrow> string \<Rightarrow> string \<Rightarrow> 's \<Rightarrow> claim_result \<times> 's" where
  "try_claim kv claim_ttl_s job_id delivery s =
     (let (done, s1) = kv_get kv (done_key job_id) s
      in if done \<noteq> None then (ALREADY_DONE, s1)
         else let (claimed, s2) = kv_set_if_absent kv (claim_key job_id) delivery claim_ttl_s s1
              in if \<not> claimed then (IN_PROGRESS, s2) else (CLAIMED, s2))"

definition mark_done :: "'s kv_ops \<Rightarrow> real \<Rightarrow> string \<Rightarrow> string \<Rightarrow> 's \<Rightarrow> 's" where
  "mark_done kv done_ttl_s job_id delivery s =
     (let s1 = snd (kv_set_if_absent kv (done_key job_id) delivery done_ttl_s s)
      in snd (kv_compare_and_delete kv (claim_key job_id) delivery s1))"

definition release_claim :: "'s kv_ops \<Rightarrow> string \<Rightarrow> string \<Rightarrow> 's \<Rightarrow> 's" where
  "release_claim kv job_id delivery s = snd (kv_compare_and_delete kv (claim_key job_id) delivery s)"

section \<open>Interleavings of guard operations\<close>

datatype guard_op =
    TryClaim string string
  | MarkDone string string
  | ReleaseClaim string string
  | Pass real

text \<open>\<open>guard_run\<close> performs a trace of guard operations by any number of workers and collects the
  answers to the claims, each with the job it was asked for.\<close>

fun guard_run :: "'s kv_ops \<Rightarrow> (real \<Rightarrow> 's \<Rightarrow> 's) \<Rightarrow> real \<Rightarrow> real \<Rightarrow> guard_op list \<Rightarrow> 's \<Rightarrow>
    (string \<times> claim_result) list \<times> 's" where
  "guard_run kv adv cttl dttl [] s = ([], s)"
| "guard_run kv adv cttl dttl (TryClaim j d # xs) s =
     (let (r, s1) = try_claim kv cttl j d s; (rs, s2) = guard_run kv adv cttl dttl xs s1
      in ((j, r) # rs, s2))"
| "guard_run kv adv cttl dttl (MarkDone j d # xs) s = guard_run kv adv cttl dttl xs (mark_done kv dttl j d s)"
| "guard_run kv adv cttl dttl (ReleaseClaim j d # xs) s = guard_run kv adv cttl dttl xs (release_claim kv j d s)"
| "guard_run kv adv cttl dttl (Pass t # xs) s = guard_run kv adv cttl dttl xs (adv t s)"

fun pass_time :: "guard_op \<Rightarrow> real" where
  "pass_time (Pass t) = t"
| "pass_time _ = 0"

lemma done_key_inj [simp]: "done_key j = done_key j' \<longleftrightarrow> j = j'"
  by (simp add: done_key_def)

lemma claim_key_inj [simp]: "claim_key j = claim_key j' \<longleftrightarrow> j = j'"
  by (simp add: claim_key_def)

lemma done_claim_apart [simp]: "done_key j \<noteq> claim_key j'" "claim_key j' \<noteq> done_key j"
proof -
  have "last (done_key j) \<noteq> last (claim_key j')" by (simp add: done_key_def claim_key_def)
  then show "done_key j \<noteq> claim_key j'" "claim_key j' \<noteq> done_key j" by auto
qed

lemma pass_time_sum_nonneg:
  "\<forall>x \<in> set xs. 0 \<le> pass_time x \<Longrightarrow> 0 \<le> sum_list (map pass_time xs)"
  by (rule sum_list_nonneg) auto

context key_value_store
begin

lemma try_claim_result:
  "inv s \<Longrightarrow> fst (try_claim ops ttl j d s) =
     (if held s (done_key j) \<noteq> None then ALREADY_DONE
      else if held s (claim_key j) = None then CLAIMED else IN_PROGRESS)"
  by (auto simp: try_claim_def Let_def split_beta)

lemma try_claim_held:
  "inv s \<Longrightarrow> 0 < ttl \<Longrightarrow> held (snd (try_claim ops ttl j d s)) =
     (if held s (done_key j) = None \<and> held s (claim_key j) = None
      then (held s)(claim_key j \<mapsto> (d, Some (deadline (snd (kv_get ops (done_key j) s)) ttl))) else held s)"
  by (auto simp: try_claim_def Let_def split_beta held_set)

lemma claim_deadline:
  assumes "inv s" "0 < ttl"
  shows "now s + ttl \<le> deadline (snd (kv_get ops k s)) ttl"
    "deadline (snd (kv_get ops k s)) ttl \<le> now s + ttl + 1 / 1000"
  using assms deadline_lower [of "snd (kv_get ops k s)" ttl] deadline_upper [of "snd (kv_get ops k s)" ttl]
  by simp_all

lemma guard_frame [simp]:
  assumes "inv s"
  shows "inv (snd (try_claim ops ttl j d s))" "now (snd (try_claim ops ttl j d s)) = now s"
    "inv (mark_done ops ttl j d s)" "now (mark_done ops ttl j d s) = now s"
    "inv (release_claim ops j d s)" "now (release_claim ops j d s) = now s"
  using assms by (simp_all add: try_claim_def mark_done_def release_claim_def Let_def split_beta)

lemma mark_done_held:
  "inv s \<Longrightarrow> 0 < ttl \<Longrightarrow> held (mark_done ops ttl j d s) =
     (let h = (if held s (done_key j) = None
               then (held s)(done_key j \<mapsto> (d, Some (deadline s ttl))) else held s)
      in if map_option fst (held s (claim_key j)) = Some d then h(claim_key j := None) else h)"
  by (auto simp: mark_done_def Let_def held_set held_cad)

lemma release_claim_held:
  "inv s \<Longrightarrow> held (release_claim ops j d s) =
     (if map_option fst (held s (claim_key j)) = Some d then (held s)(claim_key j := None) else held s)"
  by (simp add: release_claim_def held_cad)

lemma guard_ctr:
  assumes "inv s" "k \<noteq> claim_key j" "k \<noteq> done_key j"
  shows "ctr (snd (try_claim ops ttl j d s)) k = ctr s k" "ctr (mark_done ops ttl j d s) k = ctr s k"
    "ctr (release_claim ops j d s) k = ctr s k"
  using assms by (simp_all add: try_claim_def mark_done_def release_claim_def Let_def split_beta
      ctr_set ctr_cad)

text \<open>A claim that is neither given back nor expired excludes every other claim of its job.\<close>

lemma guard_run_excluded:
  assumes "inv s" "held s (claim_key j) = Some (d, Some e)" "0 < cttl" "0 < dttl"
    "\<forall>x \<in> set xs. 0 \<le> pass_time x" "now s + sum_list (map pass_time xs) < e"
    "MarkDone j d \<notin> set xs" "ReleaseClaim j d \<notin> set xs"
  shows "(j, CLAIMED) \<notin> set (fst (guard_run ops advance cttl dttl xs s)) \<and>
    held (snd (guard_run ops advance cttl dttl xs s)) (claim_key j) = Some (d, Some e)"
  using assms
proof (induction xs arbitrary: s)
  case Nil
  then show ?case by simp
next
  case (Cons x xs)
  have pos: "0 \<le> sum_list (map pass_time xs)"
    using Cons.prems(5) by (intro pass_time_sum_nonneg) simp
  show ?case
  proof (cases x)
    case (TryClaim j' d')
    have "held (snd (try_claim ops cttl j' d' s)) (claim_key j) = Some (d, Some e)"
      using Cons.prems by (auto simp: try_claim_held)
    then show ?thesis
      using Cons.prems Cons.IH [of "snd (try_claim ops cttl j' d' s)"] TryClaim
      by (auto simp: Let_def split_beta try_claim_result split: if_splits)
  next
    case (MarkDone j' d')
    have "held (mark_done ops dttl j' d' s) (claim_key j) = Some (d, Some e)"
      using Cons.prems MarkDone by (auto simp: mark_done_held Let_def)
    then show ?thesis using Cons.prems Cons.IH [of "mark_done ops dttl j' d' s"] MarkDone by simp
  next
    case (ReleaseClaim j' d')
    have "held (release_claim ops j' d' s) (claim_key j) = Some (d, Some e)"
      using Cons.prems ReleaseClaim by (auto simp: release_claim_held)
    then show ?thesis using Cons.prems Cons.IH [of "release_claim ops j' d' s"] ReleaseClaim by simp
  next
    case (Pass t)
    have "held (advance t s) (claim_key j) = Some (d, Some e)"
      using Cons.prems Pass pos by (simp add: held_advance alive_def)
    then show ?thesis using Cons.prems Cons.IH [of "advance t s"] Pass by simp
  qed
qed

text \<open>A done marker answers every claim of its job until it expires; nothing removes it.\<close>

lemma guard_run_done:
  assumes "inv s" "held s (done_key j) = Some (d, Some e)" "0 < cttl" "0 < dttl"
    "\<forall>x \<in> set xs. 0 \<le> pass_time x" "now s + sum_list (map pass_time xs) < e"
  shows "\<forall>(j', r) \<in> set (fst (guard_run ops advance cttl dttl xs s)). j' = j \<longrightarrow> r = ALREADY_DONE"
  using assms
proof (induction xs arbitrary: s)
  case Nil
  then show ?case by simp
next
  case (Cons x xs)
  have pos: "0 \<le> sum_list (map pass_time xs)"
    using Cons.prems(5) by (intro pass_time_sum_nonneg) simp
  show ?case
  proof (cases x)
    case (TryClaim j' d')
    have "held (snd (try_claim ops cttl j' d' s)) (done_key j) = Some (d, Some e)"
      using Cons.prems by (auto simp: try_claim_held)
    then show ?thesis
      using Cons.prems Cons.IH [of "snd (try_claim ops cttl j' d' s)"] TryClaim
      by (auto simp: Let_def split_beta try_claim_result split: if_splits)
  next
    case (MarkDone j' d')
    have "held (mark_done ops dttl j' d' s) (done_key j) = Some (d, Some e)"
      using Cons.prems by (auto simp: mark_done_held Let_def)
    then show ?thesis using Cons.prems Cons.IH [of "mark_done ops dttl j' d' s"] MarkDone by simp
  next
    case (ReleaseClaim j' d')
    have "held (release_claim ops j' d' s) (done_key j) = Some (d, Some e)"
      using Cons.prems by (auto simp: release_claim_held)
    then show ?thesis using Cons.prems Cons.IH [of "release_claim ops j' d' s"] ReleaseClaim by simp
  next
    case (Pass t)
    have "held (advance t s) (done_key j) = Some (d, Some e)"
      using Cons.prems Pass pos by (simp add: held_advance alive_def)
    then show ?thesis using Cons.prems Cons.IH [of "advance t s"] Pass by simp
  qed
qed

text \<open>A claim nobody gives back frees itself: past the deadline a new delivery claims the job.\<close>

lemma claim_expires:
  assumes "inv s" "fst (try_claim ops ttl j d s) = CLAIMED" "0 < ttl" "ttl + 1 / 1000 \<le> t"
  shows "fst (try_claim ops ttl j d' (advance t (snd (try_claim ops ttl j d s)))) = CLAIMED"
proof -
  have free: "held s (done_key j) = None" "held s (claim_key j) = None"
    using assms(1,2)
    by (cases "held s (done_key j)"; cases "held s (claim_key j)"; simp add: try_claim_result)+
  then show ?thesis
    using assms claim_deadline(2) [of s ttl "done_key j"]
    by (auto simp: try_claim_result held_advance try_claim_held alive_def)
qed

end

section \<open>Properties\<close>

text \<open>C18: At most one delivery of a job executes at a time: after a delivery has claimed the job, no
  trace of guard operations by any workers that takes less than the claim's time to live, and in
  which that delivery neither finishes nor gives the claim back, lets another claim of the job
  succeed.\<close>

theorem claim_excludes_other_deliveries:
  assumes "mem_inv m" and "fst (try_claim mem_kv cttl j d m) = CLAIMED" and "0 < cttl" and "0 < dttl"
    and "\<forall>x \<in> set xs. 0 \<le> pass_time x" and "sum_list (map pass_time xs) < cttl"
    and "MarkDone j d \<notin> set xs" and "ReleaseClaim j d \<notin> set xs"
  shows "(j, CLAIMED) \<notin> set (fst (guard_run mem_kv mem_advance cttl dttl xs (snd (try_claim mem_kv cttl j d m))))"
proof -
  let ?m = "snd (try_claim mem_kv cttl j d m)"
  have "mem_held m (done_key j) = None \<and> mem_held m (claim_key j) = None"
    using assms(1,2)
    by (cases "mem_held m (done_key j)"; cases "mem_held m (claim_key j)") (simp_all add: mem.try_claim_result)
  then obtain e where e: "mem_held ?m (claim_key j) = Some (d, Some e)" "mem_now m + cttl \<le> e"
    using assms(1,3) mem.claim_deadline(1) [OF assms(1,3), of "done_key j"] by (auto simp: mem.try_claim_held)
  then show ?thesis
    using mem.guard_run_excluded [OF _ e(1) assms(3,4,5) _ assms(7,8)] assms(1,6) by simp
qed

theorem claim_excludes_other_deliveries_witness:
  "(''j'', CLAIMED) \<notin> set (fst (guard_run mem_kv mem_advance 20 3600
     [Pass 5, TryClaim ''j'' ''w2:2'', Pass 10, ReleaseClaim ''j'' ''w2:2'', TryClaim ''j'' ''w3:3'']
     (snd (try_claim mem_kv 20 ''j'' ''w1:1'' (InMemoryKV (FakeClock 0))))))"
  by (rule claim_excludes_other_deliveries) (simp_all add: mem.try_claim_result)

text \<open>A finished job is never executed again while its done marker lives: after \<open>mark_done\<close>, every
  claim of the job in any trace of guard operations shorter than the marker's time to live is
  answered \<open>ALREADY_DONE\<close>.\<close>

theorem done_marker_answers_every_claim:
  assumes "mem_inv m" and "mem_held m (done_key j) = None" and "0 < cttl" and "0 < dttl"
    and "\<forall>x \<in> set xs. 0 \<le> pass_time x" and "sum_list (map pass_time xs) < dttl"
  shows "\<forall>(j', r) \<in> set (fst (guard_run mem_kv mem_advance cttl dttl xs (mark_done mem_kv dttl j d m))).
    j' = j \<longrightarrow> r = ALREADY_DONE"
proof -
  have marked: "mem_held (mark_done mem_kv dttl j d m) (done_key j) = Some (d, Some (mem_now m + dttl))"
    using assms(1,2,4) by (auto simp: mem.mark_done_held Let_def)
  show ?thesis
    by (rule mem.guard_run_done [OF _ marked assms(3,4,5)]) (simp_all add: assms(1,6))
qed

theorem done_marker_answers_every_claim_witness:
  "fst (guard_run mem_kv mem_advance 20 3600 [Pass 100, TryClaim ''j'' ''w2:2'']
     (mark_done mem_kv 3600 ''j'' ''w1:1'' (InMemoryKV (FakeClock 0)))) = [(''j'', ALREADY_DONE)]"
proof -
  have "\<forall>(j', r) \<in> set (fst (guard_run mem_kv mem_advance 20 3600 [Pass 100, TryClaim ''j'' ''w2:2'']
     (mark_done mem_kv 3600 ''j'' ''w1:1'' (InMemoryKV (FakeClock 0))))). j' = ''j'' \<longrightarrow> r = ALREADY_DONE"
    by (rule done_marker_answers_every_claim) simp_all
  then show ?thesis by (simp add: Let_def split: prod.splits prod.split_asm)
qed

text \<open>A worker that dies in the middle of a job does not wedge it: on any Valkey server that behaves
  as documented, once the claim's time to live and a millisecond have passed, the next delivery
  claims the job.\<close>

theorem crashed_claim_frees_the_job:
  assumes "redis_server c ok now held ctr advance" and "ok s" and "0 < ttl" and "ttl + 1 / 1000 \<le> t"
    and "fst (try_claim (valkey_kv c) ttl j d s) = CLAIMED"
  shows "fst (try_claim (valkey_kv c) ttl j d' (advance t (snd (try_claim (valkey_kv c) ttl j d s)))) = CLAIMED"
  using key_value_store.claim_expires [OF redis_server.valkey_is_store [OF assms(1)] assms(2,5,3,4)] .

theorem crashed_claim_frees_the_job_witness:
  "fst (try_claim (valkey_kv srv_client) 20 ''j'' ''w2:2'' (srv_advance 30
     (snd (try_claim (valkey_kv srv_client) 20 ''j'' ''w1:1'' \<lparr>srv_now = 0, srv_keys = Map.empty\<rparr>)))) = CLAIMED"
  by (rule crashed_claim_frees_the_job [OF ref.redis_server_axioms])
    (simp_all add: srv_inv_def ref.valkey.try_claim_result srv_held_def srv_seen_def)

text \<open>Only the delivery that holds a claim can give it back: a release by any other delivery leaves
  every key of the store as it was.\<close>

theorem release_by_other_delivery_is_noop:
  assumes "mem_inv m" and "mem_held m (claim_key j) = Some (d, e)" and "d' \<noteq> d"
  shows "mem_held (release_claim mem_kv j d' m) = mem_held m"
  using assms by (simp add: mem.release_claim_held)

theorem release_by_other_delivery_is_noop_witness:
  "mem_held (release_claim mem_kv ''j'' ''w2:9'' (snd (try_claim mem_kv 30 ''j'' ''w1:1'' (InMemoryKV (FakeClock 0)))))
    = mem_held (snd (try_claim mem_kv 30 ''j'' ''w1:1'' (InMemoryKV (FakeClock 0))))"
  by (rule release_by_other_delivery_is_noop [where d = "''w1:1''" and e = "Some 30"])
    (simp_all add: mem.try_claim_held mem_now_def InMemoryKV_def FakeClock_def mem_inv_def mem_held_def
      try_claim_def mem_kv_def mem_ops_defs entry_expired_def)

end
