(* ===== verification/Executor.thy ===== *)
theory Executor
  imports Domain Doubles
begin

text \<open>
  The simulation stub: \<^verbatim>\<open>src/orbiter/worker/executor.py\<close>. The random draw is an argument, and so is
  \<^verbatim>\<open>asyncio.sleep\<close>, as a function from the requested time and the instant it is called to the instant
  it returns. The remaining time is counted down in doubles, so every difference is rounded: the slices
  do not add up exactly, and a last sliver may cost one slice more. The lemmas bound both effects
  and show that the loop ends for every duration of up to a thousand seconds, more than the API admits.
\<close>

definition SLICE_S :: real where
  "SLICE_S = fl64 (1 / 10)"

text \<open>\<open>None\<close> is a loop that never ends: from a remaining time of about \<open>2 ^ 51\<close> seconds on, a slice is lost
  in the rounding and nothing is ever subtracted.\<close>

partial_function (option) exec_loop :: "(real \<Rightarrow> real \<Rightarrow> real) \<Rightarrow> real \<Rightarrow> real \<Rightarrow> real option" where
  "exec_loop sleep remaining t =
     (if 0 < remaining
      then (let step = min SLICE_S remaining in exec_loop sleep (fl64 (remaining - step)) (sleep step t))
      else Some t)"

text \<open>Control leaves a loop that never ends only when the event loop is torn down, which raises
  \<^verbatim>\<open>CancelledError\<close> in its \<^verbatim>\<open>await\<close>.\<close>

definition execute ::
    "int \<Rightarrow> pyfloat \<Rightarrow> real \<Rightarrow> (real \<Rightarrow> real \<Rightarrow> real) \<Rightarrow> real \<Rightarrow> (exn + pydict) \<times> real" where
  "execute dur rate draw sleep started =
     (let will_fail = float_lt (Fin draw) rate in
      if \<bar>dur\<bar> \<ge> float_limit then (Inl (Py (OverflowError ''int too large to convert to float'')), started)
      else case exec_loop sleep (fl64 (fl64 (of_int dur) / 1000)) started of
        None \<Rightarrow> (Inl CancelledError, started)
      | Some finished \<Rightarrow>
          let elapsed_ms = (let x = fl64 (fl64 (finished - started) * 1000) in if 0 \<le> x then \<lfloor>x\<rfloor> else \<lceil>x\<rceil>)
          in if will_fail
             then (Inl (SimulatedFailure (''simulated failure after '' @ int_str elapsed_ms @ ''ms'')), finished)
             else (Inr [(''elapsed_ms'', JInt elapsed_ms)], finished))"

section \<open>The slices of a run\<close>

text \<open>The largest rounding error of a difference below 1024.\<close>

definition slice_error :: real where
  "slice_error = 2 powi (-44)"

lemma slice_error: "0 < slice_error" "0 \<le> slice_error" "slice_error \<le> 1 / 10000000000000"
  by (simp_all add: slice_error_def power_int_def power_divide)

declare slice_error(2) [simp]

lemma fl64_slice: "\<bar>x\<bar> < 1024 \<Longrightarrow> \<bar>fl64 x - x\<bar> \<le> slice_error"
  using fl64_error [of x 9] by (simp add: slice_error_def)

lemma SLICE_S_bounds: "\<bar>SLICE_S - 1 / 10\<bar> \<le> slice_error" "2 / 25 < SLICE_S"
proof -
  show "\<bar>SLICE_S - 1 / 10\<bar> \<le> slice_error"
    using fl64_slice [of "1 / 10"] by (simp add: SLICE_S_def)
  moreover have "slice_error \<le> 1 / 10000000000000" by (rule slice_error(3))
  ultimately show "2 / 25 < SLICE_S" by linarith
qed

lemma exec_loop_ends:
  assumes "0 \<le> r" "r < 1024" "r \<le> real n * (SLICE_S - slice_error)"
  shows "\<exists>xs. exec_loop sleep r t = Some (foldl (\<lambda>u d. sleep d u) t xs) \<and> length xs \<le> n \<and>
    (\<forall>x \<in> set xs. 0 < x \<and> x \<le> SLICE_S) \<and> \<bar>sum_list xs - r\<bar> \<le> real n * slice_error"
  using assms
proof (induction n arbitrary: r t)
  case 0
  then have "exec_loop sleep r t = Some t" by (simp add: exec_loop.simps)
  with 0 show ?case by (intro exI [of _ "[]"]) simp
next
  case (Suc n)
  let ?e = "slice_error"
  have pos: "0 < SLICE_S" "?e < SLICE_S" using SLICE_S_bounds(2) slice_error(3) by linarith+
  consider "r = 0" | "0 < r" "r \<le> SLICE_S" | "SLICE_S < r" using Suc.prems(1) by linarith
  then show ?case
  proof cases
    case 1
    then have "exec_loop sleep r t = Some t" by (simp add: exec_loop.simps)
    with 1 show ?thesis by (intro exI [of _ "[]"]) simp
  next
    case 2
    have "exec_loop sleep r t = Some (sleep r t)" using 2 by (subst exec_loop.simps) (simp add: exec_loop.simps [of sleep 0])
    with 2 show ?thesis by (intro exI [of _ "[r]"]) simp
  next
    case 3
    define r' where "r' = fl64 (r - SLICE_S)"
    have err: "\<bar>r' - (r - SLICE_S)\<bar> \<le> ?e" using fl64_slice [of "r - SLICE_S"] 3 Suc.prems(2) pos(1) by (simp add: r'_def)
    have "0 \<le> r'" using 3 by (simp add: r'_def fl64_nonneg)
    moreover have "r' < 1024" using err pos(2) Suc.prems(2) by linarith
    moreover have "r' \<le> real n * (SLICE_S - ?e)"
    proof -
      have "r \<le> (SLICE_S - ?e) + real n * (SLICE_S - ?e)" using Suc.prems(3) unfolding of_nat_Suc distrib_right mult_1 .
      then show ?thesis using abs_le_D1 [OF err] by argo
    qed
    ultimately obtain xs where xs: "exec_loop sleep r' (sleep SLICE_S t) = Some (foldl (\<lambda>u d. sleep d u) (sleep SLICE_S t) xs)"
        "length xs \<le> n" "\<forall>x \<in> set xs. 0 < x \<and> x \<le> SLICE_S" "\<bar>sum_list xs - r'\<bar> \<le> real n * ?e"
      using Suc.IH by blast
    have "exec_loop sleep r t = exec_loop sleep r' (sleep SLICE_S t)"
      using 3 pos(1) by (subst exec_loop.simps) (simp add: r'_def Let_def)
    moreover have "\<bar>sum_list (SLICE_S # xs) - r\<bar> \<le> real (Suc n) * ?e"
      using err xs(4) unfolding of_nat_Suc distrib_right mult_1 sum_list.Cons by linarith
    ultimately show ?thesis using xs(1-3) pos(1) by (intro exI [of _ "SLICE_S # xs"]) auto
  qed
qed

lemma sum_list_le_length: "\<forall>x \<in> set xs. x \<le> (c :: real) \<Longrightarrow> sum_list xs \<le> real (length xs) * c"
  by (induction xs) (auto simp: distrib_right)

lemma exec_loop_duration:
  assumes "0 \<le> dur" "dur \<le> 1000000"
  shows "\<exists>xs. exec_loop sleep (fl64 (fl64 (of_int dur) / 1000)) t = Some (foldl (\<lambda>u d. sleep d u) t xs) \<and>
    length xs \<in> {nat \<lceil>of_int dur / (100 :: real)\<rceil>, nat \<lceil>of_int dur / (100 :: real)\<rceil> + 1} \<and>
    (\<forall>x \<in> set xs. 0 < x \<and> x \<le> SLICE_S) \<and> \<bar>sum_list xs - of_int dur / 1000\<bar> \<le> 1 / 10 ^ 8"
proof -
  let ?e = "slice_error" and ?q = "\<lceil>of_int dur / (100 :: real)\<rceil>" and ?x = "of_int dur / 1000 :: real"
  let ?n = "nat ?q + 1"
  define r where "r = fl64 (fl64 (of_int dur) / 1000)"
  have e: "0 < ?e" "?e \<le> 1 / 10000000000000" by (rule slice_error(1,3))+
  have "fl64 (of_int dur) = of_int dur" using assms by (intro fl64_int) simp
  moreover have x: "0 \<le> ?x" "?x \<le> 1000" using assms by simp_all
  ultimately have r: "\<bar>r - ?x\<bar> \<le> ?e" "0 \<le> r" using fl64_slice [of ?x] by (simp_all add: r_def fl64_nonneg)
  have q: "0 \<le> ?q" "?q \<le> 10000" "10 * ?x \<le> of_int ?q" "of_int ?q \<le> 10 * ?x + 99 / 100"
  proof -
    have dq: "?q = - (- dur div 100)" using ceiling_divide_eq_div [of dur 100] by simp
    then have "dur \<le> 100 * ?q" "100 * ?q \<le> dur + 99" by linarith+
    then have "real_of_int dur \<le> of_int (100 * ?q)" "real_of_int (100 * ?q) \<le> of_int (dur + 99)" by (simp_all only: of_int_le_iff)
    then show "10 * ?x \<le> of_int ?q" "of_int ?q \<le> 10 * ?x + 99 / 100" by simp_all
    show "0 \<le> ?q" "?q \<le> 10000" using assms \<open>100 * ?q \<le> dur + 99\<close> \<open>dur \<le> 100 * ?q\<close> by linarith+
  qed
  have nq: "real ?n = of_int ?q + 1" using q(1) by simp
  have "r < 1024" using r(1) x e(2) by linarith
  moreover have "r \<le> real ?n * (SLICE_S - ?e)"
  proof -
    have "1 / 10 - 2 * ?e \<le> SLICE_S - ?e" using SLICE_S_bounds(1) by linarith
    then have "real ?n * (1 / 10 - 2 * ?e) \<le> real ?n * (SLICE_S - ?e)" by (intro mult_left_mono) simp_all
    moreover have "(of_int ?q + 1) * (2 * ?e) \<le> 10001 * (2 * ?e)" using q(2) by (intro mult_right_mono) simp_all
    moreover have "?x + 20003 * ?e \<le> (of_int ?q + 1) * (1 / 10)" using q(3) e(2) by argo
    ultimately show ?thesis using abs_le_D1 [OF r(1)] unfolding nq right_diff_distrib by argo
  qed
  ultimately obtain xs where xs: "exec_loop sleep r t = Some (foldl (\<lambda>u d. sleep d u) t xs)" "length xs \<le> ?n"
      "\<forall>x \<in> set xs. 0 < x \<and> x \<le> SLICE_S" "\<bar>sum_list xs - r\<bar> \<le> real ?n * ?e"
    using exec_loop_ends [OF r(2), of ?n] by blast
  have "real ?n * ?e \<le> 10001 * ?e" using q(2) by (intro mult_right_mono) (simp_all add: nq)
  then have sum: "\<bar>sum_list xs - ?x\<bar> \<le> 10002 * ?e" using xs(4) r(1) by linarith
  have "of_int ?q - 1 < real (length xs)"
  proof (rule ccontr)
    assume "\<not> of_int ?q - 1 < real (length xs)"
    then have len: "real (length xs) \<le> 10 * ?x - 1 / 100" "real (length xs) \<le> 10000" using q x by linarith+
    have "sum_list xs \<le> real (length xs) * SLICE_S" using xs(3) by (intro sum_list_le_length) simp
    also have "\<dots> \<le> real (length xs) * (1 / 10 + ?e)" using SLICE_S_bounds(1) by (intro mult_left_mono) (simp_all add: abs_le_iff)
    also have "\<dots> \<le> ?x - 1 / 1000 + 10000 * ?e" using len(1) mult_right_mono [OF len(2), of ?e] e(1) unfolding distrib_left by argo
    finally show False using sum e(2) by (simp add: abs_le_iff)
  qed
  then have "nat ?q \<le> length xs" by linarith
  with xs(2) have "length xs = nat ?q \<or> length xs = nat ?q + 1" by linarith
  then have "length xs \<in> {nat ?q, nat ?q + 1}" by blast
  with xs sum e(2) show ?thesis unfolding r_def by (intro exI [of _ xs]) auto
qed

lemma execute_runs:
  assumes "0 \<le> dur" "dur \<le> 1000000"
  obtains finished ms where "exec_loop sleep (fl64 (fl64 (of_int dur) / 1000)) t = Some finished"
    "execute dur rate draw sleep t =
      (if float_lt (Fin draw) rate then Inl (SimulatedFailure (''simulated failure after '' @ int_str ms @ ''ms''))
       else Inr [(''elapsed_ms'', JInt ms)], finished)"
proof -
  obtain finished where f: "exec_loop sleep (fl64 (fl64 (of_int dur) / 1000)) t = Some finished"
    using exec_loop_duration [OF assms, of sleep t] by blast
  have "1000000 < float_limit" by (simp add: float_limit_def)
  then have "\<not> float_limit \<le> \<bar>dur\<bar>" using assms by linarith
  with f show ?thesis by (intro that [OF f]) (simp add: execute_def Let_def)
qed

lemma execute_result: "fst (execute dur rate draw sleep t) = Inr res \<Longrightarrow> \<exists>n. res = [(''elapsed_ms'', JInt n)]"
  by (auto simp: execute_def Let_def split: if_splits option.splits)

lemma foldl_sleep_late:
  fixes sleep :: "real \<Rightarrow> real \<Rightarrow> real"
  assumes "\<And>d u. 0 < d \<Longrightarrow> u + d \<le> sleep d u" and "\<And>x. x \<in> set xs \<Longrightarrow> 0 < x"
  shows "t + sum_list xs \<le> foldl (\<lambda>u d. sleep d u) t xs"
  using assms(2)
proof (induction xs arbitrary: t)
  case (Cons x xs)
  have "t + sum_list (x # xs) \<le> sleep x t + sum_list xs"
    using assms(1) [of x t] Cons.prems [of x] by simp
  also have "\<dots> \<le> foldl (\<lambda>u d. sleep d u) (sleep x t) xs"
    using Cons by simp
  finally show ?case by simp
qed simp

section \<open>Properties\<close>

text \<open>C38: For every duration from zero to a thousand seconds the executor's countdown in doubles ends
  after one slice per started tenth of a second, or one slice more; every slice is positive and at
  most \<^verbatim>\<open>_SLICE_S\<close>, and together they are the duration asked for up to a hundredth of a microsecond.\<close>

theorem execute_slices:
  assumes "0 \<le> dur" and "dur \<le> 1000000"
  shows "\<exists>xs. exec_loop sleep (fl64 (fl64 (of_int dur) / 1000)) t = Some (foldl (\<lambda>u d. sleep d u) t xs) \<and>
    length xs \<in> {nat \<lceil>of_int dur / (100 :: real)\<rceil>, nat \<lceil>of_int dur / (100 :: real)\<rceil> + 1} \<and>
    (\<forall>x \<in> set xs. 0 < x \<and> x \<le> SLICE_S) \<and> \<bar>sum_list xs - of_int dur / 1000\<bar> \<le> 1 / 10 ^ 8"
  using assms by (rule exec_loop_duration)

theorem execute_slices_witness:
  "\<exists>xs. exec_loop (\<lambda>d u. u + d) (fl64 (fl64 (of_int 250) / 1000)) 0 = Some (foldl (\<lambda>u d. u + d) 0 xs) \<and>
     length xs \<in> {3, 4} \<and> \<bar>sum_list xs - 1 / 4\<bar> \<le> 1 / 10 ^ 8"
proof -
  have "nat \<lceil>of_int 250 / (100 :: real)\<rceil> = 3" by (simp add: ceiling_eq_iff)
  then show ?thesis using execute_slices [of 250 "\<lambda>d u. u + d" 0] by auto
qed

text \<open>A run fails exactly when its random draw is below the failure rate, so a rate of zero never
  fails and a rate of one always does for a draw in [0, 1); with a sleep that never returns early,
  it ends no earlier than the duration asked for, up to a hundredth of a microsecond.\<close>

theorem execute_verdict:
  assumes "0 \<le> dur" and "dur \<le> 1000000" and "\<And>d u. 0 < d \<Longrightarrow> u + d \<le> sleep d u"
  shows "case execute dur (Fin rate) draw sleep t of
      (Inl x, t') \<Rightarrow> draw < rate \<and> (\<exists>msg. x = SimulatedFailure msg) \<and> t + of_int dur / 1000 - 1 / 10 ^ 8 \<le> t'
    | (Inr result, t') \<Rightarrow> rate \<le> draw \<and> t + of_int dur / 1000 - 1 / 10 ^ 8 \<le> t'"
proof -
  obtain xs where xs: "exec_loop sleep (fl64 (fl64 (of_int dur) / 1000)) t = Some (foldl (\<lambda>u d. sleep d u) t xs)"
      "\<forall>x \<in> set xs. 0 < x \<and> x \<le> SLICE_S" "\<bar>sum_list xs - of_int dur / 1000\<bar> \<le> 1 / 10 ^ 8"
    using exec_loop_duration [OF assms(1,2), of sleep t] by blast
  have "t + sum_list xs \<le> foldl (\<lambda>u d. sleep d u) t xs" using assms(3) xs(2) by (intro foldl_sleep_late) auto
  with abs_le_D2 [OF xs(3)] have "t + of_int dur / 1000 - 1 / 10 ^ 8 \<le> foldl (\<lambda>u d. sleep d u) t xs" by argo
  with xs(1) show ?thesis by (rule_tac execute_runs [OF assms(1,2), of sleep t "Fin rate" draw]) auto
qed

theorem execute_verdict_witness:
  "case execute 10 (Fin 0) 0 (\<lambda>d u. u + d) 0 of (Inl x, t') \<Rightarrow> False | (Inr result, t') \<Rightarrow> 1 / 100 - 1 / 10 ^ 8 \<le> t'"
  using execute_verdict [of 10 "\<lambda>d u. u + d" 0 0 0] by (auto split: sum.splits prod.splits)

end
