(* ===== verification/Worker.thy ===== *)
theory Worker
  imports History Idempotency Executor Config
begin

text \<open>
  The worker: \<^verbatim>\<open>src/orbiter/worker/main.py\<close>. The coroutine gives up control at every \<^verbatim>\<open>await\<close>; what the
  rest of the system does to the store and the database there is the function \<open>w_others\<close> of the world,
  indexed by the number of awaits so far and otherwise arbitrary. \<open>awaiting\<close> performs one call after
  such an interference; \<open>world_kv\<close> lifts the store's commands in the same way, so the guard and the
  lease manager run with interference before each of their commands. A repository call is one
  transaction, hence one step.

  The broker message is acknowledged, refused or terminated at most once per delivery; the actions
  are recorded in order. Draws of the random generator, the clock and \<^verbatim>\<open>asyncio.sleep\<close> are parameters.
  The store, the database and the broker are taken to answer every call.
\<close>

section \<open>The world of one worker\<close>

datatype msg_action = Ack | Nak real | Term

record js_msg =
  msg_data :: json_text
  msg_headers :: "(string \<times> string) list"
  num_delivered :: int

record 's shared =
  sh_kv :: 's
  sh_db :: db

record 's world =
  w_shared :: "'s shared"
  w_others :: "nat \<Rightarrow> 's shared \<Rightarrow> 's shared"
  w_awaits :: nat
  w_actions :: "msg_action list"
  w_rng :: "nat \<Rightarrow> real"
  w_draws :: nat
  w_now :: real
  w_jobs_completed :: nat
  w_jobs_requeued :: nat
  w_jobs_failed :: nat
  w_durations :: "int list"
  w_shutdown :: bool
  w_died :: "int option"

definition awaiting :: "('s shared \<Rightarrow> 'a \<times> 's shared) \<Rightarrow> 's world \<Rightarrow> 'a \<times> 's world" where
  "awaiting call w =
     (let (r, sh) = call (w_others w (w_awaits w) (w_shared w))
      in (r, w\<lparr>w_shared := sh, w_awaits := Suc (w_awaits w)\<rparr>))"

definition on_kv :: "('s \<Rightarrow> 'a \<times> 's) \<Rightarrow> 's shared \<Rightarrow> 'a \<times> 's shared" where
  "on_kv call sh = (let (r, s) = call (sh_kv sh) in (r, sh\<lparr>sh_kv := s\<rparr>))"

definition on_db :: "(db \<Rightarrow> 'a \<times> db) \<Rightarrow> 's shared \<Rightarrow> 'a \<times> 's shared" where
  "on_db call sh = (let (r, d) = call (sh_db sh) in (r, sh\<lparr>sh_db := d\<rparr>))"

definition world_kv :: "'s kv_ops \<Rightarrow> 's world kv_ops" where
  "world_kv kv = \<lparr>
     kv_get = (\<lambda>k. awaiting (on_kv (kv_get kv k))),
     kv_set_if_absent = (\<lambda>k v ttl. awaiting (on_kv (kv_set_if_absent kv k v ttl))),
     kv_incr = (\<lambda>k. awaiting (on_kv (kv_incr kv k))),
     kv_compare_and_delete = (\<lambda>k v. awaiting (on_kv (kv_compare_and_delete kv k v)))\<rparr>"

definition msg_act :: "msg_action \<Rightarrow> 's world \<Rightarrow> 's world" where
  "msg_act a w =
     (let (_, w1) = awaiting (\<lambda>sh. ((), sh)) w in w1\<lparr>w_actions := w_actions w1 @ [a]\<rparr>)"

definition rng_random :: "'s world \<Rightarrow> real \<times> 's world" where
  "rng_random w = (w_rng w (w_draws w), w\<lparr>w_draws := Suc (w_draws w)\<rparr>)"

definition rng_uniform :: "real \<Rightarrow> real \<Rightarrow> 's world \<Rightarrow> real \<times> 's world" where
  "rng_uniform a b w = (let (x, w1) = rng_random w in (a + (b - a) * x, w1))"

section \<open>\<^verbatim>\<open>handle\<close>\<close>

text \<open>The arguments of \<^verbatim>\<open>execute\<close>, in the order they are evaluated.\<close>

definition exec_args :: "py_runtime \<Rightarrow> pydict \<Rightarrow> exn + int \<times> pyfloat" where
  "exec_args rt payload =
     (case rbind (rbind (dict_item payload ''duration_ms'') py_int) (\<lambda>dur.
           rbind (py_float rt (case dict_get payload ''failure_rate'' of None \<Rightarrow> JFloat (Fin 0) | Some v \<Rightarrow> v))
             (\<lambda>rate. Inr (dur, rate))) of
        Inl e \<Rightarrow> Inl (Py e) | Inr x \<Rightarrow> Inr x)"

definition run_execute :: "(real \<Rightarrow> real \<Rightarrow> real) \<Rightarrow> int \<Rightarrow> pyfloat \<Rightarrow> 's world \<Rightarrow> (exn + pydict) \<times> 's world" where
  "run_execute sleep dur rate w =
     (let (draw, w1) = rng_random w;
          (r, finished) = execute dur rate draw sleep (w_now w1);
          (_, w2) = awaiting (\<lambda>sh. ((), sh)) w1
      in (r, w2\<lparr>w_now := finished\<rparr>))"

definition complete_job ::
    "'s kv_ops \<Rightarrow> settings \<Rightarrow> uuid \<Rightarrow> int \<Rightarrow> string \<Rightarrow> lease \<Rightarrow> pydict \<Rightarrow> 's world \<Rightarrow> (exn + unit) \<times> 's world" where
  "complete_job kv cfg i attempt delivery l result w =
     (let (completed, w1) =
        awaiting (on_db (record_event i E_COMPLETED attempt None (Some (lease_token l)) (Some result))) w in
      case completed of
        Inl e \<Rightarrow> (Inl e, w1)
      | Inr _ \<Rightarrow>
      let w2 = mark_done (world_kv kv) (of_int (exec_guard_ttl_s cfg)) (uuid_str i) delivery w1;
          w3 = msg_act Ack w2;
          w4 = w3\<lparr>w_jobs_completed := w_jobs_completed w3 + 1\<rparr> in
      case dict_item result ''elapsed_ms'' of
        Inl e \<Rightarrow> (Inl (Py e), w4)
      | Inr (JInt elapsed) \<Rightarrow> (Inr (), w4\<lparr>w_durations := w_durations w4 @ [elapsed]\<rparr>)
      | Inr _ \<Rightarrow> (Inr (), w4))"

definition try_job ::
    "'s kv_ops \<Rightarrow> py_runtime \<Rightarrow> (real \<Rightarrow> real \<Rightarrow> real) \<Rightarrow> settings \<Rightarrow> uuid \<Rightarrow> pydict \<Rightarrow> int \<Rightarrow> string \<Rightarrow> lease \<Rightarrow>
       's world \<Rightarrow> (exn + unit) \<times> 's world" where
  "try_job kv rt sleep cfg i payload attempt delivery l w =
     (let (started, w1) = awaiting (on_db (record_event i E_STARTED attempt None (Some (lease_token l)) None)) w in
      case started of
        Inl e \<Rightarrow> (Inl e, w1)
      | Inr _ \<Rightarrow>
      case exec_args rt payload of
        Inl e \<Rightarrow> (Inl e, w1)
      | Inr (dur, rate) \<Rightarrow>
      let (executed, w2) = run_execute sleep dur rate w1 in
      case executed of
        Inl e \<Rightarrow> (Inl e, w2)
      | Inr result \<Rightarrow> complete_job kv cfg i attempt delivery l result w2)"

definition except_job ::
    "'s kv_ops \<Rightarrow> settings \<Rightarrow> uuid \<Rightarrow> int \<Rightarrow> string \<Rightarrow> lease \<Rightarrow> exn \<Rightarrow> 's world \<Rightarrow> (exn + unit) \<times> 's world" where
  "except_job kv cfg i attempt delivery l e w =
     (case e of
        SimulatedFailure text \<Rightarrow>
          if attempt < max_deliver cfg
          then (let (recorded, w1) = awaiting (on_db (record_event i E_REQUEUED attempt
                      (Some [(''error'', JStr text)]) (Some (lease_token l)) None)) w in
                case recorded of
                  Inl e' \<Rightarrow> (Inl e', w1)
                | Inr _ \<Rightarrow>
                    let w2 = release_claim (world_kv kv) (uuid_str i) delivery w1;
                        w3 = msg_act (Nak (min (2 powi attempt) 30)) w2
                    in (Inr (), w3\<lparr>w_jobs_requeued := w_jobs_requeued w3 + 1\<rparr>))
          else (let (recorded, w1) = awaiting (on_db (record_event i E_FAILED attempt
                      (Some [(''error'', JStr text), (''reason'', JStr ''retries exhausted'')])
                      (Some (lease_token l)) None)) w in
                case recorded of
                  Inl e' \<Rightarrow> (Inl e', w1)
                | Inr _ \<Rightarrow>
                    let w2 = release_claim (world_kv kv) (uuid_str i) delivery w1;
                        w3 = msg_act Term w2
                    in (Inr (), w3\<lparr>w_jobs_failed := w_jobs_failed w3 + 1\<rparr>))
      | StaleLeaseError _ _ _ \<Rightarrow> (Inr (), w)
      | IllegalTransition _ _ \<Rightarrow>
          (let w1 = release_claim (world_kv kv) (uuid_str i) delivery w in (Inr (), msg_act Term w1))
      | _ \<Rightarrow> (Inl e, w))"

definition handle ::
    "'s kv_ops \<Rightarrow> py_runtime \<Rightarrow> (real \<Rightarrow> real \<Rightarrow> real) \<Rightarrow> settings \<Rightarrow> string \<Rightarrow> uuid \<Rightarrow> json \<Rightarrow> int \<Rightarrow> string \<Rightarrow>
       's world \<Rightarrow> (exn + unit) \<times> 's world" where
  "handle kv rt sleep cfg worker_id i payload attempt delivery w =
     (case payload of
        JObj p \<Rightarrow>
          if py_truthy (dict_get_none p ''poison'') then (Inr (), msg_act (Nak (1 / 2)) w)
          else
            let (claim, w1) = try_claim (world_kv kv) (of_int (lease_ttl_s cfg)) (uuid_str i) delivery w in
            (case claim of
               ALREADY_DONE \<Rightarrow> (Inr (), msg_act Ack w1)
             | IN_PROGRESS \<Rightarrow> (let (delay, w2) = rng_uniform 4 9 w1 in (Inr (), msg_act (Nak delay) w2))
             | CLAIMED \<Rightarrow>
                 let (got, w2) = acquire (world_kv kv) (of_int (lease_ttl_s cfg)) (uuid_str i) worker_id w1 in
                 (case got of
                    None \<Rightarrow>
                      (let w3 = release_claim (world_kv kv) (uuid_str i) delivery w2;
                           (delay, w4) = rng_uniform 4 9 w3
                       in (Inr (), msg_act (Nak delay) w4))
                  | Some l \<Rightarrow>
                      let (tried, w3) = try_job kv rt sleep cfg i p attempt delivery l w2;
                          (out, w4) = (case tried of
                             Inr _ \<Rightarrow> (Inr (), w3)
                           | Inl e \<Rightarrow> except_job kv cfg i attempt delivery l e w3)
                      in (out, snd (release (world_kv kv) l w4))))
      | _ \<Rightarrow> (Inl (Py (AttributeError ''get'')), w))"

section \<open>\<^verbatim>\<open>process\<close>, \<^verbatim>\<open>run\<close> and the signal handlers\<close>

definition process ::
    "'s kv_ops \<Rightarrow> 'c otel \<Rightarrow> py_runtime \<Rightarrow> (real \<Rightarrow> real \<Rightarrow> real) \<Rightarrow> settings \<Rightarrow> string \<Rightarrow> js_msg \<Rightarrow>
       's world \<Rightarrow> (exn + unit) \<times> 's world" where
  "process kv tel rt sleep cfg worker_id msg w =
     (case json_loads (msg_data msg) of
        Inl e \<Rightarrow> (Inl (Py e), w)
      | Inr data \<Rightarrow>
      case rbind (json_item data ''job_id'') uuid_of_json of
        Inl e \<Rightarrow> (Inl (Py e), w)
      | Inr i \<Rightarrow>
      case json_item data ''payload'' of
        Inl e \<Rightarrow> (Inl (Py e), w)
      | Inr payload \<Rightarrow>
      let attempt = num_delivered msg;
          delivery = worker_id @ '':'' @ int_str attempt in
      case context_from tel rt (if msg_headers msg = [] then JNull
             else JObj (map (\<lambda>(k, v). (k, JStr v)) (msg_headers msg))) of
        Inl e \<Rightarrow> (Inl e, w)
      | Inr ctx \<Rightarrow> handle kv rt sleep cfg worker_id i payload attempt delivery w)"

definition request_shutdown :: "'s world \<Rightarrow> 's world" where
  "request_shutdown w = w\<lparr>w_shutdown := True\<rparr>"

definition on_chaos_message :: "'s world \<Rightarrow> 's world" where
  "on_chaos_message w = w\<lparr>w_died := Some 1\<rparr>"

text \<open>
  The fetch loop, over what the broker and the signals do: each round is the arrival of a signal
  (or none) before the test of the shutdown event, and the outcome of the fetch, \<open>Inr None\<close> for a timeout;
  any other exception of the fetch ends the loop.
\<close>

fun process_all ::
    "'s kv_ops \<Rightarrow> 'c otel \<Rightarrow> py_runtime \<Rightarrow> (real \<Rightarrow> real \<Rightarrow> real) \<Rightarrow> settings \<Rightarrow> string \<Rightarrow> js_msg list \<Rightarrow>
       's world \<Rightarrow> (exn + unit) \<times> 's world" where
  "process_all kv tel rt sleep cfg worker_id [] w = (Inr (), w)"
| "process_all kv tel rt sleep cfg worker_id (m # ms) w =
     (case process kv tel rt sleep cfg worker_id m w of
        (Inl e, w1) \<Rightarrow> (Inl e, w1)
      | (Inr _, w1) \<Rightarrow> process_all kv tel rt sleep cfg worker_id ms w1)"

fun worker_run ::
    "'s kv_ops \<Rightarrow> 'c otel \<Rightarrow> py_runtime \<Rightarrow> (real \<Rightarrow> real \<Rightarrow> real) \<Rightarrow> settings \<Rightarrow> string \<Rightarrow>
       (bool \<times> (exn + js_msg list option)) list \<Rightarrow> 's world \<Rightarrow> (exn + unit) \<times> 's world" where
  "worker_run kv tel rt sleep cfg worker_id [] w = (Inr (), w)"
| "worker_run kv tel rt sleep cfg worker_id ((sigterm, fetched) # rounds) w =
     (let w1 = (if sigterm then request_shutdown w else w) in
      if w_shutdown w1 then (Inr (), w1)
      else case fetched of
             Inl e \<Rightarrow> (Inl e, w1)
           | Inr None \<Rightarrow> worker_run kv tel rt sleep cfg worker_id rounds w1
           | Inr (Some msgs) \<Rightarrow>
               (case process_all kv tel rt sleep cfg worker_id msgs w1 of
                  (Inl e, w2) \<Rightarrow> (Inl e, w2)
                | (Inr _, w2) \<Rightarrow> worker_run kv tel rt sleep cfg worker_id rounds w2))"

section \<open>What every store operation of the worker keeps\<close>

text \<open>The interface the guard and the lease manager need for frame reasoning: a property that each
  of the store's commands keeps is kept by each of their operations.\<close>

locale kv_frame =
  fixes ops :: "'s kv_ops" and P :: "'s \<Rightarrow> bool"
  assumes get_keeps: "P s \<Longrightarrow> P (snd (kv_get ops k s))"
    and set_keeps: "P s \<Longrightarrow> P (snd (kv_set_if_absent ops k v ttl s))"
    and incr_keeps: "P s \<Longrightarrow> P (snd (kv_incr ops k s))"
    and cad_keeps: "P s \<Longrightarrow> P (snd (kv_compare_and_delete ops k v s))"
begin

lemma guard_keeps:
  assumes "P s"
  shows "P (snd (try_claim ops ttl j d s))" "P (mark_done ops ttl j d s)" "P (release_claim ops j d s)"
  using assms by (simp_all add: try_claim_def mark_done_def release_claim_def Let_def split_beta
      get_keeps set_keeps cad_keeps)

lemma lease_keeps:
  assumes "P s"
  shows "P (snd (acquire ops ttl r h s))" "P (snd (release ops l s))"
  using assms by (simp_all add: acquire_def release_def Let_def split_beta incr_keeps set_keeps cad_keeps)

end

text \<open>The same for the worker: a property of the shared state and the others that pauses, store commands
  and recorded events keep is kept by the handling of a delivery, on every path.\<close>

locale worker_frame = kv_frame "world_kv kv" P for kv :: "'s kv_ops" and P :: "'s world \<Rightarrow> bool" +
  assumes irrelevant: "P w \<Longrightarrow> w_shared w' = w_shared w \<Longrightarrow> w_others w' = w_others w \<Longrightarrow> P w'"
    and pause_keeps: "P w \<Longrightarrow> P (snd (awaiting (\<lambda>sh. ((), sh)) w))"
    and record_keeps: "P w \<Longrightarrow> ev \<in> {E_STARTED, E_COMPLETED, E_FAILED, E_REQUEUED, E_DEAD_LETTERED} \<Longrightarrow>
      P (snd (awaiting (on_db (record_event i ev a dt ft res)) w))"
begin

lemma upd_keeps:
  assumes "P w"
  shows "P (w\<lparr>w_actions := x1\<rparr>)" "P (w\<lparr>w_now := x2\<rparr>)" "P (w\<lparr>w_draws := x3\<rparr>)" "P (w\<lparr>w_jobs_completed := x4\<rparr>)"
    "P (w\<lparr>w_jobs_requeued := x5\<rparr>)" "P (w\<lparr>w_jobs_failed := x6\<rparr>)" "P (w\<lparr>w_durations := x7\<rparr>)"
    "P (w\<lparr>w_shutdown := x8\<rparr>)"
  by (rule irrelevant [OF assms]; simp)+

lemma local_keeps:
  assumes "P w"
  shows "P (msg_act a w)" "P (snd (rng_uniform lo hi w))" "P (snd (run_execute sleep dur rate w))"
  using assms pause_keeps upd_keeps
  by (simp_all add: msg_act_def rng_uniform_def rng_random_def run_execute_def split_beta Let_def)

lemmas keeps = local_keeps record_keeps guard_keeps lease_keeps upd_keeps

lemma complete_job_keeps: "P w \<Longrightarrow> P (snd (complete_job kv cfg i attempt delivery l result w))"
  by (simp add: complete_job_def Let_def split_beta keeps split: sum.splits json.splits)

lemma try_job_keeps: "P w \<Longrightarrow> P (snd (try_job kv rt sleep cfg i p attempt delivery l w))"
  by (simp add: try_job_def Let_def split_beta keeps complete_job_keeps split: sum.splits)

lemma except_job_keeps: "P w \<Longrightarrow> P (snd (except_job kv cfg i attempt delivery l e w))"
  by (cases e) (simp_all add: except_job_def Let_def split_beta keeps split: sum.splits)

lemma handle_keeps: "P w \<Longrightarrow> P (snd (handle kv rt sleep cfg wid i payload attempt delivery w))"
  by (simp add: handle_def Let_def split_beta keeps try_job_keeps except_job_keeps
      split: sum.splits json.splits claim_result.splits option.splits)

lemma process_keeps: "P w \<Longrightarrow> P (snd (process kv tel rt sleep cfg wid msg w))"
  by (simp add: process_def Let_def handle_keeps split: sum.splits)

lemma process_all_keeps: "P w \<Longrightarrow> P (snd (process_all kv tel rt sleep cfg wid msgs w))"
proof (induction msgs arbitrary: w)
  case (Cons m ms)
  then show ?case using process_keeps [OF Cons.prems, of tel rt sleep cfg wid m] by (auto split: prod.splits sum.splits)
qed simp

lemma worker_run_keeps: "P w \<Longrightarrow> P (snd (worker_run kv tel rt sleep cfg wid rounds w))"
proof (induction rounds arbitrary: w)
  case (Cons r rs)
  obtain sigterm fetched where r: "r = (sigterm, fetched)" by fastforce
  let ?w = "if sigterm then request_shutdown w else w"
  have "P ?w" using Cons.prems upd_keeps(8) by (simp add: request_shutdown_def)
  then show ?case
    using Cons.IH process_all_keeps [of ?w tel rt sleep cfg wid]
    by (auto simp: r Let_def split: option.splits prod.splits sum.splits) (metis snd_conv)+
qed simp

end

text \<open>The worker's own part of the world: no store command touches it.\<close>

definition own where
  "own w = (w_others w, w_actions w, w_rng w, w_draws w, w_now w,
     (w_jobs_completed w, w_jobs_requeued w, w_jobs_failed w, w_durations w, w_shutdown w, w_died w))"

lemma own_awaiting [simp]: "own (snd (awaiting call w)) = own w"
  by (simp add: awaiting_def own_def split_beta Let_def)

interpretation own_frame: kv_frame "world_kv kv" "\<lambda>w. own w = x" for kv x
  by unfold_locales (simp_all add: world_kv_def)

lemmas own_kv = own_frame.guard_keeps [OF refl] own_frame.lease_keeps [OF refl]

lemma own_actions: "own w = own w' \<Longrightarrow> w_actions w = w_actions w'"
  and own_others: "own w = own w' \<Longrightarrow> w_others w = w_others w'"
  by (simp_all add: own_def)

lemma actions_simps [simp]:
  "w_actions (snd (awaiting call w)) = w_actions w"
  "w_actions (msg_act a w) = w_actions w @ [a]"
  "w_actions (snd (rng_uniform lo hi w)) = w_actions w"
  "w_actions (snd (run_execute sleep dur rate w)) = w_actions w"
  by (simp_all add: awaiting_def msg_act_def rng_uniform_def rng_random_def run_execute_def split_beta Let_def)

lemma actions_kv [simp]:
  "w_actions (snd (try_claim (world_kv kv) ttl j d w)) = w_actions w"
  "w_actions (mark_done (world_kv kv) ttl j d w) = w_actions w"
  "w_actions (release_claim (world_kv kv) j d w) = w_actions w"
  "w_actions (snd (acquire (world_kv kv) ttl r h w)) = w_actions w"
  "w_actions (snd (release (world_kv kv) l w)) = w_actions w"
  by (rule own_actions, rule own_kv)+

section \<open>The database as the worker and the others move it\<close>

text \<open>The rest of the system moves the database only by transactions; \<open>following d\<close> says that the
  database has come from \<open>d\<close> by transactions, and that the others keep to that.\<close>

definition rely_db :: "'s world \<Rightarrow> bool" where
  "rely_db w \<longleftrightarrow> (\<forall>n sh. db_steps (sh_db sh) (sh_db (w_others w n sh)))"

definition world_db :: "'s world \<Rightarrow> db" where
  "world_db w = sh_db (w_shared w)"

definition following :: "db \<Rightarrow> 's world \<Rightarrow> bool" where
  "following d w \<longleftrightarrow> rely_db w \<and> db_steps d (world_db w)"

lemma following_awaiting:
  assumes "following d w" "\<And>sh. db_steps (sh_db sh) (sh_db (snd (call sh)))"
  shows "following d (snd (awaiting call w))"
  using assms rtranclp_trans [of db_step]
  by (simp add: following_def rely_db_def world_db_def awaiting_def split_beta Let_def) (meson rtranclp_trans)

lemma on_kv_db [simp]: "sh_db (snd (on_kv call sh)) = sh_db sh"
  by (simp add: on_kv_def split_beta Let_def)

interpretation follow: worker_frame kv "following d" for kv d
proof (unfold_locales, goal_cases)
  case (7 w ev i a dt ft res)
  show ?case
  proof (rule following_awaiting [OF 7(1)])
    show "db_steps (sh_db sh) (sh_db (snd (on_db (record_event i ev a dt ft res) sh)))" for sh
      using db_step.recording [OF 7(2)] by (simp add: on_db_def split_beta Let_def r_into_rtranclp)
  qed
next
  case (5 w w')
  then show ?case by (simp add: following_def rely_db_def world_db_def)
qed (simp_all add: world_kv_def following_awaiting)

text \<open>Every store whose invariant the others keep stays in its invariant.\<close>

definition kv_ok :: "('s \<Rightarrow> bool) \<Rightarrow> 's world \<Rightarrow> bool" where
  "kv_ok ok w \<longleftrightarrow> ok (sh_kv (w_shared w)) \<and> (\<forall>n sh. ok (sh_kv sh) \<longrightarrow> ok (sh_kv (w_others w n sh)))"

sublocale key_value_store \<subseteq> worker: worker_frame ops "kv_ok inv"
proof (unfold_locales, goal_cases)
  case (5 w w')
  then show ?case by (simp add: kv_ok_def)
qed (simp_all add: world_kv_def kv_ok_def awaiting_def on_kv_def on_db_def split_beta Let_def)

section \<open>What a delivery does to its message\<close>

lemma run_execute_fst:
  "fst (run_execute sleep dur rate w) = fst (execute dur rate (w_rng w (w_draws w)) sleep (w_now w))"
  by (simp add: run_execute_def rng_random_def split_beta Let_def)

lemma recorded_row:
  assumes "fst (awaiting (on_db (record_event i ev a dt ft res)) w) = Inr st"
  shows "\<exists>row. find_job i (world_db (snd (awaiting (on_db (record_event i ev a dt ft res)) w))) = Some row \<and>
    jr_state row = job_state_value st \<and> st = state_after ev"
proof -
  let ?d = "sh_db (w_others w (w_awaits w) (w_shared w))"
  obtain out d' where run: "record_event i ev a dt ft res ?d = (out, d')" by fastforce
  then have "out = Inr st" "world_db (snd (awaiting (on_db (record_event i ev a dt ft res)) w)) = d'"
    using assms by (simp_all add: awaiting_def on_db_def world_db_def split_beta Let_def)
  with run show ?thesis
    by (cases rule: record_event_cases) (auto simp: find_job_written dest: lifecycle_state_after)
qed

text \<open>A job recorded as completed is still completed after the guard and the message are dealt with.\<close>

lemma completed_ending:
  assumes "following d w" "history_inv d"
    "fst (awaiting (on_db (record_event i E_COMPLETED a dt ft res)) w) = Inr st"
    "w1 = snd (awaiting (on_db (record_event i E_COMPLETED a dt ft res)) w)" "following (world_db w1) w2"
  shows "\<exists>row. find_job i (world_db w2) = Some row \<and> jr_state row = job_state_value S_SUCCEEDED"
proof -
  obtain row where row: "find_job i (world_db w1) = Some row" "jr_state row = job_state_value S_SUCCEEDED"
    using recorded_row [OF assms(3)] assms(4) by auto
  have "following d w1" using assms(1,4) by (simp add: follow.keeps)
  then have "history_inv (world_db w1)" using assms(2) history_inv_steps by (auto simp: following_def)
  with terminal_row_stays [OF _ _ row] assms(5) row(2) show ?thesis
    by (auto simp: following_def is_terminal_def TERMINAL_STATES_def)
qed

text \<open>The body either ends with an acknowledgement and a completed job, or raises before any action.\<close>

lemma complete_job_cases:
  assumes "following d w" "history_inv d" "complete_job kv cfg i attempt delivery l [(''elapsed_ms'', JInt n)] w = (out, w')"
  obtains (raised) e where "out = Inl e" "w_actions w' = w_actions w"
    | (completed) row where "out = Inr ()" "w_actions w' = w_actions w @ [Ack]"
        "find_job i (world_db w') = Some row" "jr_state row = job_state_value S_SUCCEEDED"
proof -
  let ?comp = "awaiting (on_db (record_event i E_COMPLETED attempt None (Some (lease_token l))
     (Some [(''elapsed_ms'', JInt n)]))) w"
  show ?thesis
  proof (cases "fst ?comp")
    case (Inl e)
    with assms(3) have "out = Inl e" "w_actions w' = w_actions w"
      by (auto simp: complete_job_def split_beta Let_def)
    then show ?thesis by (rule raised)
  next
    case comp: (Inr st)
    let ?w3 = "msg_act Ack (mark_done (world_kv kv) (of_int (exec_guard_ttl_s cfg)) (uuid_str i) delivery (snd ?comp))"
    have out: "out = Inr ()" "w_actions w' = w_actions w @ [Ack]" "world_db w' = world_db ?w3"
      using assms(3) comp by (auto simp: complete_job_def split_beta Let_def dict_item_def world_db_def)
    have "rely_db (snd ?comp)" using follow.record_keeps [OF assms(1)] by (simp add: following_def)
    then have "following (world_db (snd ?comp)) (snd ?comp)" by (simp add: following_def)
    then have "following (world_db (snd ?comp)) ?w3"
      by (rule follow.local_keeps(1) [OF follow.guard_keeps(2)])
    from completed_ending [OF assms(1,2) comp refl this] out completed show ?thesis by auto
  qed
qed

lemma try_job_cases:
  assumes "following d w" "history_inv d" "try_job kv rt sleep cfg i p attempt delivery l w = (out, w')"
  obtains (raised) e where "out = Inl e" "w_actions w' = w_actions w"
    | (completed) row where "out = Inr ()" "w_actions w' = w_actions w @ [Ack]"
        "find_job i (world_db w') = Some row" "jr_state row = job_state_value S_SUCCEEDED"
proof -
  let ?start = "awaiting (on_db (record_event i E_STARTED attempt None (Some (lease_token l)) None)) w"
  let ?exec = "\<lambda>dr. run_execute sleep (fst dr) (snd dr) (snd ?start)"
  consider (ran) dr res where "fst (?exec dr) = Inr res" "complete_job kv cfg i attempt delivery l res (snd (?exec dr)) = (out, w')"
    | (stopped) e where "out = Inl e" "w_actions w' = w_actions w"
    using assms(3)
    by (cases "fst ?start"; cases "exec_args rt p") (auto simp: try_job_def split_beta Let_def split: sum.splits)
  then show ?thesis
  proof cases
    case (ran dr res)
    obtain n where n: "res = [(''elapsed_ms'', JInt n)]" using ran(1) execute_result by (metis run_execute_fst)
    have "following d (snd (?exec dr))" using assms(1) by (simp add: follow.keeps)
    from this assms(2) ran(2) [unfolded n] show ?thesis
      by (cases rule: complete_job_cases) (auto intro: that)
  qed (rule raised)
qed

lemma except_job_actions:
  "\<exists>a. w_actions (snd (except_job kv cfg i attempt delivery l e w)) = w_actions w @ a \<and> length a \<le> 1 \<and> Ack \<notin> set a"
  by (cases e) (simp_all add: except_job_def Let_def split_beta split: sum.splits)

lemma handle_leased:
  assumes "\<not> py_truthy (dict_get_none p ''poison'')"
    "try_claim (world_kv kv) (of_int (lease_ttl_s cfg)) (uuid_str i) delivery w = (CLAIMED, w1)"
    "acquire (world_kv kv) (of_int (lease_ttl_s cfg)) (uuid_str i) wid w1 = (Some l, w2)"
    "try_job kv rt sleep cfg i p attempt delivery l w2 = (tried, w3)"
    "(case tried of Inr _ \<Rightarrow> (Inr (), w3) | Inl e \<Rightarrow> except_job kv cfg i attempt delivery l e w3) = (out, w4)"
  shows "handle kv rt sleep cfg wid i (JObj p) attempt delivery w = (out, snd (release (world_kv kv) l w4))"
  using assms by (simp add: handle_def)

text \<open>The ways a delivery can be handled.\<close>

lemma handle_cases:
  obtains
    (malformed) "handle kv rt sleep cfg wid i payload attempt delivery w = (Inl (Py (AttributeError ''get'')), w)"
  | (poison) "handle kv rt sleep cfg wid i payload attempt delivery w = (Inr (), msg_act (Nak (1 / 2)) w)"
  | (answered) w1 where
      "try_claim (world_kv kv) (of_int (lease_ttl_s cfg)) (uuid_str i) delivery w = (ALREADY_DONE, w1)"
      "handle kv rt sleep cfg wid i payload attempt delivery w = (Inr (), msg_act Ack w1)"
  | (busy) w1 delay where "w_actions w1 = w_actions w"
      "handle kv rt sleep cfg wid i payload attempt delivery w = (Inr (), msg_act (Nak delay) w1)"
  | (leased) p w1 l w2 where "payload = JObj p" "\<not> py_truthy (dict_get_none p ''poison'')"
      "try_claim (world_kv kv) (of_int (lease_ttl_s cfg)) (uuid_str i) delivery w = (CLAIMED, w1)"
      "acquire (world_kv kv) (of_int (lease_ttl_s cfg)) (uuid_str i) wid w1 = (Some l, w2)"
proof (cases "\<exists>p. payload = JObj p \<and> \<not> py_truthy (dict_get_none p ''poison'')")
  case False
  then show ?thesis
    by (cases payload) (use malformed poison in \<open>auto simp: handle_def\<close>)
next
  case True
  then obtain p where p: "payload = JObj p" "\<not> py_truthy (dict_get_none p ''poison'')" by blast
  obtain claim w1 where tc: "try_claim (world_kv kv) (of_int (lease_ttl_s cfg)) (uuid_str i) delivery w = (claim, w1)"
    by fastforce
  then have acts1: "w_actions w1 = w_actions w" using actions_kv(1) by (metis snd_conv)
  show ?thesis
  proof (cases claim)
    case ALREADY_DONE
    with tc p show ?thesis by (intro answered) (simp_all add: handle_def)
  next
    case IN_PROGRESS
    with tc p show ?thesis
      by (intro busy [of "snd (rng_uniform 4 9 w1)"]) (simp_all add: handle_def acts1 split_beta)
  next
    case CLAIMED
    obtain got w2 where ac: "acquire (world_kv kv) (of_int (lease_ttl_s cfg)) (uuid_str i) wid w1 = (got, w2)"
      by fastforce
    then have acts2: "w_actions w2 = w_actions w" using actions_kv(4) acts1 by (metis snd_conv)
    show ?thesis
    proof (cases got)
      case None
      with CLAIMED tc p ac show ?thesis
        by (intro busy [of "snd (rng_uniform 4 9 (release_claim (world_kv kv) (uuid_str i) delivery w2))"])
          (simp_all add: handle_def acts2 split_beta Let_def)
    qed (use CLAIMED tc p ac leased in auto)
  qed
qed

context key_value_store
begin

lemma handle_releases:
  assumes "kv_ok inv w" "\<not> py_truthy (dict_get_none p ''poison'')"
    "try_claim (world_kv ops) (of_int (lease_ttl_s cfg)) (uuid_str i) delivery w = (CLAIMED, w1)"
    "acquire (world_kv ops) (of_int (lease_ttl_s cfg)) (uuid_str i) wid w1 = (Some l, w2)"
  shows "map_option fst (held (sh_kv (w_shared (snd (handle ops rt sleep cfg wid i (JObj p) attempt delivery w))))
      (lease_key (lease_resource l))) \<noteq> Some (lease_text (lease_holder l) (lease_token l))"
proof -
  obtain tried w3 where tr: "try_job ops rt sleep cfg i p attempt delivery l w2 = (tried, w3)" by fastforce
  obtain out w4 where ex: "(case tried of Inr _ \<Rightarrow> (Inr (), w3)
      | Inl e \<Rightarrow> except_job ops cfg i attempt delivery l e w3) = (out, w4)" by fastforce
  have "kv_ok inv w3"
    using worker.try_job_keeps worker.lease_keeps(1) worker.guard_keeps(1) assms(1,3,4) tr by (metis snd_conv)
  then have "kv_ok inv w4" using ex worker.except_job_keeps by (cases tried) (auto, metis snd_conv)
  then have "inv (sh_kv (w_others w4 (w_awaits w4) (w_shared w4)))" by (simp add: kv_ok_def)
  then show ?thesis
    unfolding handle_leased [OF assms(2-4) tr ex]
    by (auto simp: release_def world_kv_def awaiting_def on_kv_def split_beta Let_def held_cad)
qed

end

section \<open>Interference during the execution only\<close>

text \<open>\<open>world_at w sh n\<close> is the world \<open>w\<close> with shared state \<open>sh\<close> before its \<open>n\<close>-th await. When the others act at
  one await \<open>k\<close> only, the operations before and after it are the plain ones on the shared state.\<close>

definition world_at :: "'s world \<Rightarrow> 's shared \<Rightarrow> nat \<Rightarrow> 's world" where
  "world_at w sh n = w\<lparr>w_shared := sh, w_awaits := n\<rparr>"

definition only_during :: "nat \<Rightarrow> ('s shared \<Rightarrow> 's shared) \<Rightarrow> 's world \<Rightarrow> bool" where
  "only_during k f w \<longleftrightarrow> w_others w = (\<lambda>n sh. if n = k then f sh else sh)"

lemma at_start: "w = world_at w (w_shared w) (w_awaits w)"
  by (simp add: world_at_def)

lemma at_simps [simp]:
  "w_shared (world_at w sh n) = sh" "w_awaits (world_at w sh n) = n" "w_others (world_at w sh n) = w_others w"
  "w_actions (world_at w sh n) = w_actions w" "w_rng (world_at w sh n) = w_rng w" "w_draws (world_at w sh n) = w_draws w"
  "w_now (world_at w sh n) = w_now w" "w_jobs_completed (world_at w sh n) = w_jobs_completed w"
  "w_jobs_requeued (world_at w sh n) = w_jobs_requeued w" "w_jobs_failed (world_at w sh n) = w_jobs_failed w"
  "w_durations (world_at w sh n) = w_durations w" "world_db (world_at w sh n) = sh_db sh"
  "(world_at w sh n)\<lparr>w_actions := x1\<rparr> = world_at (w\<lparr>w_actions := x1\<rparr>) sh n" "(world_at w sh n)\<lparr>w_now := x2\<rparr> = world_at (w\<lparr>w_now := x2\<rparr>) sh n"
  "(world_at w sh n)\<lparr>w_draws := x3\<rparr> = world_at (w\<lparr>w_draws := x3\<rparr>) sh n"
  "(world_at w sh n)\<lparr>w_jobs_completed := x4\<rparr> = world_at (w\<lparr>w_jobs_completed := x4\<rparr>) sh n"
  "(world_at w sh n)\<lparr>w_jobs_requeued := x5\<rparr> = world_at (w\<lparr>w_jobs_requeued := x5\<rparr>) sh n"
  "(world_at w sh n)\<lparr>w_jobs_failed := x6\<rparr> = world_at (w\<lparr>w_jobs_failed := x6\<rparr>) sh n"
  "(world_at w sh n)\<lparr>w_durations := x7\<rparr> = world_at (w\<lparr>w_durations := x7\<rparr>) sh n"
  by (simp_all add: world_at_def world_db_def)

lemma only_during_upd [simp]:
  "only_during k f (w\<lparr>w_actions := x1\<rparr>) = only_during k f w" "only_during k f (w\<lparr>w_now := x2\<rparr>) = only_during k f w"
  "only_during k f (w\<lparr>w_draws := x3\<rparr>) = only_during k f w"
  "only_during k f (w\<lparr>w_jobs_completed := x4\<rparr>) = only_during k f w"
  "only_during k f (w\<lparr>w_jobs_requeued := x5\<rparr>) = only_during k f w"
  "only_during k f (w\<lparr>w_jobs_failed := x6\<rparr>) = only_during k f w"
  "only_during k f (w\<lparr>w_durations := x7\<rparr>) = only_during k f w"
  by (simp_all add: only_during_def)

lemma awaiting_at:
  assumes "only_during k f w"
  shows "n \<noteq> k \<Longrightarrow> awaiting call (world_at w sh n) = (fst (call sh), world_at w (snd (call sh)) (Suc n))"
    and "awaiting call (world_at w sh k) = (fst (call (f sh)), world_at w (snd (call (f sh))) (Suc k))"
  using assms by (simp_all add: awaiting_def only_during_def split_beta Let_def world_at_def)

lemma kv_at:
  assumes "only_during k f w" "k < n \<or> n + 1 < k"
  shows "fst (kv_get kv (done_key j) (sh_kv sh)) = None \<Longrightarrow> try_claim (world_kv kv) ttl j d (world_at w sh n) =
      (fst (try_claim kv ttl j d (sh_kv sh)), world_at w (sh\<lparr>sh_kv := snd (try_claim kv ttl j d (sh_kv sh))\<rparr>) (n + 2))"
    "acquire (world_kv kv) ttl j h (world_at w sh n) =
      (fst (acquire kv ttl j h (sh_kv sh)), world_at w (sh\<lparr>sh_kv := snd (acquire kv ttl j h (sh_kv sh))\<rparr>) (n + 2))"
    "release_claim (world_kv kv) j d (world_at w sh n) = world_at w (sh\<lparr>sh_kv := release_claim kv j d (sh_kv sh)\<rparr>) (n + 1)"
    "mark_done (world_kv kv) ttl j d (world_at w sh n) = world_at w (sh\<lparr>sh_kv := mark_done kv ttl j d (sh_kv sh)\<rparr>) (n + 2)"
    "release (world_kv kv) l (world_at w sh n) =
      (fst (release kv l (sh_kv sh)), world_at w (sh\<lparr>sh_kv := snd (release kv l (sh_kv sh))\<rparr>) (n + 1))"
  using assms(2)
  by (auto simp: try_claim_def acquire_def release_claim_def mark_done_def release_def world_kv_def
      awaiting_at [OF assms(1)] on_kv_def split_beta Let_def)

lemma act_at:
  assumes "only_during k f w" "n \<noteq> k"
  shows "msg_act a (world_at w sh n) = world_at (w\<lparr>w_actions := w_actions w @ [a]\<rparr>) sh (n + 1)"
    "awaiting (on_db call) (world_at w sh n) = (fst (call (sh_db sh)), world_at w (sh\<lparr>sh_db := snd (call (sh_db sh))\<rparr>) (n + 1))"
  using assms by (simp_all add: msg_act_def awaiting_at on_db_def split_beta Let_def)

lemma execute_at:
  assumes "only_during k f w"
  shows "run_execute sleep dur rate (world_at w sh k) =
    (fst (execute dur rate (w_rng w (w_draws w)) sleep (w_now w)),
     world_at (w\<lparr>w_draws := Suc (w_draws w), w_now := snd (execute dur rate (w_rng w (w_draws w)) sleep (w_now w))\<rparr>) (f sh) (k + 1))"
  using assms by (simp add: run_execute_def rng_random_def awaiting_at(2) [of k f] split_beta Let_def)

end
