(* ===== verification/Delivery.thy ===== *)
theory Delivery
  imports Worker
begin

text \<open>
  What handling one delivery guarantees. The first group of properties holds for every interference of
  the rest of the system; the second follows a delivery through its paths, success, retry, exhausted
  retries and being overtaken, when the others act only while the job executes.
\<close>

section \<open>Properties, for every interference\<close>

definition demo_world :: "in_memory_kv world" where
  "demo_world = \<lparr>w_shared = \<lparr>sh_kv = InMemoryKV (FakeClock 0), sh_db = demo_db\<rparr>, w_others = (\<lambda>_ sh. sh),
     w_awaits = 0, w_actions = [], w_rng = (\<lambda>_. 1 / 2), w_draws = 0, w_now = 0, w_jobs_completed = 0,
     w_jobs_requeued = 0, w_jobs_failed = 0, w_durations = [], w_shutdown = False, w_died = None\<rparr>"

lemma demo_world_rely: "rely_db demo_world" "world_db demo_world = demo_db" "kv_ok mem_inv demo_world"
  by (simp_all add: demo_world_def rely_db_def world_db_def kv_ok_def)

text \<open>C6: A delivery is settled at most once, and it is acknowledged only if the job is done: whatever
  the rest of the system does meanwhile, handling a message performs at most one of ack, nak and
  term, and if it acknowledges, then either the done marker answered or the job is \<open>succeeded\<close> in
  the database.\<close>

theorem ack_only_when_done:
  assumes "rely_db w" and "reachable (world_db w)"
    and "handle kv rt sleep cfg wid i payload attempt delivery w = (out, w')"
  shows "\<exists>acts. w_actions w' = w_actions w @ acts \<and> length acts \<le> 1 \<and>
    (Ack \<in> set acts \<longrightarrow>
       fst (try_claim (world_kv kv) (of_int (lease_ttl_s cfg)) (uuid_str i) delivery w) = ALREADY_DONE \<or>
       (\<exists>row. find_job i (world_db w') = Some row \<and> jr_state row = job_state_value S_SUCCEEDED))"
proof (cases rule: handle_cases [of kv rt sleep cfg wid i payload attempt delivery w])
  case (leased p w1 l w2)
  obtain tried w3 where tr: "try_job kv rt sleep cfg i p attempt delivery l w2 = (tried, w3)" by fastforce
  obtain o4 w4 where ex: "(case tried of Inr _ \<Rightarrow> (Inr (), w3)
      | Inl e \<Rightarrow> except_job kv cfg i attempt delivery l e w3) = (o4, w4)" by fastforce
  have w': "w' = snd (release (world_kv kv) l w4)"
    using assms(3) handle_leased [OF leased(2-4) tr ex] leased(1) by simp
  have acts: "w_actions w2 = w_actions w" using actions_kv(1,4) leased(3,4) by (metis snd_conv)
  have "following (world_db w) w" using assms(1) by (simp add: following_def)
  then have fol2: "following (world_db w) w2"
    using follow.guard_keeps(1) follow.lease_keeps(1) leased(3,4) by (metis snd_conv)
  note inv = history_inv_reachable [OF assms(2)]
  from fol2 inv tr show ?thesis
  proof (cases rule: try_job_cases)
    case (raised e)
    then show ?thesis using ex except_job_actions [of kv cfg i attempt delivery l e w3] w' acts by auto
  next
    case (completed row)
    have fol3: "following (world_db w) w3" using follow.try_job_keeps [OF fol2] tr by (metis snd_conv)
    then have "following (world_db w3) (snd (release (world_kv kv) l w3))"
      by (intro follow.lease_keeps(2)) (simp add: following_def)
    then have steps: "db_steps (world_db w3) (world_db w')" using completed(1) ex w' by (simp add: following_def)
    have "history_inv (world_db w3)" using fol3 inv history_inv_steps by (auto simp: following_def)
    with terminal_row_stays [OF steps _ completed(3,4)] completed(4)
    have "\<exists>row. find_job i (world_db w') = Some row \<and> jr_state row = job_state_value S_SUCCEEDED"
      by (simp add: is_terminal_def TERMINAL_STATES_def)
    then show ?thesis using completed ex w' acts by auto
  qed
next
  case (answered w1)
  then have "w_actions w1 = w_actions w" using actions_kv(1) by (metis snd_conv)
  with answered assms(3) show ?thesis by auto
qed (use assms(3) in auto)

theorem ack_only_when_done_witness:
  "\<exists>out w' acts. handle mem_kv demo_runtime (\<lambda>d t. t + d) Settings ''w1'' 1 (JObj demo_payload) 1 ''w1:1'' demo_world = (out, w') \<and>
     w_actions w' = acts \<and> length acts \<le> 1"
proof -
  obtain out w' where run: "handle mem_kv demo_runtime (\<lambda>d t. t + d) Settings ''w1'' 1 (JObj demo_payload) 1 ''w1:1'' demo_world = (out, w')"
    by fastforce
  have "reachable (world_db demo_world)" using demo_reachable by (simp add: demo_world_rely)
  from ack_only_when_done [OF demo_world_rely(1) this run] run show ?thesis by (auto simp: demo_world_def)
qed

section \<open>The path to the execution\<close>

lemma worker_keys_apart [simp]:
  "lease_key r \<noteq> claim_key j" "lease_key r \<noteq> done_key j" "token_key r \<noteq> claim_key j" "token_key r \<noteq> done_key j"
  "claim_key j \<noteq> lease_key r" "done_key j \<noteq> lease_key r" "claim_key j \<noteq> token_key r" "done_key j \<noteq> token_key r"
  by (simp_all add: lease_key_def token_key_def claim_key_def done_key_def)

lemma uuid_str_no_colon [simp]: "CHR '':'' \<notin> set (uuid_str i)"
  by (rule uuid_str_avoid) simp_all

text \<open>A delivery that nothing stands in the way of: neither claim, done marker nor lease of the job is
  held, the job waits or was left running, and its payload has executable arguments.\<close>

definition ready ::
    "'s kv_ops \<Rightarrow> ('s \<Rightarrow> bool) \<Rightarrow> ('s \<Rightarrow> string \<Rightarrow> (string \<times> real option) option) \<Rightarrow> ('s \<Rightarrow> string \<Rightarrow> int option) \<Rightarrow>
       settings \<Rightarrow> uuid \<Rightarrow> int \<Rightarrow> int \<Rightarrow> job_row \<Rightarrow> 's world \<Rightarrow> bool" where
  "ready kv ok held ctr cfg i attempt n row w \<longleftrightarrow>
     ok (sh_kv (w_shared w)) \<and> held (sh_kv (w_shared w)) (done_key (uuid_str i)) = None \<and>
     held (sh_kv (w_shared w)) (claim_key (uuid_str i)) = None \<and>
     held (sh_kv (w_shared w)) (lease_key (uuid_str i)) = None \<and>
     ctr (sh_kv (w_shared w)) (token_key (uuid_str i)) = Some n \<and> 0 \<le> n \<and> n < 2 ^ 63 - 1 \<and>
     0 < lease_ttl_s cfg \<and> 0 < exec_guard_ttl_s cfg \<and> history_inv (world_db w) \<and>
     find_job i (world_db w) = Some row \<and> jr_state row \<in> {job_state_value S_QUEUED, job_state_value S_RUNNING} \<and>
     jr_fence row \<le> n + 1 \<and> int4_ok attempt"

definition started_db :: "uuid \<Rightarrow> int \<Rightarrow> int \<Rightarrow> db \<Rightarrow> db" where
  "started_db i attempt token d = write_event i E_STARTED attempt [] token None S_RUNNING d"

definition granted_lease :: "uuid \<Rightarrow> string \<Rightarrow> int \<Rightarrow> lease" where
  "granted_lease i wid n = \<lparr>lease_resource = uuid_str i, lease_holder = wid, lease_token = n + 1\<rparr>"

definition leased_kv :: "'s kv_ops \<Rightarrow> settings \<Rightarrow> uuid \<Rightarrow> string \<Rightarrow> string \<Rightarrow> 's \<Rightarrow> 's" where
  "leased_kv kv cfg i wid delivery s =
     snd (acquire kv (of_int (lease_ttl_s cfg)) (uuid_str i) wid
       (snd (try_claim kv (of_int (lease_ttl_s cfg)) (uuid_str i) delivery s)))"

text \<open>The endings of a delivery, after the only interference.\<close>

lemma complete_job_at:
  assumes "only_during k f w" "k < n"
    "record_event i E_COMPLETED attempt None (Some (lease_token l)) (Some [(''elapsed_ms'', JInt m)]) (sh_db sh) = (out, d2)"
  shows "complete_job kv cfg i attempt delivery l [(''elapsed_ms'', JInt m)] (world_at w sh n) =
    (case out of
       Inl e \<Rightarrow> (Inl e, world_at w (sh\<lparr>sh_db := d2\<rparr>) (n + 1))
     | Inr _ \<Rightarrow> (Inr (), world_at (w\<lparr>w_actions := w_actions w @ [Ack], w_jobs_completed := w_jobs_completed w + 1,
           w_durations := w_durations w @ [m]\<rparr>)
         (sh\<lparr>sh_db := d2, sh_kv := mark_done kv (of_int (exec_guard_ttl_s cfg)) (uuid_str i) delivery (sh_kv sh)\<rparr>) (n + 4)))"
  using assms(2,3)
  by (simp add: complete_job_def act_at [OF assms(1)] kv_at [OF assms(1)] dict_item_def Let_def eval_nat_numeral
      split: sum.splits)

lemma except_retry_at:
  assumes "only_during k f w" "k < n" "attempt < max_deliver cfg"
    "record_event i E_REQUEUED attempt (Some [(''error'', JStr text)]) (Some (lease_token l)) None (sh_db sh) = (out, d2)"
  shows "except_job kv cfg i attempt delivery l (SimulatedFailure text) (world_at w sh n) =
    (case out of
       Inl e \<Rightarrow> (Inl e, world_at w (sh\<lparr>sh_db := d2\<rparr>) (n + 1))
     | Inr _ \<Rightarrow> (Inr (), world_at (w\<lparr>w_actions := w_actions w @ [Nak (min (2 powi attempt) 30)],
           w_jobs_requeued := w_jobs_requeued w + 1\<rparr>)
         (sh\<lparr>sh_db := d2, sh_kv := release_claim kv (uuid_str i) delivery (sh_kv sh)\<rparr>) (n + 3)))"
  using assms(2-)
  by (simp add: except_job_def act_at [OF assms(1)] kv_at [OF assms(1)] Let_def eval_nat_numeral split: sum.splits)

lemma except_fail_at:
  assumes "only_during k f w" "k < n" "\<not> attempt < max_deliver cfg"
    "record_event i E_FAILED attempt (Some [(''error'', JStr text), (''reason'', JStr ''retries exhausted'')])
       (Some (lease_token l)) None (sh_db sh) = (out, d2)"
  shows "except_job kv cfg i attempt delivery l (SimulatedFailure text) (world_at w sh n) =
    (case out of
       Inl e \<Rightarrow> (Inl e, world_at w (sh\<lparr>sh_db := d2\<rparr>) (n + 1))
     | Inr _ \<Rightarrow> (Inr (), world_at (w\<lparr>w_actions := w_actions w @ [Term], w_jobs_failed := w_jobs_failed w + 1\<rparr>)
         (sh\<lparr>sh_db := d2, sh_kv := release_claim kv (uuid_str i) delivery (sh_kv sh)\<rparr>) (n + 3)))"
  using assms(2-)
  by (simp add: except_job_def act_at [OF assms(1)] kv_at [OF assms(1)] Let_def eval_nat_numeral split: sum.splits)

lemma except_obsolete_at:
  assumes "only_during k f w" "k < n"
  shows "except_job kv cfg i attempt delivery l (IllegalTransition st ev) (world_at w sh n) =
    (Inr (), world_at (w\<lparr>w_actions := w_actions w @ [Term]\<rparr>)
       (sh\<lparr>sh_kv := release_claim kv (uuid_str i) delivery (sh_kv sh)\<rparr>) (n + 2))"
  using assms(2)
  by (simp add: except_job_def act_at [OF assms(1)] kv_at [OF assms(1)] Let_def eval_nat_numeral)

context key_value_store
begin

lemma ready_start:
  assumes "ready ops inv held ctr cfg i attempt n row w"
  shows "record_event i E_STARTED attempt None (Some (n + 1)) None (world_db w) =
    (Inr S_RUNNING, started_db i attempt (n + 1) (world_db w))"
proof -
  obtain s where s: "jr_state row = job_state_value s" "s \<in> {S_QUEUED, S_RUNNING}"
    using assms by (auto simp: ready_def simp del: job_state_value.simps)
  have "int8_ok (n + 1)" using assms by (simp add: ready_def int8_ok_def)
  then show ?thesis
    using record_event_ok [of i "world_db w" row s E_STARTED S_RUNNING attempt "Some (n + 1)" None None] assms s
    by (auto simp: ready_def fence_of_def started_db_def lifecycle_simps)
qed

lemma ready_store:
  fixes wid delivery :: string
  assumes "ready ops inv held ctr cfg i attempt n row w"
  defines "s0 \<equiv> sh_kv (w_shared w)" and "j \<equiv> uuid_str i" and "ttl \<equiv> of_int (lease_ttl_s cfg)"
  defines "s1 \<equiv> snd (try_claim ops ttl j delivery s0)"
  shows "fst (kv_get ops (done_key j) s0) = None" "fst (try_claim ops ttl j delivery s0) = CLAIMED"
    "fst (acquire ops ttl j wid s1) = Some (granted_lease i wid n)"
proof -
  have ok: "inv s0" "held s0 (done_key j) = None" "held s0 (claim_key j) = None" "held s0 (lease_key j) = None"
      "ctr s0 (token_key j) = Some n" "n < 2 ^ 63 - 1" "0 < ttl"
    using assms(1) by (simp_all add: ready_def s0_def j_def ttl_def)
  show "fst (kv_get ops (done_key j) s0) = None" using ok by simp
  show "fst (try_claim ops ttl j delivery s0) = CLAIMED" using ok by (simp add: try_claim_result)
  have "inv s1" "held s1 (lease_key j) = None" "ctr s1 (token_key j) = Some n"
    using ok by (simp_all add: s1_def try_claim_held guard_ctr)
  then show "fst (acquire ops ttl j wid s1) = Some (granted_lease i wid n)"
    using ok(6) by (simp add: acquire_result granted_lease_def j_def)
qed

lemma ready_run:
  assumes "ready ops inv held ctr cfg i attempt n row w" "only_during (w_awaits w + 5) f w"
    "\<not> py_truthy (dict_get_none p ''poison'')" "exec_args rt p = Inr (dur, rate)"
    "execute dur rate (w_rng w (w_draws w)) sleep (w_now w) = (executed, finished)"
    "w5 = world_at (w\<lparr>w_draws := Suc (w_draws w), w_now := finished\<rparr>)
       (f ((w_shared w)\<lparr>sh_kv := leased_kv ops cfg i wid delivery (sh_kv (w_shared w)),
             sh_db := started_db i attempt (n + 1) (world_db w)\<rparr>)) (w_awaits w + 6)"
    "(case executed of Inl e \<Rightarrow> (Inl e, w5)
      | Inr result \<Rightarrow> complete_job ops cfg i attempt delivery (granted_lease i wid n) result w5) = (tried, w6)"
    "(case tried of Inr _ \<Rightarrow> (Inr (), w6)
      | Inl e \<Rightarrow> except_job ops cfg i attempt delivery (granted_lease i wid n) e w6) = (out, w7)"
  shows "handle ops rt sleep cfg wid i (JObj p) attempt delivery w =
    (out, snd (release (world_kv ops) (granted_lease i wid n) w7))"
proof -
  let ?a = "w_awaits w" and ?j = "uuid_str i" and ?ttl = "of_int (lease_ttl_s cfg) :: real" and ?sh = "w_shared w"
  let ?s1 = "snd (try_claim ops ?ttl ?j delivery (sh_kv ?sh))"
  let ?w1 = "world_at w (?sh\<lparr>sh_kv := ?s1\<rparr>) (?a + 2)"
  let ?w2 = "world_at w (?sh\<lparr>sh_kv := leased_kv ops cfg i wid delivery (sh_kv ?sh)\<rparr>) (?a + 4)"
  note store = ready_store [OF assms(1)]
  have "try_claim (world_kv ops) ?ttl ?j delivery (world_at w ?sh ?a) = (CLAIMED, ?w1)"
    using kv_at(1) [OF assms(2) _ store(1)] store(2) by simp
  then have claim: "try_claim (world_kv ops) ?ttl ?j delivery w = (CLAIMED, ?w1)" by (simp flip: at_start)
  have lease: "acquire (world_kv ops) ?ttl ?j wid ?w1 = (Some (granted_lease i wid n), ?w2)"
    using kv_at(2) [OF assms(2), of "?a + 2"] store(3) by (simp add: leased_kv_def eval_nat_numeral)
  let ?w4 = "world_at w (?sh\<lparr>sh_kv := leased_kv ops cfg i wid delivery (sh_kv ?sh),
      sh_db := started_db i attempt (n + 1) (world_db w)\<rparr>) (?a + 5)"
  have "awaiting (on_db (record_event i E_STARTED attempt None (Some (lease_token (granted_lease i wid n))) None)) ?w2 =
      (Inr S_RUNNING, ?w4)"
    using ready_start [OF assms(1)] by (simp add: act_at(2) [OF assms(2)] granted_lease_def world_db_def add.commute [of 5])
  moreover have "run_execute sleep dur rate ?w4 = (executed, w5)"
    using execute_at [OF assms(2)] assms(5) by (simp add: assms(6) add.commute [of 6])
  ultimately have "try_job ops rt sleep cfg i p attempt delivery (granted_lease i wid n) ?w2 = (tried, w6)"
    using assms(4,7) by (simp add: try_job_def)
  from handle_leased [OF assms(3) claim lease this assms(8)] show ?thesis .
qed

end

section \<open>Where the paths end\<close>

context key_value_store
begin

lemma leased_kv_state:
  fixes wid delivery :: string
  assumes "ready ops inv held ctr cfg i attempt n row w"
  defines "s \<equiv> leased_kv ops cfg i wid delivery (sh_kv (w_shared w))"
  shows "inv s" "held s (done_key (uuid_str i)) = None" "map_option fst (held s (claim_key (uuid_str i))) = Some delivery"
    "map_option fst (held s (lease_key (uuid_str i))) = Some (lease_text wid (n + 1))"
proof -
  let ?s0 = "sh_kv (w_shared w)" and ?j = "uuid_str i" and ?ttl = "of_int (lease_ttl_s cfg) :: real"
  let ?s1 = "snd (try_claim ops ?ttl ?j delivery ?s0)"
  have ok: "inv ?s0" "held ?s0 (done_key ?j) = None" "held ?s0 (claim_key ?j) = None" "held ?s0 (lease_key ?j) = None"
      "ctr ?s0 (token_key ?j) = Some n" "n < 2 ^ 63 - 1" "0 < ?ttl"
    using assms(1) by (simp_all add: ready_def)
  have s1: "inv ?s1" "held ?s1 (lease_key ?j) = None" "ctr ?s1 (token_key ?j) = Some n"
      "held ?s1 (done_key ?j) = None" "map_option fst (held ?s1 (claim_key ?j)) = Some delivery"
    using ok by (simp_all add: try_claim_held guard_ctr)
  show "inv s" using s1(1) by (simp add: s_def leased_kv_def)
  show "held s (done_key ?j) = None" "map_option fst (held s (claim_key ?j)) = Some delivery"
    using acquire_frame [OF s1(1) _ _ ok(7)] s1(4,5) by (simp_all add: s_def leased_kv_def)
  show "map_option fst (held s (lease_key ?j)) = Some (lease_text wid (n + 1))"
    using acquire_held [OF s1(1,3) ok(6,7)] s1(2) by (simp add: s_def leased_kv_def)
qed

text \<open>After the guard has been told and the lease released, the store holds what it should.\<close>

lemma settled_kv:
  fixes wid delivery :: string
  assumes "ready ops inv held ctr cfg i attempt n row w"
  defines "s \<equiv> leased_kv ops cfg i wid delivery (sh_kv (w_shared w))" and "l \<equiv> granted_lease i wid n"
  shows "map_option fst (held (snd (release ops l (mark_done ops (of_int (exec_guard_ttl_s cfg)) (uuid_str i) delivery s)))
      (done_key (uuid_str i))) = Some delivery"
    and "held (snd (release ops l (mark_done ops (of_int (exec_guard_ttl_s cfg)) (uuid_str i) delivery s)))
      (claim_key (uuid_str i)) = None"
    and "held (snd (release ops l (mark_done ops (of_int (exec_guard_ttl_s cfg)) (uuid_str i) delivery s)))
      (lease_key (uuid_str i)) = None"
    and "held (snd (release ops l (release_claim ops (uuid_str i) delivery s))) (claim_key (uuid_str i)) = None"
    and "held (snd (release ops l (release_claim ops (uuid_str i) delivery s))) (lease_key (uuid_str i)) = None"
    and "held (snd (release ops l (release_claim ops (uuid_str i) delivery s))) (done_key (uuid_str i)) = None"
proof -
  note st = leased_kv_state [OF assms(1), of wid delivery, folded s_def]
  have ttl: "0 < (of_int (exec_guard_ttl_s cfg) :: real)" using assms(1) by (simp add: ready_def)
  have md: "held (mark_done ops (of_int (exec_guard_ttl_s cfg)) (uuid_str i) delivery s) =
      (held s)(done_key (uuid_str i) \<mapsto> (delivery, Some (deadline s (of_int (exec_guard_ttl_s cfg)))),
               claim_key (uuid_str i) := None)"
    using st ttl by (simp add: mark_done_held)
  have rc: "held (release_claim ops (uuid_str i) delivery s) = (held s)(claim_key (uuid_str i) := None)"
    using st by (simp add: release_claim_held)
  show "map_option fst (held (snd (release ops l (mark_done ops (of_int (exec_guard_ttl_s cfg)) (uuid_str i) delivery s)))
      (done_key (uuid_str i))) = Some delivery"
    "held (snd (release ops l (mark_done ops (of_int (exec_guard_ttl_s cfg)) (uuid_str i) delivery s)))
      (claim_key (uuid_str i)) = None"
    "held (snd (release ops l (mark_done ops (of_int (exec_guard_ttl_s cfg)) (uuid_str i) delivery s)))
      (lease_key (uuid_str i)) = None"
    using st by (simp_all add: release_held md l_def granted_lease_def)
  show "held (snd (release ops l (release_claim ops (uuid_str i) delivery s))) (claim_key (uuid_str i)) = None"
    "held (snd (release ops l (release_claim ops (uuid_str i) delivery s))) (lease_key (uuid_str i)) = None"
    "held (snd (release ops l (release_claim ops (uuid_str i) delivery s))) (done_key (uuid_str i)) = None"
    using st by (simp_all add: release_held rc l_def granted_lease_def)
qed

text \<open>Recording a verdict for the execution just started, with nobody in between.\<close>

lemma verdict_after_start:
  assumes "ready ops inv held ctr cfg i attempt n row w" "ev \<in> {E_COMPLETED, E_FAILED, E_REQUEUED}"
  defines "d1 \<equiv> started_db i attempt (n + 1) (world_db w)"
  obtains d2 row2 evs e1 e2 where
    "record_event i ev attempt dt (Some (n + 1)) res d1 = (Inr (state_after ev), d2)"
    "find_job i d2 = Some row2" "jr_state row2 = job_state_value (state_after ev)" "jr_fence row2 = n + 1"
    "jr_result row2 = (case res of None \<Rightarrow> jr_result row | Some x \<Rightarrow> Some (JObj x))"
    "replay_events i (world_db w) = Inr evs" "replay_events i d2 = Inr (evs @ [e1, e2])"
    "ev_type e1 = E_STARTED" "ev_attempt e1 = attempt" "ev_type e2 = ev" "ev_attempt e2 = attempt"
    "ev_detail e2 = (case dt of None \<Rightarrow> [] | Some x \<Rightarrow> x)"
proof -
  let ?d = "world_db w"
  have row: "find_job i ?d = Some row" "jr_fence row \<le> n + 1" and inv: "history_inv ?d" and ok: "int4_ok attempt"
    using assms(1) by (simp_all add: ready_def)
  have row1: "find_job i d1 = Some (upd_row S_RUNNING attempt (n + 1) None (db_now ?d) row)"
    unfolding d1_def started_db_def by (rule find_job_written [OF row])
  have "int8_ok (n + 1)" using assms(1) by (simp add: ready_def int8_ok_def)
  moreover have life: "lifecycle (Some S_RUNNING) ev (state_after ev)" using assms(2) by (auto simp: lifecycle_simps)
  ultimately have rec: "record_event i ev attempt dt (Some (n + 1)) res d1 = (Inr (state_after ev),
      write_event i ev attempt (case dt of Some x \<Rightarrow> x | None \<Rightarrow> []) (n + 1) res (state_after ev) d1)"
    using record_event_ok [OF row1, of S_RUNNING ev "state_after ev" attempt "Some (n + 1)"] ok by (simp add: fence_of_def)
  let ?d2 = "write_event i ev attempt (case dt of Some x \<Rightarrow> x | None \<Rightarrow> []) (n + 1) res (state_after ev) d1"
  obtain evs where evs: "replay_events i ?d = Inr evs" using inv row(1) by (metis history_inv_def job_log)
  have ids: "ids_ok er_id (job_events ?d) (events_seq ?d)" using inv by (simp add: history_inv_def db_inv_def)
  have "history_inv d1"
    using history_inv_record [OF inv, of E_STARTED i attempt None "Some (n + 1)" None] ready_start [OF assms(1)]
    by (simp add: d1_def)
  then have ids1: "ids_ok er_id (job_events d1) (events_seq d1)" by (simp add: history_inv_def db_inv_def)
  have "replay_events i d1 = Inr (evs @ [\<lparr>ev_type = E_STARTED, ev_attempt = attempt, ev_detail = [], ev_at = db_now ?d\<rparr>])"
    by (simp add: d1_def started_db_def replay_events_write [OF ids] evs)
  then have "replay_events i ?d2 = Inr (evs @ [\<lparr>ev_type = E_STARTED, ev_attempt = attempt, ev_detail = [], ev_at = db_now ?d\<rparr>,
      \<lparr>ev_type = ev, ev_attempt = attempt, ev_detail = (case dt of None \<Rightarrow> [] | Some x \<Rightarrow> x), ev_at = db_now d1\<rparr>])"
    by (simp add: replay_events_write [OF ids1])
  with evs rec find_job_written [OF row1, of "n + 1"] show ?thesis
    by (intro that [of ?d2]) (auto simp: upd_row_def split: option.splits)
qed

lemma delivery_succeeds:
  assumes "ready ops inv held ctr cfg i attempt n row w" "only_during (w_awaits w + 5) (\<lambda>sh. sh) w"
    "\<not> py_truthy (dict_get_none p ''poison'')" "exec_args rt p = Inr (dur, rate)"
    "execute dur rate (w_rng w (w_draws w)) sleep (w_now w) = (Inr result, finished)"
  obtains w' row' evs e1 e2 where
    "handle ops rt sleep cfg wid i (JObj p) attempt delivery w = (Inr (), w')"
    "w_actions w' = w_actions w @ [Ack]" "w_jobs_completed w' = w_jobs_completed w + 1"
    "find_job i (world_db w') = Some row'" "jr_state row' = job_state_value S_SUCCEEDED"
    "jr_result row' = Some (JObj result)" "jr_fence row' = n + 1"
    "replay_events i (world_db w) = Inr evs" "replay_events i (world_db w') = Inr (evs @ [e1, e2])"
    "ev_type e1 = E_STARTED" "ev_type e2 = E_COMPLETED"
    "map_option fst (held (sh_kv (w_shared w')) (done_key (uuid_str i))) = Some delivery"
    "held (sh_kv (w_shared w')) (claim_key (uuid_str i)) = None"
    "held (sh_kv (w_shared w')) (lease_key (uuid_str i)) = None"
proof -
  let ?l = "granted_lease i wid n"
  let ?sh = "(w_shared w)\<lparr>sh_kv := leased_kv ops cfg i wid delivery (sh_kv (w_shared w)),
             sh_db := started_db i attempt (n + 1) (world_db w)\<rparr>"
  let ?w = "w\<lparr>w_draws := Suc (w_draws w), w_now := finished\<rparr>"
  obtain m where m: "result = [(''elapsed_ms'', JInt m)]" using execute_result assms(5) by (metis fst_conv)
  obtain d2 row2 evs e1 e2 where v:
      "record_event i E_COMPLETED attempt None (Some (n + 1)) (Some result) (started_db i attempt (n + 1) (world_db w)) = (Inr S_SUCCEEDED, d2)"
      "find_job i d2 = Some row2" "jr_state row2 = job_state_value S_SUCCEEDED" "jr_fence row2 = n + 1"
      "jr_result row2 = Some (JObj result)" "replay_events i (world_db w) = Inr evs" "replay_events i d2 = Inr (evs @ [e1, e2])"
      "ev_type e1 = E_STARTED" "ev_type e2 = E_COMPLETED"
    by (rule verdict_after_start [OF assms(1), of E_COMPLETED None "Some result"]) (simp, rule that, simp_all)
  have od: "only_during (w_awaits w + 5) (\<lambda>sh. sh) ?w" using assms(2) by simp
  have rec: "record_event i E_COMPLETED attempt None (Some (lease_token ?l)) (Some [(''elapsed_ms'', JInt m)]) (sh_db ?sh) = (Inr S_SUCCEEDED, d2)"
    using v(1) by (simp add: granted_lease_def m)
  let ?w6 = "world_at (?w\<lparr>w_actions := w_actions w @ [Ack], w_jobs_completed := w_jobs_completed w + 1, w_durations := w_durations w @ [m]\<rparr>)
      (?sh\<lparr>sh_db := d2, sh_kv := mark_done ops (of_int (exec_guard_ttl_s cfg)) (uuid_str i) delivery (sh_kv ?sh)\<rparr>) (w_awaits w + 10)"
  have "complete_job ops cfg i attempt delivery ?l result (world_at ?w ?sh (w_awaits w + 6)) = (Inr (), ?w6)"
    using complete_job_at [OF od, of "w_awaits w + 6", OF _ rec] by (simp add: m add.commute)
  with ready_run [OF assms refl, of wid delivery "Inr ()" ?w6 "Inr ()" ?w6]
  have run: "handle ops rt sleep cfg wid i (JObj p) attempt delivery w = (Inr (), snd (release (world_kv ops) ?l ?w6))"
    by simp
  have rel: "snd (release (world_kv ops) ?l ?w6) = world_at (?w\<lparr>w_actions := w_actions w @ [Ack],
        w_jobs_completed := w_jobs_completed w + 1, w_durations := w_durations w @ [m]\<rparr>)
      (?sh\<lparr>sh_db := d2, sh_kv := snd (release ops ?l (mark_done ops (of_int (exec_guard_ttl_s cfg)) (uuid_str i) delivery (sh_kv ?sh)))\<rparr>)
      (w_awaits w + 11)"
    using assms(2) by (subst kv_at(5) [where k = "w_awaits w + 5" and f = "\<lambda>sh. sh"]) (simp_all add: add.commute)
  from settled_kv(1-3) [OF assms(1), of wid delivery] v run show ?thesis
    unfolding rel by (intro that [OF run [unfolded rel], of row2 evs e1 e2]) simp_all
qed

end

definition started_shared ::
    "'s kv_ops \<Rightarrow> settings \<Rightarrow> uuid \<Rightarrow> string \<Rightarrow> string \<Rightarrow> int \<Rightarrow> int \<Rightarrow> 's world \<Rightarrow> 's shared" where
  "started_shared kv cfg i wid delivery attempt n w =
     (w_shared w)\<lparr>sh_kv := leased_kv kv cfg i wid delivery (sh_kv (w_shared w)),
       sh_db := started_db i attempt (n + 1) (world_db w)\<rparr>"

context key_value_store
begin

lemma delivery_fails:
  assumes "ready ops inv held ctr cfg i attempt n row w" "only_during (w_awaits w + 5) (\<lambda>sh. sh) w"
    "\<not> py_truthy (dict_get_none p ''poison'')" "exec_args rt p = Inr (dur, rate)"
    "execute dur rate (w_rng w (w_draws w)) sleep (w_now w) = (Inl (SimulatedFailure text), finished)"
  defines "ev \<equiv> (if attempt < max_deliver cfg then E_REQUEUED else E_FAILED)"
  obtains w' row' evs e1 e2 where
    "handle ops rt sleep cfg wid i (JObj p) attempt delivery w = (Inr (), w')"
    "w_actions w' = w_actions w @ [if attempt < max_deliver cfg then Nak (min (2 powi attempt) 30) else Term]"
    "find_job i (world_db w') = Some row'" "jr_state row' = job_state_value (state_after ev)"
    "replay_events i (world_db w) = Inr evs" "replay_events i (world_db w') = Inr (evs @ [e1, e2])"
    "ev_type e1 = E_STARTED" "ev_type e2 = ev" "dict_get (ev_detail e2) ''error'' = Some (JStr text)"
    "held (sh_kv (w_shared w')) (done_key (uuid_str i)) = None"
    "held (sh_kv (w_shared w')) (claim_key (uuid_str i)) = None"
    "held (sh_kv (w_shared w')) (lease_key (uuid_str i)) = None"
proof -
  let ?l = "granted_lease i wid n"
  let ?sh = "(w_shared w)\<lparr>sh_kv := leased_kv ops cfg i wid delivery (sh_kv (w_shared w)),
             sh_db := started_db i attempt (n + 1) (world_db w)\<rparr>"
  let ?w = "w\<lparr>w_draws := Suc (w_draws w), w_now := finished\<rparr>"
  let ?dt = "(''error'', JStr text) # (if attempt < max_deliver cfg then [] else [(''reason'', JStr ''retries exhausted'')])"
  let ?act = "if attempt < max_deliver cfg then Nak (min (2 powi attempt) 30) else Term"
  obtain d2 row2 evs e1 e2 where v:
      "record_event i ev attempt (Some ?dt) (Some (n + 1)) None (started_db i attempt (n + 1) (world_db w)) = (Inr (state_after ev), d2)"
      "find_job i d2 = Some row2" "jr_state row2 = job_state_value (state_after ev)"
      "replay_events i (world_db w) = Inr evs" "replay_events i d2 = Inr (evs @ [e1, e2])"
      "ev_type e1 = E_STARTED" "ev_type e2 = ev" "ev_detail e2 = ?dt"
    by (rule verdict_after_start [OF assms(1), of ev "Some ?dt" None]) (simp add: ev_def, rule that, simp_all)
  have od: "only_during (w_awaits w + 5) (\<lambda>sh. sh) ?w" using assms(2) by simp
  let ?sh2 = "?sh\<lparr>sh_db := d2, sh_kv := release_claim ops (uuid_str i) delivery (sh_kv ?sh)\<rparr>"
  obtain w6 where w6: "except_job ops cfg i attempt delivery ?l (SimulatedFailure text) (world_at ?w ?sh (w_awaits w + 6)) =
        (Inr (), world_at w6 ?sh2 (w_awaits w + 9))"
      "w_actions w6 = w_actions w @ [?act]" "only_during (w_awaits w + 5) (\<lambda>sh. sh) w6"
  proof (cases "attempt < max_deliver cfg")
    case True
    have "record_event i E_REQUEUED attempt (Some [(''error'', JStr text)]) (Some (lease_token ?l)) None (sh_db ?sh) = (Inr (state_after ev), d2)"
      using v(1) True by (simp add: granted_lease_def ev_def)
    from except_retry_at [OF od, of "w_awaits w + 6", OF _ True this] True od show ?thesis
      by (intro that [of "?w\<lparr>w_actions := w_actions w @ [?act], w_jobs_requeued := w_jobs_requeued w + 1\<rparr>"]) (simp_all add: add.commute)
  next
    case False
    have "record_event i E_FAILED attempt (Some [(''error'', JStr text), (''reason'', JStr ''retries exhausted'')])
        (Some (lease_token ?l)) None (sh_db ?sh) = (Inr (state_after ev), d2)"
      using v(1) False by (simp add: granted_lease_def ev_def)
    from except_fail_at [OF od, of "w_awaits w + 6", OF _ False this] False od show ?thesis
      by (intro that [of "?w\<lparr>w_actions := w_actions w @ [?act], w_jobs_failed := w_jobs_failed w + 1\<rparr>"]) (simp_all add: add.commute)
  qed
  have run: "handle ops rt sleep cfg wid i (JObj p) attempt delivery w =
      (Inr (), snd (release (world_kv ops) ?l (world_at w6 ?sh2 (w_awaits w + 9))))"
    by (rule ready_run [OF assms(1-5) refl, where tried = "Inl (SimulatedFailure text)"]) (use w6(1) in simp_all)
  have rel: "snd (release (world_kv ops) ?l (world_at w6 ?sh2 (w_awaits w + 9))) = world_at w6
      (?sh2\<lparr>sh_kv := snd (release ops ?l (release_claim ops (uuid_str i) delivery (sh_kv ?sh)))\<rparr>) (w_awaits w + 10)"
    using w6(3) by (subst kv_at(5) [where k = "w_awaits w + 5" and f = "\<lambda>sh. sh"]) (simp_all add: add.commute)
  from settled_kv(4-6) [OF assms(1), of wid delivery] v w6(2) show ?thesis
    by (intro that [OF run [unfolded rel], of row2 evs e1 e2]) (simp_all add: dict_get_def)
qed

text \<open>What is left to do when the others acted while the job was executing.\<close>

lemma overtaken_success:
  assumes "ready ops inv held ctr cfg i attempt n row w" "only_during (w_awaits w + 5) f w"
    "\<not> py_truthy (dict_get_none p ''poison'')" "exec_args rt p = Inr (dur, rate)"
    "execute dur rate (w_rng w (w_draws w)) sleep (w_now w) = (Inr result, finished)"
    "d = sh_db (f (started_shared ops cfg i wid delivery attempt n w))"
    "record_event i E_COMPLETED attempt None (Some (n + 1)) (Some result) d = (Inl e, d)"
  shows "(\<exists>r t m. e = StaleLeaseError r t m) \<Longrightarrow>
      \<exists>w'. handle ops rt sleep cfg wid i (JObj p) attempt delivery w = (Inr (), w') \<and> w_actions w' = w_actions w \<and> world_db w' = d"
    "(\<exists>s v. e = IllegalTransition s v) \<Longrightarrow>
      \<exists>w'. handle ops rt sleep cfg wid i (JObj p) attempt delivery w = (Inr (), w') \<and> w_actions w' = w_actions w @ [Term] \<and> world_db w' = d"
proof -
  let ?sh = "f (started_shared ops cfg i wid delivery attempt n w)" and ?l = "granted_lease i wid n"
  let ?w = "w\<lparr>w_draws := Suc (w_draws w), w_now := finished\<rparr>"
  obtain m where m: "result = [(''elapsed_ms'', JInt m)]" using execute_result assms(5) by (metis fst_conv)
  have od: "only_during (w_awaits w + 5) f ?w" using assms(2) by simp
  have rec: "record_event i E_COMPLETED attempt None (Some (lease_token ?l)) (Some [(''elapsed_ms'', JInt m)]) (sh_db ?sh) = (Inl e, sh_db ?sh)"
    using assms(6,7) by (simp add: granted_lease_def m)
  have tried: "complete_job ops cfg i attempt delivery ?l result (world_at ?w ?sh (w_awaits w + 6)) = (Inl e, world_at ?w ?sh (w_awaits w + 7))"
    using complete_job_at [OF od, of "w_awaits w + 6", OF _ rec] by (simp add: m add.commute)
  have run: "handle ops rt sleep cfg wid i (JObj p) attempt delivery w = (out, snd (release (world_kv ops) ?l w7))"
    if "except_job ops cfg i attempt delivery ?l e (world_at ?w ?sh (w_awaits w + 7)) = (out, w7)" for out w7
    by (rule ready_run [OF assms(1-5) refl, where tried = "Inl e"]) (use tried that in \<open>simp_all add: started_shared_def\<close>)
  { assume "\<exists>r t m. e = StaleLeaseError r t m"
    then have "except_job ops cfg i attempt delivery ?l e (world_at ?w ?sh (w_awaits w + 7)) = (Inr (), world_at ?w ?sh (w_awaits w + 7))"
      by (auto simp: except_job_def)
    from run [OF this] show "\<exists>w'. handle ops rt sleep cfg wid i (JObj p) attempt delivery w = (Inr (), w') \<and>
        w_actions w' = w_actions w \<and> world_db w' = d"
      using od assms(6) by (simp add: kv_at(5)) }
  { assume "\<exists>s v. e = IllegalTransition s v"
    then have "except_job ops cfg i attempt delivery ?l e (world_at ?w ?sh (w_awaits w + 7)) =
        (Inr (), world_at (?w\<lparr>w_actions := w_actions w @ [Term]\<rparr>)
          (?sh\<lparr>sh_kv := release_claim ops (uuid_str i) delivery (sh_kv ?sh)\<rparr>) (w_awaits w + 9))"
      using except_obsolete_at [OF od, of "w_awaits w + 7"] by (auto simp: add.commute)
    from run [OF this] show "\<exists>w'. handle ops rt sleep cfg wid i (JObj p) attempt delivery w = (Inr (), w') \<and>
        w_actions w' = w_actions w @ [Term] \<and> world_db w' = d"
      using assms(2,6) by (simp add: kv_at(5) [where k = "w_awaits w + 5" and f = f]) }
qed

lemma overtaken_failure:
  assumes "ready ops inv held ctr cfg i attempt n row w" "only_during (w_awaits w + 5) f w"
    "\<not> py_truthy (dict_get_none p ''poison'')" "exec_args rt p = Inr (dur, rate)"
    "execute dur rate (w_rng w (w_draws w)) sleep (w_now w) = (Inl (SimulatedFailure text), finished)"
    "d = sh_db (f (started_shared ops cfg i wid delivery attempt n w))" "attempt < max_deliver cfg"
    "record_event i E_REQUEUED attempt (Some [(''error'', JStr text)]) (Some (n + 1)) None d = (Inl e, d)"
  shows "\<exists>w'. handle ops rt sleep cfg wid i (JObj p) attempt delivery w = (Inl e, w') \<and> w_actions w' = w_actions w \<and> world_db w' = d"
proof -
  let ?sh = "f (started_shared ops cfg i wid delivery attempt n w)" and ?l = "granted_lease i wid n"
  let ?w = "w\<lparr>w_draws := Suc (w_draws w), w_now := finished\<rparr>"
  have od: "only_during (w_awaits w + 5) f ?w" using assms(2) by simp
  have rec: "record_event i E_REQUEUED attempt (Some [(''error'', JStr text)]) (Some (lease_token ?l)) None (sh_db ?sh) = (Inl e, sh_db ?sh)"
    using assms(6,8) by (simp add: granted_lease_def)
  have "except_job ops cfg i attempt delivery ?l (SimulatedFailure text) (world_at ?w ?sh (w_awaits w + 6)) =
      (Inl e, world_at ?w ?sh (w_awaits w + 7))"
    using except_retry_at [OF od, of "w_awaits w + 6", OF _ assms(7) rec] by (simp add: add.commute)
  then have "handle ops rt sleep cfg wid i (JObj p) attempt delivery w =
      (Inl e, snd (release (world_kv ops) ?l (world_at ?w ?sh (w_awaits w + 7))))"
    by (intro ready_run [OF assms(1-5) refl, where tried = "Inl (SimulatedFailure text)"]) (simp_all add: started_shared_def)
  then show ?thesis using od assms(6) by (simp add: kv_at(5))
qed

end

section \<open>Properties of the paths\<close>

lemma demo_ready: "ready mem_kv mem_inv mem_held mem_ctr Settings 1 1 0 (submitted_row 1 ''key-1'' demo_payload 0) demo_world"
proof -
  have "mem_ctr (InMemoryKV (FakeClock 0)) k = Some 0" for k by (simp add: mem_ctr_def InMemoryKV_def)
  then show ?thesis
    using history_inv_reachable [OF demo_reachable] demo_db_row
    by (simp add: ready_def demo_world_def world_db_def Settings_def int4_ok_def) (simp add: submitted_row_def)
qed

lemma demo_quiet: "only_during (w_awaits demo_world + 5) (\<lambda>sh. sh) demo_world"
  by (simp add: only_during_def demo_world_def)

lemma demo_args:
  "\<not> py_truthy (dict_get_none demo_payload ''poison'')" "exec_args demo_runtime demo_payload = Inr (10, Fin 0)"
  "exec_args demo_runtime [(''duration_ms'', JInt 10), (''failure_rate'', JInt 1)] = Inr (10, Fin 1)"
  "\<not> py_truthy (dict_get_none [(''duration_ms'', JInt 10), (''failure_rate'', JInt 1)] ''poison'')"
  by (simp_all add: demo_payload_def dict_get_none_def dict_get_def exec_args_def dict_item_def)

lemma demo_execute:
  obtains result finished where "execute 10 (Fin 0) (1 / 2) (\<lambda>d t. t + d) 0 = (Inr result, finished)"
  by (rule execute_runs [of 10 "\<lambda>d t. t + d" 0 "Fin 0" "1 / 2"]) simp_all

lemma demo_execute_failing:
  obtains msg finished where "execute 10 (Fin 1) (1 / 2) (\<lambda>d t. t + d) 0 = (Inl (SimulatedFailure msg), finished)"
  by (rule execute_runs [of 10 "\<lambda>d t. t + d" 0 "Fin 1" "1 / 2"]) simp_all

lemma demo_rng [simp]: "w_rng demo_world k = 1 / 2" "w_now demo_world = 0" "w_actions demo_world = []"
  by (simp_all add: demo_world_def)

text \<open>The lease is given back on every path: once a delivery has been granted its lease, then when
  its handling ends, with success, a recorded failure, a stale or illegal write, or an exception
  nobody catches, the store no longer holds that lease, whatever the other clients do.\<close>

theorem handle_releases_its_lease:
  assumes "key_value_store kv ok now held ctr deadline advance" and "kv_ok ok w"
    and "\<not> py_truthy (dict_get_none p ''poison'')"
    and "try_claim (world_kv kv) (of_int (lease_ttl_s cfg)) (uuid_str i) delivery w = (CLAIMED, w1)"
    and "acquire (world_kv kv) (of_int (lease_ttl_s cfg)) (uuid_str i) wid w1 = (Some l, w2)"
    and "handle kv rt sleep cfg wid i (JObj p) attempt delivery w = (out, w')"
  shows "map_option fst (held (sh_kv (w_shared w')) (lease_key (lease_resource l))) \<noteq>
    Some (lease_text (lease_holder l) (lease_token l))"
  using key_value_store.handle_releases [OF assms(1-5), where rt = rt and sleep = sleep and attempt = attempt] assms(6)
  by simp

theorem handle_releases_its_lease_witness:
  "map_option fst (mem_held (sh_kv (w_shared (snd (handle mem_kv demo_runtime (\<lambda>d t. t + d) Settings ''w1'' 1
     (JObj demo_payload) 1 ''w1:1'' demo_world)))) (lease_key (uuid_str 1))) \<noteq> Some (lease_text ''w1'' 1)"
proof -
  let ?w1 = "world_at demo_world ((w_shared demo_world)\<lparr>sh_kv := snd (try_claim mem_kv (of_int (lease_ttl_s Settings)) (uuid_str 1)
     ''w1:1'' (sh_kv (w_shared demo_world)))\<rparr>) 2"
  have aw: "w_awaits demo_world = 0" by (simp add: demo_world_def)
  note store = mem.ready_store(1) [OF demo_ready] mem.ready_store(2) [OF demo_ready, of "''w1:1''"]
    mem.ready_store(3) [OF demo_ready, of "''w1''" "''w1:1''"]
  have "try_claim (world_kv mem_kv) (of_int (lease_ttl_s Settings)) (uuid_str 1) ''w1:1''
      (world_at demo_world (w_shared demo_world) 0) = (CLAIMED, ?w1)"
    using kv_at(1) [OF demo_quiet, of 0] store aw by (simp add: numeral_2_eq_2)
  then have claim: "try_claim (world_kv mem_kv) (of_int (lease_ttl_s Settings)) (uuid_str 1) ''w1:1'' demo_world = (CLAIMED, ?w1)"
    using at_start [of demo_world] aw by simp
  obtain w2 where "acquire (world_kv mem_kv) (of_int (lease_ttl_s Settings)) (uuid_str 1) ''w1'' ?w1 = (Some (granted_lease 1 ''w1'' 0), w2)"
    using kv_at(2) [OF demo_quiet, of 2] store(3) aw by simp
  from handle_releases_its_lease [OF mem.key_value_store_axioms demo_world_rely(3) demo_args(1) claim this prod.collapse [symmetric]]
  show ?thesis by (simp add: granted_lease_def)
qed

text \<open>C8: The success path: a delivery of a job that waits (or was left running by a dead worker), not
  claimed and not leased, whose execution succeeds undisturbed, ends with the job \<open>succeeded\<close>, its
  result stored, exactly a start and a completion added to its log under the lease's token, the
  message acknowledged, the done marker set, and claim and lease gone.\<close>

theorem undisturbed_delivery_completes_the_job:
  assumes "key_value_store kv ok now held ctr deadline advance"
    and "ready kv ok held ctr cfg i attempt n row w" and "only_during (w_awaits w + 5) (\<lambda>sh. sh) w"
    and "\<not> py_truthy (dict_get_none p ''poison'')" and "exec_args rt p = Inr (dur, rate)"
    and "execute dur rate (w_rng w (w_draws w)) sleep (w_now w) = (Inr result, finished)"
  shows "\<exists>w' row' evs e1 e2. handle kv rt sleep cfg wid i (JObj p) attempt delivery w = (Inr (), w') \<and>
    w_actions w' = w_actions w @ [Ack] \<and> w_jobs_completed w' = w_jobs_completed w + 1 \<and>
    find_job i (world_db w') = Some row' \<and> jr_state row' = job_state_value S_SUCCEEDED \<and>
    jr_result row' = Some (JObj result) \<and> jr_fence row' = n + 1 \<and>
    replay_events i (world_db w) = Inr evs \<and> replay_events i (world_db w') = Inr (evs @ [e1, e2]) \<and>
    ev_type e1 = E_STARTED \<and> ev_type e2 = E_COMPLETED \<and>
    map_option fst (held (sh_kv (w_shared w')) (done_key (uuid_str i))) = Some delivery \<and>
    held (sh_kv (w_shared w')) (claim_key (uuid_str i)) = None \<and>
    held (sh_kv (w_shared w')) (lease_key (uuid_str i)) = None"
  by (rule key_value_store.delivery_succeeds [OF assms, of wid delivery]) (intro exI conjI; assumption)

theorem undisturbed_delivery_completes_the_job_witness:
  "\<exists>w' row'. handle mem_kv demo_runtime (\<lambda>d t. t + d) Settings ''w1'' 1 (JObj demo_payload) 1 ''w1:1'' demo_world = (Inr (), w') \<and>
     w_actions w' = [Ack] \<and> find_job 1 (world_db w') = Some row' \<and> jr_state row' = ''succeeded''"
proof -
  obtain result finished where "execute 10 (Fin 0) (1 / 2) (\<lambda>d t. t + d) 0 = (Inr result, finished)" by (rule demo_execute)
  then have "execute 10 (Fin 0) (w_rng demo_world (w_draws demo_world)) (\<lambda>d t. t + d) (w_now demo_world) = (Inr result, finished)"
    by simp
  from undisturbed_delivery_completes_the_job [OF mem.key_value_store_axioms demo_ready demo_quiet demo_args(1,2) this,
      of "''w1''" "''w1:1''"]
  show ?thesis by auto
qed

text \<open>C9: The retry ladder: when the execution fails undisturbed, an attempt below the delivery limit
  records \<open>REQUEUED\<close>, puts the job back to \<open>queued\<close> and naks with a delay of \<open>min(2^attempt, 30)\<close> seconds;
  the last attempt records \<open>FAILED\<close>, makes the job \<open>failed\<close> and terminates the message. Either way the
  error text is in the log and neither claim, lease nor done marker is left behind.\<close>

theorem failing_delivery_climbs_the_retry_ladder:
  assumes "key_value_store kv ok now held ctr deadline advance"
    and "ready kv ok held ctr cfg i attempt n row w" and "only_during (w_awaits w + 5) (\<lambda>sh. sh) w"
    and "\<not> py_truthy (dict_get_none p ''poison'')" and "exec_args rt p = Inr (dur, rate)"
    and "execute dur rate (w_rng w (w_draws w)) sleep (w_now w) = (Inl (SimulatedFailure text), finished)"
  shows "\<exists>w' row' evs e1 e2. handle kv rt sleep cfg wid i (JObj p) attempt delivery w = (Inr (), w') \<and>
    w_actions w' = w_actions w @ [if attempt < max_deliver cfg then Nak (min (2 powi attempt) 30) else Term] \<and>
    find_job i (world_db w') = Some row' \<and>
    jr_state row' = job_state_value (if attempt < max_deliver cfg then S_QUEUED else S_FAILED) \<and>
    replay_events i (world_db w) = Inr evs \<and> replay_events i (world_db w') = Inr (evs @ [e1, e2]) \<and>
    ev_type e1 = E_STARTED \<and> ev_type e2 = (if attempt < max_deliver cfg then E_REQUEUED else E_FAILED) \<and>
    dict_get (ev_detail e2) ''error'' = Some (JStr text) \<and>
    held (sh_kv (w_shared w')) (done_key (uuid_str i)) = None \<and>
    held (sh_kv (w_shared w')) (claim_key (uuid_str i)) = None \<and>
    held (sh_kv (w_shared w')) (lease_key (uuid_str i)) = None"
proof -
  have st: "state_after (if attempt < max_deliver cfg then E_REQUEUED else E_FAILED) =
      (if attempt < max_deliver cfg then S_QUEUED else S_FAILED)" by simp
  show ?thesis
    by (rule key_value_store.delivery_fails [OF assms, of wid delivery, unfolded st]) (intro exI conjI; assumption)
qed

theorem failing_delivery_climbs_the_retry_ladder_witness:
  "\<exists>w'. handle mem_kv demo_runtime (\<lambda>d t. t + d) Settings ''w1'' 1 (JObj [(''duration_ms'', JInt 10), (''failure_rate'', JInt 1)])
      1 ''w1:1'' demo_world = (Inr (), w') \<and> w_actions w' = [Nak 2]"
proof -
  obtain msg finished where "execute 10 (Fin 1) (1 / 2) (\<lambda>d t. t + d) 0 = (Inl (SimulatedFailure msg), finished)"
    by (rule demo_execute_failing)
  then have "execute 10 (Fin 1) (w_rng demo_world (w_draws demo_world)) (\<lambda>d t. t + d) (w_now demo_world) = (Inl (SimulatedFailure msg), finished)"
    by simp
  from failing_delivery_climbs_the_retry_ladder [OF mem.key_value_store_axioms demo_ready demo_quiet demo_args(4,3) this, of "''w1''" "''w1:1''"]
  show ?thesis by (auto simp: Settings_def)
qed

text \<open>A newer holder with token 9 that takes over while the job executes: once starting the job again, once
  also putting it back.\<close>

definition newer_start :: "'s shared \<Rightarrow> 's shared" where
  "newer_start sh = sh\<lparr>sh_db := snd (record_event 1 E_STARTED 2 None (Some 9) None (sh_db sh))\<rparr>"

definition newer_requeue :: "'s shared \<Rightarrow> 's shared" where
  "newer_requeue sh =
     (newer_start sh)\<lparr>sh_db := snd (record_event 1 E_REQUEUED 2 None (Some 9) None (sh_db (newer_start sh)))\<rparr>"

definition demo_contended :: "(in_memory_kv shared \<Rightarrow> in_memory_kv shared) \<Rightarrow> in_memory_kv world" where
  "demo_contended f = demo_world\<lparr>w_others := (\<lambda>n sh. if n = 5 then f sh else sh)\<rparr>"

lemma demo_contended_simps [simp]:
  "w_shared (demo_contended f) = w_shared demo_world" "world_db (demo_contended f) = demo_db"
  "only_during (w_awaits (demo_contended f) + 5) f (demo_contended f)"
  "w_actions (demo_contended f) = []" "w_rng (demo_contended f) k = 1 / 2" "w_now (demo_contended f) = 0"
  by (simp_all add: demo_contended_def world_db_def only_during_def demo_world_def)

lemma demo_contended_ready:
  "ready mem_kv mem_inv mem_held mem_ctr Settings 1 1 0 (submitted_row 1 ''key-1'' demo_payload 0) (demo_contended f)"
  using demo_ready by (simp add: ready_def demo_world_rely)

lemma demo_started: "sh_db (started_shared kv cfg 1 wid dl 1 0 (demo_contended f)) = started_db 1 1 1 demo_db"
  by (simp add: started_shared_def)

lemma newer_start_row:
  obtains row where "find_job 1 (sh_db (newer_start (started_shared kv cfg 1 wid dl 1 0 (demo_contended f)))) = Some row"
    "jr_state row = job_state_value S_RUNNING" "jr_fence row = 9"
proof -
  have row: "find_job 1 (started_db 1 1 1 demo_db) =
      Some (upd_row S_RUNNING 1 1 None (db_now demo_db) (submitted_row 1 ''key-1'' demo_payload 0))"
    unfolding started_db_def by (rule find_job_written [OF demo_db_row]) (simp add: submitted_row_def)
  have "record_event 1 E_STARTED 2 None (Some 9) None (started_db 1 1 1 demo_db) =
      (Inr S_RUNNING, write_event 1 E_STARTED 2 [] 9 None S_RUNNING (started_db 1 1 1 demo_db))"
    using record_event_ok [OF row, of S_RUNNING E_STARTED S_RUNNING 2 "Some 9" None None]
    by (simp add: fence_of_def int4_ok_def int8_ok_def lifecycle_simps)
  then have "find_job 1 (sh_db (newer_start (started_shared kv cfg 1 wid dl 1 0 (demo_contended f)))) =
      Some (upd_row S_RUNNING 2 9 None (db_now (started_db 1 1 1 demo_db))
        (upd_row S_RUNNING 1 1 None (db_now demo_db) (submitted_row 1 ''key-1'' demo_payload 0)))"
    using find_job_written [OF row, of 9] by (simp add: newer_start_def demo_started)
  then show ?thesis by (rule that) simp_all
qed

lemma newer_requeue_row:
  obtains row where "find_job 1 (sh_db (newer_requeue (started_shared kv cfg 1 wid dl 1 0 (demo_contended f)))) = Some row"
    "jr_state row = job_state_value S_QUEUED" "jr_fence row = 9"
proof -
  let ?d = "sh_db (newer_start (started_shared kv cfg 1 wid dl 1 0 (demo_contended f)))"
  obtain row where row: "find_job 1 ?d = Some row" "jr_state row = job_state_value S_RUNNING" "jr_fence row = 9"
    by (rule newer_start_row)
  have "record_event 1 E_REQUEUED 2 None (Some 9) None ?d = (Inr S_QUEUED, write_event 1 E_REQUEUED 2 [] 9 None S_QUEUED ?d)"
    using record_event_ok [OF row(1,2), of E_REQUEUED S_QUEUED 2 "Some 9" None None] row(3)
    by (simp add: fence_of_def int4_ok_def int8_ok_def lifecycle_simps)
  then have "find_job 1 (sh_db (newer_requeue (started_shared kv cfg 1 wid dl 1 0 (demo_contended f)))) =
      Some (upd_row S_QUEUED 2 9 None (db_now ?d) row)"
    using find_job_written [OF row(1), of 9] row(3) by (simp add: newer_requeue_def)
  then show ?thesis by (rule that) simp_all
qed

text \<open>An overtaken worker stands down: if, while the job executed, a newer holder started it again
  under a larger token, the completion of the older execution is refused by the fence; the handling
  then ends without an exception, performs no action on the message, and leaves the database exactly
  as the newer holder's writes left it.\<close>

theorem overtaken_worker_stands_down:
  assumes "key_value_store kv ok now held ctr deadline advance"
    and "ready kv ok held ctr cfg i attempt n row w" and "only_during (w_awaits w + 5) f w"
    and "\<not> py_truthy (dict_get_none p ''poison'')" and "exec_args rt p = Inr (dur, rate)"
    and "execute dur rate (w_rng w (w_draws w)) sleep (w_now w) = (Inr result, finished)"
    and "d = sh_db (f (started_shared kv cfg i wid delivery attempt n w))"
    and "find_job i d = Some row'" and "jr_state row' = job_state_value S_RUNNING" and "n + 1 < jr_fence row'"
  shows "\<exists>w'. handle kv rt sleep cfg wid i (JObj p) attempt delivery w = (Inr (), w') \<and>
    w_actions w' = w_actions w \<and> world_db w' = d"
proof -
  have "int4_ok attempt" "int8_ok (n + 1)" using assms(2) by (simp_all add: ready_def int8_ok_def)
  then have "record_event i E_COMPLETED attempt None (Some (n + 1)) (Some result) d =
      (Inl (StaleLeaseError (uuid_str i) (n + 1) (jr_fence row')), d)"
    using assms(8-10) by (intro record_event_stale [where s = S_RUNNING and st = S_SUCCEEDED]) (simp_all add: lifecycle_simps)
  from key_value_store.overtaken_success(1) [OF assms(1-7) this] show ?thesis by blast
qed

theorem overtaken_worker_stands_down_witness:
  "\<exists>w'. handle mem_kv demo_runtime (\<lambda>d t. t + d) Settings ''w1'' 1 (JObj demo_payload) 1 ''w1:1'' (demo_contended newer_start) = (Inr (), w') \<and>
     w_actions w' = []"
proof -
  obtain result finished where run: "execute 10 (Fin 0) (1 / 2) (\<lambda>d t. t + d) 0 = (Inr result, finished)" by (rule demo_execute)
  obtain row where row: "find_job 1 (sh_db (newer_start (started_shared mem_kv Settings 1 ''w1'' ''w1:1'' 1 0 (demo_contended newer_start)))) = Some row"
    "jr_state row = job_state_value S_RUNNING" "jr_fence row = 9" by (rule newer_start_row)
  from overtaken_worker_stands_down [where f = newer_start, OF mem.key_value_store_axioms demo_contended_ready demo_contended_simps(3) demo_args(1,2) _ refl row(1,2)]
    run row(3) show ?thesis by fastforce
qed

text \<open>C29: A worker can be crashed by its own failure handler: if the execution fails after a newer holder
  has taken the job over, recording \<open>REQUEUED\<close> raises \<open>StaleLeaseError\<close> inside the handler of the
  simulated failure, no other handler applies, and the exception leaves \<open>handle\<close> with the message
  neither acknowledged nor refused.\<close>

theorem overtaken_failure_escapes:
  assumes "key_value_store kv ok now held ctr deadline advance"
    and "ready kv ok held ctr cfg i attempt n row w" and "only_during (w_awaits w + 5) f w"
    and "\<not> py_truthy (dict_get_none p ''poison'')" and "exec_args rt p = Inr (dur, rate)"
    and "execute dur rate (w_rng w (w_draws w)) sleep (w_now w) = (Inl (SimulatedFailure text), finished)"
    and "d = sh_db (f (started_shared kv cfg i wid delivery attempt n w))" and "attempt < max_deliver cfg"
    and "find_job i d = Some row'" and "jr_state row' = job_state_value S_RUNNING" and "n + 1 < jr_fence row'"
  shows "\<exists>w'. handle kv rt sleep cfg wid i (JObj p) attempt delivery w =
      (Inl (StaleLeaseError (uuid_str i) (n + 1) (jr_fence row')), w') \<and> w_actions w' = w_actions w"
proof -
  have "int4_ok attempt" "int8_ok (n + 1)" using assms(2) by (simp_all add: ready_def int8_ok_def)
  then have "record_event i E_REQUEUED attempt (Some [(''error'', JStr text)]) (Some (n + 1)) None d =
      (Inl (StaleLeaseError (uuid_str i) (n + 1) (jr_fence row')), d)"
    using assms(9-11) by (intro record_event_stale [where s = S_RUNNING and st = S_QUEUED]) (simp_all add: lifecycle_simps)
  from key_value_store.overtaken_failure [OF assms(1-8) this] show ?thesis by blast
qed

theorem overtaken_failure_escapes_witness:
  "\<exists>w'. handle mem_kv demo_runtime (\<lambda>d t. t + d) Settings ''w1'' 1 (JObj [(''duration_ms'', JInt 10), (''failure_rate'', JInt 1)])
      1 ''w1:1'' (demo_contended newer_start) = (Inl (StaleLeaseError (uuid_str 1) 1 9), w') \<and> w_actions w' = []"
proof -
  obtain msg finished where run: "execute 10 (Fin 1) (1 / 2) (\<lambda>d t. t + d) 0 = (Inl (SimulatedFailure msg), finished)"
    by (rule demo_execute_failing)
  obtain row where row: "find_job 1 (sh_db (newer_start (started_shared mem_kv Settings 1 ''w1'' ''w1:1'' 1 0 (demo_contended newer_start)))) = Some row"
    "jr_state row = job_state_value S_RUNNING" "jr_fence row = 9" by (rule newer_start_row)
  have "1 < max_deliver Settings" by (simp add: Settings_def)
  from overtaken_failure_escapes [where f = newer_start, OF mem.key_value_store_axioms demo_contended_ready demo_contended_simps(3) demo_args(4,3) _ refl this row(1,2)]
    run row(3) show ?thesis by fastforce
qed

text \<open>C30: A fenced-out completion can strand its job: if, while the job executed, a newer holder took
  the job over and put it back to \<open>queued\<close>, the late completion is judged by the state machine before
  the fence; the worker takes the delivery for obsolete and terminates the message, and the job is
  left \<open>queued\<close> as it was.\<close>

theorem fenced_out_completion_terminates_a_queued_job:
  assumes "key_value_store kv ok now held ctr deadline advance"
    and "ready kv ok held ctr cfg i attempt n row w" and "only_during (w_awaits w + 5) f w"
    and "\<not> py_truthy (dict_get_none p ''poison'')" and "exec_args rt p = Inr (dur, rate)"
    and "execute dur rate (w_rng w (w_draws w)) sleep (w_now w) = (Inr result, finished)"
    and "d = sh_db (f (started_shared kv cfg i wid delivery attempt n w))"
    and "find_job i d = Some row'" and "jr_state row' = job_state_value S_QUEUED" and "n + 1 < jr_fence row'"
  shows "\<exists>w'. handle kv rt sleep cfg wid i (JObj p) attempt delivery w = (Inr (), w') \<and>
    w_actions w' = w_actions w @ [Term] \<and> find_job i (world_db w') = Some row'"
proof -
  have "record_event i E_COMPLETED attempt None (Some (n + 1)) (Some result) d =
      (Inl (IllegalTransition (Some S_QUEUED) E_COMPLETED), d)"
    by (rule record_event_illegal [OF assms(8,9)]) (simp add: lifecycle_simps)
  from key_value_store.overtaken_success(2) [OF assms(1-7) this] assms(8) show ?thesis by blast
qed

theorem fenced_out_completion_terminates_a_queued_job_witness:
  "\<exists>w' row. handle mem_kv demo_runtime (\<lambda>d t. t + d) Settings ''w1'' 1 (JObj demo_payload) 1 ''w1:1'' (demo_contended newer_requeue) = (Inr (), w') \<and>
     w_actions w' = [Term] \<and> find_job 1 (world_db w') = Some row \<and> jr_state row = ''queued''"
proof -
  obtain result finished where run: "execute 10 (Fin 0) (1 / 2) (\<lambda>d t. t + d) 0 = (Inr result, finished)" by (rule demo_execute)
  obtain row where row: "find_job 1 (sh_db (newer_requeue (started_shared mem_kv Settings 1 ''w1'' ''w1:1'' 1 0 (demo_contended newer_requeue)))) = Some row"
    "jr_state row = job_state_value S_QUEUED" "jr_fence row = 9" by (rule newer_requeue_row)
  from fenced_out_completion_terminates_a_queued_job [where f = newer_requeue, OF mem.key_value_store_axioms demo_contended_ready demo_contended_simps(3) demo_args(1,2) _ refl row(1,2)]
    run row(2,3) show ?thesis by fastforce
qed

section \<open>Overlapping acquisitions\<close>

text \<open>What a holder that comes and goes does to the store: it acquires the lease and, if it got it, gives it
  back.\<close>

definition passing_holder :: "'s kv_ops \<Rightarrow> real \<Rightarrow> string \<Rightarrow> string \<Rightarrow> 's \<Rightarrow> 's" where
  "passing_holder kv ttl r h s =
     (case acquire kv ttl r h s of (None, s1) \<Rightarrow> s1 | (Some l, s1) \<Rightarrow> snd (release kv l s1))"

context key_value_store
begin

lemma passing_holder_overtakes:
  assumes "inv s" "held s (lease_key r) = None" "ctr s (token_key r) = Some n" "n + 1 < 2 ^ 63 - 1" "0 < ttl"
  obtains s1 s2 where "fst (kv_incr ops (token_key r) s) = n + 1"
    "acquire ops ttl r h (snd (kv_incr ops (token_key r) s)) = (Some \<lparr>lease_resource = r, lease_holder = h, lease_token = n + 2\<rparr>, s1)"
    "release ops \<lparr>lease_resource = r, lease_holder = h, lease_token = n + 2\<rparr> s1 = (True, s2)"
    "passing_holder ops ttl r h (snd (kv_incr ops (token_key r) s)) = s2" "inv s2" "held s2 (lease_key r) = None"
proof -
  let ?s = "snd (kv_incr ops (token_key r) s)" and ?l = "\<lparr>lease_resource = r, lease_holder = h, lease_token = n + 2\<rparr>"
  have s: "inv ?s" "held ?s (lease_key r) = None" "ctr ?s (token_key r) = Some (n + 1)" "fst (kv_incr ops (token_key r) s) = n + 1"
    using assms by (simp_all add: held_incr ctr_incr incr_result)
  define s1 where "s1 = snd (acquire ops ttl r h ?s)"
  have got: "acquire ops ttl r h ?s = (Some ?l, s1)"
    using acquire_result [OF s(1,3), of ttl h] s(2) assms(4) by (simp add: s1_def prod_eq_iff)
  have s1: "inv s1" "map_option fst (held s1 (lease_key r)) = Some (lease_text h (n + 2))"
    using acquire_held [OF s(1,3) assms(4,5), of h] s(1,2) by (simp_all add: s1_def)
  define s2 where "s2 = snd (release ops ?l s1)"
  have rel: "release ops ?l s1 = (True, s2)" using s1 by (simp add: s2_def prod_eq_iff)
  have s2: "inv s2" "held s2 (lease_key r) = None" using s1 release_held [OF s1(1), of ?l] by (simp_all add: s2_def)
  show ?thesis by (rule that [OF s(4) got rel _ s2]) (simp add: passing_holder_def got rel)
qed

end

text \<open>C40: An acquisition is two store commands, and another client can run between them. On every store
  that keeps the contract, if a client is between drawing its token and setting its entry while another
  one acquires the lease and gives it back, both are granted, and the token of the later grant is
  the smaller one: the lease is then held under a token below one that was granted before. Once
  the earlier grant has written under its token, the fence refuses the writes of the present holder as
  stale.\<close>

theorem overlapping_acquires_invert_tokens:
  assumes "key_value_store kv ok now held ctr deadline advance"
    and "ok (sh_kv (w_shared w))" and "held (sh_kv (w_shared w)) (lease_key r) = None"
    and "ctr (sh_kv (w_shared w)) (token_key r) = Some n" and "n + 1 < 2 ^ 63 - 1" and "0 < ttl"
    and "only_during (w_awaits w + 1) (\<lambda>sh. sh\<lparr>sh_kv := passing_holder kv ttl r hb (sh_kv sh)\<rparr>) w"
    and "fence_check r (n + 2) v = (Inr (), v')"
  shows "\<exists>s1 s2 la lb w'. acquire kv ttl r hb (snd (kv_incr kv (token_key r) (sh_kv (w_shared w)))) = (Some lb, s1) \<and>
    release kv lb s1 = (True, s2) \<and> acquire (world_kv kv) ttl r ha w = (Some la, w') \<and>
    lease_token lb = n + 2 \<and> lease_token la = n + 1 \<and>
    map_option fst (held (sh_kv (w_shared w')) (lease_key r)) = Some (lease_text ha (n + 1)) \<and>
    fence_check r (lease_token la) v' = (Inl (StaleLeaseError r (lease_token la) (lease_token lb)), v')"
proof -
  let ?s = "sh_kv (w_shared w)" and ?k = "lease_key r"
  let ?f = "\<lambda>sh. sh\<lparr>sh_kv := passing_holder kv ttl r hb (sh_kv sh)\<rparr>"
  obtain s1 s2 where run: "fst (kv_incr kv (token_key r) ?s) = n + 1"
      "acquire kv ttl r hb (snd (kv_incr kv (token_key r) ?s)) = (Some \<lparr>lease_resource = r, lease_holder = hb, lease_token = n + 2\<rparr>, s1)"
      "release kv \<lparr>lease_resource = r, lease_holder = hb, lease_token = n + 2\<rparr> s1 = (True, s2)"
      "passing_holder kv ttl r hb (snd (kv_incr kv (token_key r) ?s)) = s2" "ok s2" "held s2 ?k = None"
    using key_value_store.passing_holder_overtakes [OF assms(1-6)] by blast
  let ?set = "kv_set_if_absent kv ?k (lease_text ha (n + 1)) ttl s2"
  let ?w' = "world_at w ((w_shared w)\<lparr>sh_kv := snd ?set\<rparr>) (w_awaits w + 2)"
  have set: "fst ?set" "held (snd ?set) ?k = Some (lease_text ha (n + 1), Some (deadline s2 ttl))"
    using key_value_store.set_result [OF assms(1) run(5)] key_value_store.held_set [OF assms(1) run(5) assms(6)] run(6) by auto
  have incr: "kv_incr (world_kv kv) (token_key r) w =
      (n + 1, world_at w ((w_shared w)\<lparr>sh_kv := snd (kv_incr kv (token_key r) ?s)\<rparr>) (w_awaits w + 1))"
    using awaiting_at(1) [OF assms(7), of "w_awaits w" "on_kv (kv_incr kv (token_key r))" "w_shared w"] run(1)
    by (simp add: world_kv_def on_kv_def split_beta Let_def flip: at_start)
  have "kv_set_if_absent (world_kv kv) ?k (lease_text ha (n + 1)) ttl
      (world_at w ((w_shared w)\<lparr>sh_kv := snd (kv_incr kv (token_key r) ?s)\<rparr>) (w_awaits w + 1)) = (True, ?w')"
    using awaiting_at(2) [OF assms(7), of "on_kv (kv_set_if_absent kv ?k (lease_text ha (n + 1)) ttl)"] run(4) set(1)
    by (simp add: world_kv_def on_kv_def split_beta Let_def)
  then have "acquire (world_kv kv) ttl r ha w = (Some \<lparr>lease_resource = r, lease_holder = ha, lease_token = n + 1\<rparr>, ?w')"
    by (simp add: acquire_def incr)
  moreover have "fence_check r (n + 1) v' = (Inl (StaleLeaseError r (n + 1) (n + 2)), v')"
    using assms(8) by (auto simp: fence_check_def Let_def newest_accepted_def split: if_splits)
  ultimately show ?thesis using run(2,3) set(2) by simp
qed

theorem overlapping_acquires_invert_tokens_witness:
  "\<exists>l w'. acquire (world_kv mem_kv) 20 ''j'' ''a'' (demo_world\<lparr>w_others := \<lambda>n sh. if n = 1
       then sh\<lparr>sh_kv := passing_holder mem_kv 20 ''j'' ''b'' (sh_kv sh)\<rparr> else sh\<rparr>) = (Some l, w') \<and> lease_token l = 1 \<and>
     fence_check ''j'' 1 [''j'' \<mapsto> 2] = (Inl (StaleLeaseError ''j'' 1 2), [''j'' \<mapsto> 2])"
proof -
  let ?w = "demo_world\<lparr>w_others := \<lambda>n sh. if n = 1 then sh\<lparr>sh_kv := passing_holder mem_kv 20 ''j'' ''b'' (sh_kv sh)\<rparr> else sh\<rparr>"
  have start: "mem_inv (sh_kv (w_shared ?w))" "mem_held (sh_kv (w_shared ?w)) (lease_key ''j'') = None"
      "mem_ctr (sh_kv (w_shared ?w)) (token_key ''j'') = Some 0" "(0::int) + 1 < 2 ^ 63 - 1" "(0::real) < 20"
    by (simp_all add: demo_world_def mem_ctr_def InMemoryKV_def mem_inv_def mem_held_def)
  have during: "only_during (w_awaits ?w + 1) (\<lambda>sh. sh\<lparr>sh_kv := passing_holder mem_kv 20 ''j'' ''b'' (sh_kv sh)\<rparr>) ?w"
    by (simp add: only_during_def demo_world_def)
  have written: "fence_check ''j'' (0 + 2) Map.empty = (Inr (), [''j'' \<mapsto> 2])" by (simp add: fence_check_def newest_accepted_def)
  from overlapping_acquires_invert_tokens [OF mem.key_value_store_axioms start during written, of "''a''"] show ?thesis by auto
qed

end
