(* ===== verification/Crash.thy ===== *)
theory Crash
  imports Delivery
begin

text \<open>
  A worker killed at any point: the \<^verbatim>\<open>CHAOS\<close> handler of \<^verbatim>\<open>src/orbiter/worker/main.py\<close> ends the process with
  \<^verbatim>\<open>os._exit\<close>, without any of the clean-up of \<^verbatim>\<open>handle\<close>. The handler runs when the coroutine gives up control, so a
  killed worker leaves behind the shared state as it is at one of its awaits. \<open>kill_points\<close> lists
  these states by running \<open>handle\<close> itself on a watched world, whose store carries a log to which
  every await appends the state it finds.
\<close>

section \<open>The watched world\<close>

definition watching :: "('s \<Rightarrow> 'a \<times> 's) \<Rightarrow> 's \<times> 'l \<Rightarrow> 'a \<times> ('s \<times> 'l)" where
  "watching call sl = (let (r, s) = call (fst sl) in (r, s, snd sl))"

definition watched_kv :: "'s kv_ops \<Rightarrow> ('s \<times> 'l) kv_ops" where
  "watched_kv kv = \<lparr>
     kv_get = (\<lambda>k. watching (kv_get kv k)),
     kv_set_if_absent = (\<lambda>k v ttl. watching (kv_set_if_absent kv k v ttl)),
     kv_incr = (\<lambda>k. watching (kv_incr kv k)),
     kv_compare_and_delete = (\<lambda>k v. watching (kv_compare_and_delete kv k v))\<rparr>"

definition plain :: "('s \<times> 'l) shared \<Rightarrow> 's shared" where
  "plain sh = \<lparr>sh_kv = fst (sh_kv sh), sh_db = sh_db sh\<rparr>"

definition with_log :: "'l \<Rightarrow> 's shared \<Rightarrow> ('s \<times> 'l) shared" where
  "with_log l sh = \<lparr>sh_kv = (sh_kv sh, l), sh_db = sh_db sh\<rparr>"

definition watch :: "'s shared list \<Rightarrow> 's world \<Rightarrow> ('s \<times> 's shared list) world" where
  "watch l w = \<lparr>w_shared = with_log l (w_shared w),
     w_others = (\<lambda>n sh. with_log (snd (sh_kv sh) @ [plain sh]) (w_others w n (plain sh))),
     w_awaits = w_awaits w, w_actions = w_actions w, w_rng = w_rng w, w_draws = w_draws w, w_now = w_now w,
     w_jobs_completed = w_jobs_completed w, w_jobs_requeued = w_jobs_requeued w, w_jobs_failed = w_jobs_failed w,
     w_durations = w_durations w, w_shutdown = w_shutdown w, w_died = w_died w\<rparr>"

definition kill_points ::
    "'s kv_ops \<Rightarrow> py_runtime \<Rightarrow> (real \<Rightarrow> real \<Rightarrow> real) \<Rightarrow> settings \<Rightarrow> string \<Rightarrow> uuid \<Rightarrow> json \<Rightarrow> int \<Rightarrow> string \<Rightarrow>
       's world \<Rightarrow> 's shared list" where
  "kill_points kv rt sleep cfg wid i payload attempt delivery w =
     snd (sh_kv (w_shared (snd (handle (watched_kv kv) rt sleep cfg wid i payload attempt delivery (watch [] w)))))"

lemma plain_with_log [simp]: "plain (with_log l sh) = sh" "sh_kv (with_log l sh) = (sh_kv sh, l)" "sh_db (with_log l sh) = sh_db sh"
  by (simp_all add: plain_def with_log_def)

lemma watch_simps [simp]:
  "w_shared (watch l w) = with_log l (w_shared w)" "w_awaits (watch l w) = w_awaits w" "w_actions (watch l w) = w_actions w"
  "w_rng (watch l w) = w_rng w" "w_draws (watch l w) = w_draws w" "w_now (watch l w) = w_now w"
  "w_jobs_completed (watch l w) = w_jobs_completed w" "w_jobs_requeued (watch l w) = w_jobs_requeued w"
  "w_jobs_failed (watch l w) = w_jobs_failed w" "w_durations (watch l w) = w_durations w"
  "(watch l w)\<lparr>w_actions := x1\<rparr> = watch l (w\<lparr>w_actions := x1\<rparr>)" "(watch l w)\<lparr>w_draws := x2\<rparr> = watch l (w\<lparr>w_draws := x2\<rparr>)"
  "(watch l w)\<lparr>w_now := x3\<rparr> = watch l (w\<lparr>w_now := x3\<rparr>)" "(watch l w)\<lparr>w_jobs_completed := x4\<rparr> = watch l (w\<lparr>w_jobs_completed := x4\<rparr>)"
  "(watch l w)\<lparr>w_jobs_requeued := x5\<rparr> = watch l (w\<lparr>w_jobs_requeued := x5\<rparr>)"
  "(watch l w)\<lparr>w_jobs_failed := x6\<rparr> = watch l (w\<lparr>w_jobs_failed := x6\<rparr>)"
  "(watch l w)\<lparr>w_durations := x7\<rparr> = watch l (w\<lparr>w_durations := x7\<rparr>)"
  by (simp_all add: watch_def)

text \<open>One await of the watched world is the await of the plain one, and logs the state before it.\<close>

lemma awaiting_watched:
  assumes "\<And>sh l. call' (with_log l sh) = (fst (call sh), with_log l (snd (call sh)))"
  shows "awaiting call' (watch l w) = (fst (awaiting call w), watch (l @ [w_shared w]) (snd (awaiting call w)))"
  by (simp add: awaiting_def assms Let_def split_beta) (simp add: watch_def assms)

lemma watched_calls:
  "awaiting (on_kv (watching f)) (watch l w) = (fst (awaiting (on_kv f) w), watch (l @ [w_shared w]) (snd (awaiting (on_kv f) w)))"
  "awaiting (on_db g) (watch l w) = (fst (awaiting (on_db g) w), watch (l @ [w_shared w]) (snd (awaiting (on_db g) w)))"
  "awaiting (\<lambda>sh. ((), sh)) (watch l w) =
     (fst (awaiting (\<lambda>sh. ((), sh)) w), watch (l @ [w_shared w]) (snd (awaiting (\<lambda>sh. ((), sh)) w)))"
  by (rule awaiting_watched; simp add: on_kv_def on_db_def watching_def with_log_def split_beta Let_def)+

lemma watched_kv_sel [simp]:
  "kv_get (watched_kv kv) k = watching (kv_get kv k)" "kv_set_if_absent (watched_kv kv) k v ttl = watching (kv_set_if_absent kv k v ttl)"
  "kv_incr (watched_kv kv) k = watching (kv_incr kv k)"
  "kv_compare_and_delete (watched_kv kv) k v = watching (kv_compare_and_delete kv k v)"
  by (simp_all add: watched_kv_def)

text \<open>Watching changes nothing but the log: the watched run of a delivery ends as the plain one does.\<close>

definition watched :: "('a \<times> 's world) \<Rightarrow> 's shared list \<Rightarrow> 'a \<times> ('s \<times> 's shared list) world" where
  "watched rw l = (fst rw, watch l (snd rw))"

lemma watched_ops:
  "\<exists>l'. try_claim (world_kv (watched_kv kv)) ttl j d (watch l w) = watched (try_claim (world_kv kv) ttl j d w) l'"
  "\<exists>l'. acquire (world_kv (watched_kv kv)) ttl j h (watch l w) = watched (acquire (world_kv kv) ttl j h w) l'"
  "\<exists>l'. release (world_kv (watched_kv kv)) ls (watch l w) = watched (release (world_kv kv) ls w) l'"
  "\<exists>l'. mark_done (world_kv (watched_kv kv)) ttl j d (watch l w) = watch l' (mark_done (world_kv kv) ttl j d w)"
  "\<exists>l'. release_claim (world_kv (watched_kv kv)) j d (watch l w) = watch l' (release_claim (world_kv kv) j d w)"
  "\<exists>l'. msg_act a (watch l w) = watch l' (msg_act a w)"
  by (auto simp: try_claim_def acquire_def release_def mark_done_def release_claim_def msg_act_def watched_def world_kv_def
      watched_calls Let_def split_beta split: if_splits)

lemma watched_simps [simp]: "fst (watched rw l) = fst rw" "snd (watched rw l) = watch l (snd rw)"
  by (simp_all add: watched_def)

lemma watched_execute: "\<exists>l'. run_execute sleep dur rate (watch l w) = watched (run_execute sleep dur rate w) l'"
  by (auto simp: run_execute_def rng_random_def watched_def watched_calls Let_def split_beta)

lemma watched_complete:
  "\<exists>l'. complete_job (watched_kv kv) cfg i attempt delivery ls result (watch l w) =
     watched (complete_job kv cfg i attempt delivery ls result w) l'"
proof -
  let ?c = "awaiting (on_db (record_event i E_COMPLETED attempt None (Some (lease_token ls)) (Some result))) w"
  let ?w2 = "mark_done (world_kv kv) (of_int (exec_guard_ttl_s cfg)) (uuid_str i) delivery (snd ?c)"
  obtain l2 where "mark_done (world_kv (watched_kv kv)) (of_int (exec_guard_ttl_s cfg)) (uuid_str i) delivery (watch (l @ [w_shared w]) (snd ?c)) = watch l2 ?w2"
    using watched_ops(4) by blast
  moreover obtain l3 where "msg_act Ack (watch l2 ?w2) = watch l3 (msg_act Ack ?w2)" using watched_ops(6) by blast
  ultimately show ?thesis
    by (auto simp: complete_job_def watched_def watched_calls Let_def split_beta split: sum.splits json.splits)
qed

lemma watched_try:
  "\<exists>l'. try_job (watched_kv kv) rt sleep cfg i p attempt delivery ls (watch l w) =
     watched (try_job kv rt sleep cfg i p attempt delivery ls w) l'"
proof -
  obtain started w1 where s: "awaiting (on_db (record_event i E_STARTED attempt None (Some (lease_token ls)) None)) w = (started, w1)"
    by fastforce
  show ?thesis
  proof (cases started)
    case (Inl e)
    with s show ?thesis by (auto simp: try_job_def watched_calls watched_def)
  next
    case started: (Inr st)
    show ?thesis
    proof (cases "exec_args rt p")
      case (Inl e)
      with s started show ?thesis by (auto simp: try_job_def watched_calls watched_def)
    next
      case (Inr args)
      obtain dur rate executed w2 where e: "args = (dur, rate)" "run_execute sleep dur rate w1 = (executed, w2)"
        by (metis surj_pair)
      obtain l2 where l2: "run_execute sleep dur rate (watch (l @ [w_shared w]) w1) = (executed, watch l2 w2)"
        using watched_execute [of sleep dur rate "l @ [w_shared w]" w1] e(2) by (auto simp: watched_def)
      have "\<exists>l'. complete_job (watched_kv kv) cfg i attempt delivery ls result (watch l2 w2) =
          watched (complete_job kv cfg i attempt delivery ls result w2) l'" for result by (rule watched_complete)
      with s started Inr e l2 show ?thesis
        by (cases executed) (auto simp: try_job_def watched_calls watched_def)
    qed
  qed
qed

lemma watched_except:
  "\<exists>l'. except_job (watched_kv kv) cfg i attempt delivery ls e (watch l w) =
     watched (except_job kv cfg i attempt delivery ls e w) l'"
proof -
  have end_of: "\<exists>l'. (case r of Inl e' \<Rightarrow> (Inl e', watch l1 w1) | Inr _ \<Rightarrow> let w2 = release_claim (world_kv (watched_kv kv)) j delivery (watch l1 w1);
        w3 = msg_act a w2 in (Inr (), g' w3)) = watched (case r of Inl e' \<Rightarrow> (Inl e', w1) | Inr _ \<Rightarrow>
        let w2 = release_claim (world_kv kv) j delivery w1; w3 = msg_act a w2 in (Inr (), g w3)) l'"
    if "\<And>l w. g' (watch l w) = watch l (g w)"
    for g :: "'a world \<Rightarrow> 'a world" and g' :: "('a \<times> 'a shared list) world \<Rightarrow> ('a \<times> 'a shared list) world" and r :: "exn + job_state" and l1 w1 j a
  proof -
    obtain l2 l3 where "release_claim (world_kv (watched_kv kv)) j delivery (watch l1 w1) = watch l2 (release_claim (world_kv kv) j delivery w1)"
      "msg_act a (watch l2 (release_claim (world_kv kv) j delivery w1)) = watch l3 (msg_act a (release_claim (world_kv kv) j delivery w1))"
      using watched_ops(5,6) by metis
    then show ?thesis by (auto simp: watched_def that split: sum.splits)
  qed
  show ?thesis
  proof (cases e)
    case (SimulatedFailure msg)
    then show ?thesis
      using end_of [where g = "\<lambda>w. w\<lparr>w_jobs_requeued := w_jobs_requeued w + 1\<rparr>" and g' = "\<lambda>w. w\<lparr>w_jobs_requeued := w_jobs_requeued w + 1\<rparr>"]
        end_of [where g = "\<lambda>w. w\<lparr>w_jobs_failed := w_jobs_failed w + 1\<rparr>" and g' = "\<lambda>w. w\<lparr>w_jobs_failed := w_jobs_failed w + 1\<rparr>"]
      by (simp add: except_job_def watched_calls split_beta Let_def)
  next
    case (IllegalTransition s v)
    then show ?thesis using end_of [where r = "Inr S_QUEUED" and g = "\<lambda>w. w" and g' = "\<lambda>w. w"]
      by (simp add: except_job_def Let_def)
  qed (auto simp: except_job_def watched_def)
qed

lemma watched_leased:
  assumes "\<not> py_truthy (dict_get_none p ''poison'')"
    "try_claim (world_kv kv) (of_int (lease_ttl_s cfg)) (uuid_str i) delivery w = (CLAIMED, w1)"
    "try_claim (world_kv (watched_kv kv)) (of_int (lease_ttl_s cfg)) (uuid_str i) delivery (watch l w) = (CLAIMED, watch l1 w1)"
    "acquire (world_kv kv) (of_int (lease_ttl_s cfg)) (uuid_str i) wid w1 = (Some ls, w2)"
    "acquire (world_kv (watched_kv kv)) (of_int (lease_ttl_s cfg)) (uuid_str i) wid (watch l1 w1) = (Some ls, watch l2 w2)"
  shows "\<exists>l'. handle (watched_kv kv) rt sleep cfg wid i (JObj p) attempt delivery (watch l w) =
     watched (handle kv rt sleep cfg wid i (JObj p) attempt delivery w) l'"
proof -
  obtain tried w3 l3 where t: "try_job kv rt sleep cfg i p attempt delivery ls w2 = (tried, w3)"
    "try_job (watched_kv kv) rt sleep cfg i p attempt delivery ls (watch l2 w2) = (tried, watch l3 w3)"
    using watched_try by (metis watched_def prod.collapse)
  obtain out w4 l4 where x: "(case tried of Inr _ \<Rightarrow> (Inr (), w3) | Inl e \<Rightarrow> except_job kv cfg i attempt delivery ls e w3) = (out, w4)"
    "(case tried of Inr _ \<Rightarrow> (Inr (), watch l3 w3) | Inl e \<Rightarrow> except_job (watched_kv kv) cfg i attempt delivery ls e (watch l3 w3)) = (out, watch l4 w4)"
    using watched_except [of kv cfg i attempt delivery ls _ l3 w3] by (cases tried) (auto simp: watched_def, metis prod.collapse)
  obtain l5 where "snd (release (world_kv (watched_kv kv)) ls (watch l4 w4)) = watch l5 (snd (release (world_kv kv) ls w4))"
    using watched_ops(3) [of kv ls l4 w4] by auto
  with handle_leased [OF assms(1,2,4) t(1) x(1)]
    handle_leased [OF assms(1,3,5) t(2) x(2)]
  show ?thesis by (auto simp: watched_def)
qed

theorem watching_changes_nothing:
  "\<exists>l'. handle (watched_kv kv) rt sleep cfg wid i payload attempt delivery (watch l w) =
     watched (handle kv rt sleep cfg wid i payload attempt delivery w) l'"
proof (cases payload)
  case (JObj p)
  show ?thesis
  proof (cases "py_truthy (dict_get_none p ''poison'')")
    case True
    with JObj watched_ops(6) show ?thesis by (auto simp: handle_def watched_def)
  next
    case sane: False
    obtain claim w1 where c: "try_claim (world_kv kv) (of_int (lease_ttl_s cfg)) (uuid_str i) delivery w = (claim, w1)" by fastforce
    then obtain l1 where c': "try_claim (world_kv (watched_kv kv)) (of_int (lease_ttl_s cfg)) (uuid_str i) delivery (watch l w) = (claim, watch l1 w1)"
      using watched_ops(1) by (metis watched_simps prod.collapse fst_conv snd_conv)
    have nak: "\<exists>l'. (Inr () :: exn + unit, msg_act (Nak x) (watch l2 w2)) = watched (Inr (), msg_act (Nak x) w2) l'" for x l2 w2
      using watched_ops(6) by (auto simp: watched_def)
    show ?thesis
    proof (cases claim)
      case ALREADY_DONE
      with c c' sane JObj watched_ops(6) [of Ack l1 w1] show ?thesis by (auto simp: handle_def watched_def)
    next
      case IN_PROGRESS
      with c c' sane JObj nak show ?thesis
        by (auto simp: handle_def rng_uniform_def rng_random_def Let_def)
    next
      case CLAIMED
      obtain got w2 where a: "acquire (world_kv kv) (of_int (lease_ttl_s cfg)) (uuid_str i) wid w1 = (got, w2)" by fastforce
      then obtain l2 where a': "acquire (world_kv (watched_kv kv)) (of_int (lease_ttl_s cfg)) (uuid_str i) wid (watch l1 w1) = (got, watch l2 w2)"
        using watched_ops(2) by (metis watched_simps prod.collapse fst_conv snd_conv)
      show ?thesis
      proof (cases got)
        case None
        obtain l3 where "release_claim (world_kv (watched_kv kv)) (uuid_str i) delivery (watch l2 w2) = watch l3 (release_claim (world_kv kv) (uuid_str i) delivery w2)"
          using watched_ops(5) by blast
        with None CLAIMED a a' c c' sane JObj nak show ?thesis
          by (auto simp: handle_def rng_uniform_def rng_random_def Let_def)
      next
        case (Some ls)
        with watched_leased [OF sane c [unfolded CLAIMED] c' [unfolded CLAIMED]] a a' JObj show ?thesis by simp
      qed
    qed
  qed
qed (auto simp: handle_def watched_def)

section \<open>The kill points of a delivery that runs undisturbed\<close>

definition quiet :: "'s world \<Rightarrow> bool" where
  "quiet w \<longleftrightarrow> w_others w = (\<lambda>n sh. sh)"

lemma quiet_only_during: "quiet w \<Longrightarrow> only_during k (\<lambda>sh. sh) w"
  by (auto simp: quiet_def only_during_def)

lemma quiet_upd [simp]:
  "quiet (w\<lparr>w_actions := x1\<rparr>) = quiet w" "quiet (w\<lparr>w_now := x2\<rparr>) = quiet w" "quiet (w\<lparr>w_draws := x3\<rparr>) = quiet w"
  "quiet (w\<lparr>w_jobs_completed := x4\<rparr>) = quiet w" "quiet (w\<lparr>w_durations := x5\<rparr>) = quiet w"
  by (simp_all add: quiet_def)

lemma awaiting_quiet: "quiet w \<Longrightarrow> awaiting call (world_at w sh n) = (fst (call sh), world_at w (snd (call sh)) (Suc n))"
  by (simp add: awaiting_def quiet_def split_beta Let_def world_at_def)

lemma watched_quiet:
  assumes "quiet w"
  shows "fst (kv_get kv (done_key j) (sh_kv sh)) = None \<Longrightarrow>
      try_claim (world_kv (watched_kv kv)) ttl j d (watch l (world_at w sh n)) =
        (fst (try_claim kv ttl j d (sh_kv sh)),
         watch (l @ [sh, sh\<lparr>sh_kv := snd (kv_get kv (done_key j) (sh_kv sh))\<rparr>])
           (world_at w (sh\<lparr>sh_kv := snd (try_claim kv ttl j d (sh_kv sh))\<rparr>) (n + 2)))"
    "acquire (world_kv (watched_kv kv)) ttl j h (watch l (world_at w sh n)) =
        (fst (acquire kv ttl j h (sh_kv sh)),
         watch (l @ [sh, sh\<lparr>sh_kv := snd (kv_incr kv (token_key j) (sh_kv sh))\<rparr>])
           (world_at w (sh\<lparr>sh_kv := snd (acquire kv ttl j h (sh_kv sh))\<rparr>) (n + 2)))"
    "mark_done (world_kv (watched_kv kv)) ttl j d (watch l (world_at w sh n)) =
        watch (l @ [sh, sh\<lparr>sh_kv := snd (kv_set_if_absent kv (done_key j) d ttl (sh_kv sh))\<rparr>])
          (world_at w (sh\<lparr>sh_kv := mark_done kv ttl j d (sh_kv sh)\<rparr>) (n + 2))"
    "release (world_kv (watched_kv kv)) ls (watch l (world_at w sh n)) =
        (fst (release kv ls (sh_kv sh)), watch (l @ [sh]) (world_at w (sh\<lparr>sh_kv := snd (release kv ls (sh_kv sh))\<rparr>) (n + 1)))"
    "awaiting (on_db call) (watch l (world_at w sh n)) =
        (fst (call (sh_db sh)), watch (l @ [sh]) (world_at w (sh\<lparr>sh_db := snd (call (sh_db sh))\<rparr>) (n + 1)))"
    "msg_act a (watch l (world_at w sh n)) = watch (l @ [sh]) (world_at (w\<lparr>w_actions := w_actions w @ [a]\<rparr>) sh (n + 1))"
    "run_execute sleep dur rate (watch l (world_at w sh n)) =
        (fst (execute dur rate (w_rng w (w_draws w)) sleep (w_now w)),
         watch (l @ [sh]) (world_at (w\<lparr>w_draws := Suc (w_draws w),
           w_now := snd (execute dur rate (w_rng w (w_draws w)) sleep (w_now w))\<rparr>) sh (n + 1)))"
  using assms
  by (auto simp: try_claim_def acquire_def mark_done_def release_def msg_act_def run_execute_def rng_random_def world_kv_def
      watched_calls awaiting_quiet on_kv_def on_db_def split_beta Let_def)

text \<open>The states at the awaits of \<open>handle\<close> on the success path: before and after the query for the done
  marker, after the claim, the token, the lease, \<^verbatim>\<open>STARTED\<close>, the execution, \<^verbatim>\<open>COMPLETED\<close>, the done marker, the
  release of the claim, and the acknowledgement.\<close>

definition success_points ::
    "'s kv_ops \<Rightarrow> settings \<Rightarrow> string \<Rightarrow> uuid \<Rightarrow> int \<Rightarrow> int \<Rightarrow> string \<Rightarrow> pydict \<Rightarrow> 's shared \<Rightarrow> 's shared list" where
  "success_points kv cfg wid i attempt n delivery result sh =
     (let j = uuid_str i; ttl = of_int (lease_ttl_s cfg);
          asked = sh\<lparr>sh_kv := snd (kv_get kv (done_key j) (sh_kv sh))\<rparr>;
          claimed = sh\<lparr>sh_kv := snd (try_claim kv ttl j delivery (sh_kv sh))\<rparr>;
          drawn = sh\<lparr>sh_kv := snd (kv_incr kv (token_key j) (sh_kv claimed))\<rparr>;
          leased = sh\<lparr>sh_kv := leased_kv kv cfg i wid delivery (sh_kv sh)\<rparr>;
          started = leased\<lparr>sh_db := started_db i attempt (n + 1) (sh_db sh)\<rparr>;
          completed = started\<lparr>sh_db := snd (record_event i E_COMPLETED attempt None (Some (n + 1)) (Some result) (sh_db started))\<rparr>;
          marked = completed\<lparr>sh_kv := snd (kv_set_if_absent kv (done_key j) delivery (of_int (exec_guard_ttl_s cfg)) (sh_kv completed))\<rparr>;
          settled = completed\<lparr>sh_kv := mark_done kv (of_int (exec_guard_ttl_s cfg)) j delivery (sh_kv completed)\<rparr>
      in [sh, asked, claimed, drawn, leased, started, started, completed, marked, settled, settled])"

context key_value_store
begin

lemma kill_points_success:
  assumes "ready ops inv held ctr cfg i attempt n row w" "quiet w"
    "\<not> py_truthy (dict_get_none p ''poison'')" "exec_args rt p = Inr (dur, rate)"
    "execute dur rate (w_rng w (w_draws w)) sleep (w_now w) = (Inr result, finished)"
  shows "kill_points ops rt sleep cfg wid i (JObj p) attempt delivery w =
    success_points ops cfg wid i attempt n delivery result (w_shared w)"
proof -
  let ?sh = "w_shared w" and ?a = "w_awaits w" and ?l = "granted_lease i wid n"
  let ?ttl = "of_int (lease_ttl_s cfg) :: real" and ?j = "uuid_str i"
  note store = ready_store [OF assms(1)]
  note step = watched_quiet [where w = w, OF assms(2)] 
  let ?pts = "\<lambda>m. take m (success_points ops cfg wid i attempt n delivery result ?sh)"
  let ?w1 = "watch (?pts 2) (world_at w (?sh\<lparr>sh_kv := snd (try_claim ops ?ttl ?j delivery (sh_kv ?sh))\<rparr>) (?a + 2))"
  let ?w2 = "watch (?pts 4) (world_at w (?sh\<lparr>sh_kv := leased_kv ops cfg i wid delivery (sh_kv ?sh)\<rparr>) (?a + 4))"
  have claim: "try_claim (world_kv (watched_kv ops)) ?ttl ?j delivery (watch [] w) = (CLAIMED, ?w1)"
    using step(1) [OF store(1), of ?ttl delivery "[]" ?a] store(2)
    by (simp add: success_points_def Let_def flip: at_start)
  have lease: "acquire (world_kv (watched_kv ops)) ?ttl ?j wid ?w1 = (Some ?l, ?w2)"
    using step(2) [of ops ?ttl ?j wid "?pts 2" "?sh\<lparr>sh_kv := snd (try_claim ops ?ttl ?j delivery (sh_kv ?sh))\<rparr>" "?a + 2"] store(3)
    by (simp add: success_points_def Let_def leased_kv_def eval_nat_numeral)
  obtain m where m: "result = [(''elapsed_ms'', JInt m)]" using execute_result assms(5) by (metis fst_conv)
  obtain d2 where d2: "record_event i E_COMPLETED attempt None (Some (n + 1)) (Some result)
      (started_db i attempt (n + 1) (sh_db ?sh)) = (Inr S_SUCCEEDED, d2)"
    by (rule verdict_after_start [OF assms(1), of E_COMPLETED None "Some result"]) (auto simp: world_db_def)
  have start: "record_event i E_STARTED attempt None (Some (n + 1)) None (sh_db ?sh) = (Inr S_RUNNING, started_db i attempt (n + 1) (sh_db ?sh))"
    using ready_start [OF assms(1)] by (simp add: world_db_def)
  let ?done = "?sh\<lparr>sh_db := d2, sh_kv := mark_done ops (of_int (exec_guard_ttl_s cfg)) ?j delivery (leased_kv ops cfg i wid delivery (sh_kv ?sh))\<rparr>"
  let ?w = "w\<lparr>w_draws := Suc (w_draws w), w_now := finished, w_actions := w_actions w @ [Ack],
      w_jobs_completed := w_jobs_completed w + 1, w_durations := w_durations w @ [m]\<rparr>"
  have tried: "try_job (watched_kv ops) rt sleep cfg i p attempt delivery ?l ?w2 = (Inr (), watch (?pts 10) (world_at ?w ?done (?a + 10)))"
    using assms(2,4,5) start d2
    by (simp add: try_job_def complete_job_def watched_quiet granted_lease_def success_points_def Let_def m dict_item_def eval_nat_numeral)
  have "snd (release (world_kv (watched_kv ops)) ?l (watch (?pts 10) (world_at ?w ?done (?a + 10)))) =
      watch (?pts 11) (world_at ?w (?done\<lparr>sh_kv := snd (release ops ?l (sh_kv ?done))\<rparr>) (?a + 11))"
    using assms(2) d2 by (simp add: watched_quiet success_points_def Let_def eval_nat_numeral)
  with handle_leased [OF assms(3) claim lease tried] show ?thesis
    by (simp add: kill_points_def) (simp add: success_points_def Let_def)
qed

end

section \<open>Recovery from every kill point\<close>

text \<open>What a killed worker may leave in the store for a job: no done marker, and a claim and a lease
  that are gone by the time \<open>t\<close>.\<close>

definition fades :: "(string \<Rightarrow> (string \<times> real option) option) \<Rightarrow> real \<Rightarrow> string \<Rightarrow> bool" where
  "fades h t k \<longleftrightarrow> (case h k of None \<Rightarrow> True | Some (v, None) \<Rightarrow> False | Some (v, Some d) \<Rightarrow> d \<le> t)"

definition leftover ::
    "('s \<Rightarrow> bool) \<Rightarrow> ('s \<Rightarrow> real) \<Rightarrow> ('s \<Rightarrow> string \<Rightarrow> (string \<times> real option) option) \<Rightarrow> ('s \<Rightarrow> string \<Rightarrow> int option) \<Rightarrow>
       string \<Rightarrow> real \<Rightarrow> int \<Rightarrow> 's \<Rightarrow> bool" where
  "leftover ok now held ctr j ttl m s \<longleftrightarrow> ok s \<and> held s (done_key j) = None \<and>
     fades (held s) (now s + ttl + 1 / 1000) (claim_key j) \<and> fades (held s) (now s + ttl + 1 / 1000) (lease_key j) \<and>
     ctr s (token_key j) = Some m"

context key_value_store
begin

lemma leftover_early:
  fixes wid delivery :: string
  assumes "ready ops inv held ctr cfg i attempt n row w"
  defines "s0 \<equiv> sh_kv (w_shared w)" and "j \<equiv> uuid_str i" and "ttl \<equiv> of_int (lease_ttl_s cfg)"
  defines "s1 \<equiv> snd (try_claim ops ttl j delivery s0)"
  shows "leftover inv now held ctr j ttl n s0" "leftover inv now held ctr j ttl n (snd (kv_get ops (done_key j) s0))"
    "leftover inv now held ctr j ttl n s1" "leftover inv now held ctr j ttl (n + 1) (snd (kv_incr ops (token_key j) s1))"
    "leftover inv now held ctr j ttl (n + 1) (leased_kv ops cfg i wid delivery s0)"
proof -
  have ok: "inv s0" "held s0 (done_key j) = None" "held s0 (claim_key j) = None" "held s0 (lease_key j) = None"
      "ctr s0 (token_key j) = Some n" "n < 2 ^ 63 - 1" "0 < ttl"
    using assms(1) by (simp_all add: ready_def s0_def j_def ttl_def)
  have s1: "inv s1" "now s1 = now s0" "held s1 (lease_key j) = None" "ctr s1 (token_key j) = Some n" "held s1 (done_key j) = None"
    "fades (held s1) (now s0 + ttl + 1 / 1000) (claim_key j)"
    using ok claim_deadline(2) [OF ok(1,7)] by (simp_all add: s1_def try_claim_held guard_ctr fades_def)
  have keys: "done_key j \<noteq> token_key j" "claim_key j \<noteq> token_key j" "lease_key j \<noteq> token_key j"
    by (simp_all add: lease_key_def token_key_def claim_key_def done_key_def)
  show "leftover inv now held ctr j ttl n s0" using ok by (simp add: leftover_def fades_def)
  show "leftover inv now held ctr j ttl n (snd (kv_get ops (done_key j) s0))" using ok by (simp add: leftover_def fades_def)
  show "leftover inv now held ctr j ttl n s1" using s1 by (simp add: leftover_def fades_def)
  have "fades (held (snd (kv_incr ops (token_key j) s1))) t k = fades (held s1) t k" if "k \<noteq> token_key j" for t k
    using that s1 by (simp add: fades_def held_incr)
  then show "leftover inv now held ctr j ttl (n + 1) (snd (kv_incr ops (token_key j) s1))"
    using s1 ok keys by (simp add: leftover_def held_incr ctr_incr) (simp add: fades_def)
  let ?s2 = "leased_kv ops cfg i wid delivery s0"
  have s2: "?s2 = snd (acquire ops ttl j wid s1)" by (simp add: leased_kv_def s1_def ttl_def j_def)
  have cnt: "inv ?s2" "now ?s2 = now s0" "ctr ?s2 (token_key j) = Some (n + 1)"
    using acquire_counts [OF s1(1,4) ok(6)] s1(2) by (simp_all add: s2)
  have frame: "held ?s2 k = held s1 k" if "k \<noteq> lease_key j" "k \<noteq> token_key j" for k
    using acquire_frame [OF s1(1) that ok(7)] by (simp add: s2)
  have "deadline (snd (kv_incr ops (token_key j) s1)) ttl \<le> now s0 + ttl + 1 / 1000"
    using deadline_upper [of "snd (kv_incr ops (token_key j) s1)" ttl] s1(1,2) ok(7) by simp
  then have "fades (held ?s2) (now s0 + ttl + 1 / 1000) (lease_key j)"
    using acquire_held [OF s1(1,4) ok(6,7)] s1(3) by (simp add: s2 fades_def)
  moreover have "fades (held ?s2) (now s0 + ttl + 1 / 1000) (claim_key j)"
    using s1(6) keys by (simp add: fades_def frame)
  ultimately show "leftover inv now held ctr j ttl (n + 1) ?s2"
    using cnt s1(5) keys by (simp add: leftover_def frame)
qed

lemma leftover_gone:
  assumes "leftover inv now held ctr j ttl m s" "ttl + 1 / 1000 \<le> t" "0 < ttl"
  shows "inv (advance t s)" "held (advance t s) (done_key j) = None" "held (advance t s) (claim_key j) = None"
    "held (advance t s) (lease_key j) = None" "ctr (advance t s) (token_key j) = Some m"
proof -
  have t: "0 \<le> t" using assms(2,3) by simp
  have "held (advance t s) k = None" if "fades (held s) (now s + ttl + 1 / 1000) k" for k
    using that assms t by (auto simp: leftover_def held_advance fades_def alive_def split: option.splits)
  then show "held (advance t s) (claim_key j) = None" "held (advance t s) (lease_key j) = None"
    using assms(1) by (simp_all add: leftover_def)
  show "inv (advance t s)" "held (advance t s) (done_key j) = None" "ctr (advance t s) (token_key j) = Some m"
    using assms(1) t by (simp_all add: leftover_def held_advance ctr_advance)
qed

text \<open>A delivery of a job that is finished already: with the done marker it is acknowledged, without
  it the log refuses the start and the message is terminated.\<close>

lemma obsolete_delivery:
  assumes "inv (sh_kv (w_shared w))" "quiet w" "0 < lease_ttl_s cfg" "\<not> py_truthy (dict_get_none p ''poison'')"
    "find_job i (world_db w) = Some row" "jr_state row = job_state_value S_SUCCEEDED"
    "held (sh_kv (w_shared w)) (done_key (uuid_str i)) = None" "held (sh_kv (w_shared w)) (claim_key (uuid_str i)) = None"
    "held (sh_kv (w_shared w)) (lease_key (uuid_str i)) = None" "ctr (sh_kv (w_shared w)) (token_key (uuid_str i)) = Some m"
    "m < 2 ^ 63 - 1"
  shows "\<exists>w'. handle ops rt sleep cfg wid i (JObj p) attempt delivery w = (Inr (), w') \<and>
    w_actions w' = w_actions w @ [Term] \<and> world_db w' = world_db w"
proof -
  let ?a = "w_awaits w" and ?j = "uuid_str i" and ?ttl = "of_int (lease_ttl_s cfg) :: real" and ?sh = "w_shared w"
  let ?l = "granted_lease i wid m"
  let ?s1 = "snd (try_claim ops ?ttl ?j delivery (sh_kv ?sh))"
  let ?s2 = "snd (acquire ops ?ttl ?j wid ?s1)"
  note od = quiet_only_during [OF assms(2)]
  have ttl: "0 < ?ttl" using assms(3) by simp
  have "try_claim (world_kv ops) ?ttl ?j delivery (world_at w ?sh ?a) = (CLAIMED, world_at w (?sh\<lparr>sh_kv := ?s1\<rparr>) (?a + 2))"
    using kv_at(1) [OF od [of "?a + 9"], of ?a ops ?j ?sh ?ttl delivery] assms(1,7,8) by (simp add: try_claim_result)
  then have claim: "try_claim (world_kv ops) ?ttl ?j delivery w = (CLAIMED, world_at w (?sh\<lparr>sh_kv := ?s1\<rparr>) (?a + 2))"
    by (simp flip: at_start)
  have s1: "inv ?s1" "held ?s1 (lease_key ?j) = None" "ctr ?s1 (token_key ?j) = Some m"
    using assms(1,7-10) ttl by (simp_all add: try_claim_held guard_ctr)
  have lease: "acquire (world_kv ops) ?ttl ?j wid (world_at w (?sh\<lparr>sh_kv := ?s1\<rparr>) (?a + 2)) =
      (Some ?l, world_at w (?sh\<lparr>sh_kv := ?s2\<rparr>) (?a + 4))"
    using kv_at(2) [OF od [of "?a + 9"], of "?a + 2" ops ?ttl ?j wid "?sh\<lparr>sh_kv := ?s1\<rparr>"] s1 assms(11)
    by (simp add: acquire_result granted_lease_def eval_nat_numeral)
  have rec: "record_event i E_STARTED attempt None (Some (m + 1)) None (sh_db ?sh) =
      (Inl (IllegalTransition (Some S_SUCCEEDED) E_STARTED), sh_db ?sh)"
    by (rule record_event_illegal) (use assms(5,6) in \<open>auto simp: world_db_def lifecycle_simps\<close>)
  have tried: "try_job ops rt sleep cfg i p attempt delivery ?l (world_at w (?sh\<lparr>sh_kv := ?s2\<rparr>) (?a + 4)) =
      (Inl (IllegalTransition (Some S_SUCCEEDED) E_STARTED), world_at w (?sh\<lparr>sh_kv := ?s2\<rparr>) (?a + 5))"
    using rec by (simp add: try_job_def granted_lease_def awaiting_quiet [OF assms(2)] on_db_def eval_nat_numeral)
  let ?w4 = "world_at (w\<lparr>w_actions := w_actions w @ [Term]\<rparr>) (?sh\<lparr>sh_kv := release_claim ops ?j delivery ?s2\<rparr>) (?a + 7)"
  have ex: "except_job ops cfg i attempt delivery ?l (IllegalTransition (Some S_SUCCEEDED) E_STARTED)
        (world_at w (?sh\<lparr>sh_kv := ?s2\<rparr>) (?a + 5)) = (Inr (), ?w4)"
    using except_obsolete_at [OF od [of ?a], of "?a + 5"] by (simp add: eval_nat_numeral)
  have "only_during ?a (\<lambda>sh. sh) (w\<lparr>w_actions := w_actions w @ [Term]\<rparr>)" using od by simp
  from kv_at(5) [OF this, of "?a + 7" ops ?l] handle_leased [OF assms(4) claim lease tried, of "Inr ()" ?w4] ex
  show ?thesis by (simp add: world_db_def)
qed

end

context key_value_store
begin

lemma answered_delivery:
  assumes "inv (sh_kv (w_shared w))" "quiet w" "\<not> py_truthy (dict_get_none p ''poison'')"
    "held (sh_kv (w_shared w)) (done_key (uuid_str i)) \<noteq> None"
  shows "\<exists>w'. handle ops rt sleep cfg wid i (JObj p) attempt delivery w = (Inr (), w') \<and>
    w_actions w' = w_actions w @ [Ack] \<and> world_db w' = world_db w"
proof -
  let ?g = "kv_get ops (done_key (uuid_str i)) (sh_kv (w_shared w))"
  let ?w1 = "w\<lparr>w_shared := (w_shared w)\<lparr>sh_kv := snd ?g\<rparr>, w_awaits := Suc (w_awaits w)\<rparr>"
  have "try_claim (world_kv ops) (of_int (lease_ttl_s cfg)) (uuid_str i) delivery w = (ALREADY_DONE, ?w1)"
    using assms(1,2,4) by (simp add: try_claim_def world_kv_def awaiting_def on_kv_def quiet_def Let_def split_beta)
  then show ?thesis using assms(2,3)
    by (simp add: handle_def msg_act_def awaiting_def quiet_def Let_def world_db_def)
qed

end

text \<open>A succeeded job has exactly one completion in its log.\<close>

lemma succeeded_once:
  assumes "history_inv d" "find_job i d = Some row" "jr_state row = job_state_value S_SUCCEEDED"
  obtains evs where "replay_events i d = Inr evs" "length (filter (\<lambda>e. ev_type e = E_COMPLETED) evs) = 1"
proof -
  obtain evs s where evs: "replay_events i d = Inr evs" "replay evs = Inr s" "jr_state row = job_state_value s"
    using assms(1,2) by (metis history_inv_def job_log)
  have "s = S_SUCCEEDED" using assms(3) evs(3) by (cases s) simp_all
  with replay_last [OF evs(2)] obtain xs e where xs: "evs = xs @ [e]" "state_after (ev_type e) = S_SUCCEEDED"
    by (cases evs rule: rev_cases) auto
  from xs(2) have e: "ev_type e = E_COMPLETED" by (cases "ev_type e") auto
  have "length (filter (\<lambda>e. ev_type e = E_COMPLETED) evs) \<le> length (filter (\<lambda>e. ev_type e \<in> {E_COMPLETED, E_FAILED}) evs)"
    by (induction evs) auto
  with count_terminal_le_1 [OF evs(2)] xs e have "length (filter (\<lambda>e. ev_type e = E_COMPLETED) evs) = 1" by simp
  with evs(1) show ?thesis by (rule that)
qed

text \<open>The states from which a redelivery brings the job to its end: not yet started, started, recorded as
  completed, or completed with the done marker set.\<close>

inductive recoverable ::
    "('s \<Rightarrow> bool) \<Rightarrow> ('s \<Rightarrow> real) \<Rightarrow> ('s \<Rightarrow> string \<Rightarrow> (string \<times> real option) option) \<Rightarrow> ('s \<Rightarrow> string \<Rightarrow> int option) \<Rightarrow>
       settings \<Rightarrow> uuid \<Rightarrow> int \<Rightarrow> int \<Rightarrow> db \<Rightarrow> 's shared \<Rightarrow> bool"
  for ok now held ctr cfg i attempt n d where
    unstarted: "m \<in> {n, n + 1} \<Longrightarrow> leftover ok now held ctr (uuid_str i) (of_int (lease_ttl_s cfg)) m (sh_kv sh) \<Longrightarrow>
      sh_db sh = d \<Longrightarrow> recoverable ok now held ctr cfg i attempt n d sh"
  | started: "leftover ok now held ctr (uuid_str i) (of_int (lease_ttl_s cfg)) (n + 1) (sh_kv sh) \<Longrightarrow>
      sh_db sh = started_db i attempt (n + 1) d \<Longrightarrow> recoverable ok now held ctr cfg i attempt n d sh"
  | completed: "leftover ok now held ctr (uuid_str i) (of_int (lease_ttl_s cfg)) (n + 1) (sh_kv sh) \<Longrightarrow>
      history_inv (sh_db sh) \<Longrightarrow> find_job i (sh_db sh) = Some row \<Longrightarrow> jr_state row = job_state_value S_SUCCEEDED \<Longrightarrow>
      recoverable ok now held ctr cfg i attempt n d sh"
  | marked: "ok (sh_kv sh) \<Longrightarrow> held (sh_kv sh) (done_key (uuid_str i)) = Some (v, Some dl) \<Longrightarrow>
      now (sh_kv sh) + of_int (exec_guard_ttl_s cfg) \<le> dl \<Longrightarrow>
      history_inv (sh_db sh) \<Longrightarrow> find_job i (sh_db sh) = Some row \<Longrightarrow> jr_state row = job_state_value S_SUCCEEDED \<Longrightarrow>
      recoverable ok now held ctr cfg i attempt n d sh"

context key_value_store
begin

lemma started_history:
  assumes "ready ops inv held ctr cfg i attempt n row w"
  shows "history_inv (started_db i attempt (n + 1) (world_db w))"
  using history_inv_record [of "world_db w" E_STARTED i attempt None "Some (n + 1)" None] ready_start [OF assms] assms by (simp add: ready_def)

text \<open>The completion of a started job, and the done marker from its \<^verbatim>\<open>SET\<close> on.\<close>

lemma completed_db:
  assumes "ready ops inv held ctr cfg i attempt n row w"
  obtains d2 row2 where
    "record_event i E_COMPLETED attempt None (Some (n + 1)) (Some result) (started_db i attempt (n + 1) (world_db w)) = (Inr S_SUCCEEDED, d2)"
    "history_inv d2" "find_job i d2 = Some row2" "jr_state row2 = job_state_value S_SUCCEEDED"
proof -
  let ?d1 = "started_db i attempt (n + 1) (world_db w)"
  obtain d2 row2 where v: "record_event i E_COMPLETED attempt None (Some (n + 1)) (Some result) ?d1 = (Inr S_SUCCEEDED, d2)"
      "find_job i d2 = Some row2" "jr_state row2 = job_state_value S_SUCCEEDED"
    by (rule verdict_after_start [OF assms, of E_COMPLETED None "Some result"]) auto
  have "history_inv d2"
    using history_inv_record [OF started_history [OF assms], of E_COMPLETED i attempt None "Some (n + 1)" "Some result"] v(1) by simp
  with v show ?thesis by (intro that)
qed

lemma marker_states:
  assumes "inv s" "0 < g" "held s (done_key j) = None"
    and "s' \<in> {snd (kv_set_if_absent ops (done_key j) delivery g s), mark_done ops g j delivery s}"
  shows "inv s'" "now s' = now s" "held s' (done_key j) = Some (delivery, Some (deadline s g))" "now s + g \<le> deadline s g"
  using assms deadline_lower [OF assms(1,2)] by (auto simp: held_set mark_done_held Let_def)

lemma success_points_recoverable:
  assumes "ready ops inv held ctr cfg i attempt n row w"
    "sh \<in> set (success_points ops cfg wid i attempt n delivery result (w_shared w))"
  shows "recoverable inv now held ctr cfg i attempt n (world_db w) sh"
proof -
  let ?s2 = "leased_kv ops cfg i wid delivery (sh_kv (w_shared w))" and ?gt = "of_int (exec_guard_ttl_s cfg) :: real"
  let ?d1 = "started_db i attempt (n + 1) (world_db w)"
  note left = leftover_early [OF assms(1)]
  obtain d2 row2 where v: "record_event i E_COMPLETED attempt None (Some (n + 1)) (Some result) ?d1 = (Inr S_SUCCEEDED, d2)"
      "history_inv d2" "find_job i d2 = Some row2" "jr_state row2 = job_state_value S_SUCCEEDED"
    using assms(1) by (rule completed_db)
  let ?s3 = "snd (kv_set_if_absent ops (done_key (uuid_str i)) delivery ?gt ?s2)" and ?s4 = "mark_done ops ?gt (uuid_str i) delivery ?s2"
  have gt: "0 < ?gt" using assms(1) by (simp add: ready_def)
  note st = leased_kv_state [OF assms(1), of wid delivery]
  note marker = marker_states [OF st(1) gt st(2), of "sh_kv sh" delivery]
  have "set (success_points ops cfg wid i attempt n delivery result (w_shared w)) =
     {w_shared w, (w_shared w)\<lparr>sh_kv := snd (kv_get ops (done_key (uuid_str i)) (sh_kv (w_shared w)))\<rparr>,
      (w_shared w)\<lparr>sh_kv := snd (try_claim ops (of_int (lease_ttl_s cfg)) (uuid_str i) delivery (sh_kv (w_shared w)))\<rparr>,
      (w_shared w)\<lparr>sh_kv := snd (kv_incr ops (token_key (uuid_str i)) (snd (try_claim ops (of_int (lease_ttl_s cfg)) (uuid_str i) delivery (sh_kv (w_shared w)))))\<rparr>,
      (w_shared w)\<lparr>sh_kv := ?s2\<rparr>, (w_shared w)\<lparr>sh_kv := ?s2, sh_db := ?d1\<rparr>,
      (w_shared w)\<lparr>sh_kv := ?s2, sh_db := d2\<rparr>,
      (w_shared w)\<lparr>sh_kv := ?s3, sh_db := d2\<rparr>, (w_shared w)\<lparr>sh_kv := ?s4, sh_db := d2\<rparr>}"
    using v(1) by (auto simp: success_points_def Let_def world_db_def)
  with assms(2) consider
      "sh_db sh = world_db w" "\<exists>m \<in> {n, n + 1}. leftover inv now held ctr (uuid_str i) (of_int (lease_ttl_s cfg)) m (sh_kv sh)"
    | "sh_kv sh = ?s2" "sh_db sh = ?d1" | "sh_kv sh = ?s2" "sh_db sh = d2"
    | "sh_kv sh \<in> {?s3, ?s4}" "sh_db sh = d2"
    using left by (fastforce simp: world_db_def)
  then show ?thesis
  proof cases
    case 1
    then show ?thesis by (blast intro: recoverable.unstarted)
  next
    case 2
    then show ?thesis using left(5) by (intro recoverable.started) simp_all
  next
    case 3
    then show ?thesis using left(5) v by (intro recoverable.completed) simp_all
  next
    case 4
    then show ?thesis using marker [OF 4(1)] v by (intro recoverable.marked) simp_all
  qed
qed

end

context key_value_store
begin

lemma recovered:
  assumes "ready ops inv held ctr cfg i attempt n row w"
    "\<not> py_truthy (dict_get_none p ''poison'')" "exec_args rt p = Inr (dur, rate)"
    "recoverable inv now held ctr cfg i attempt n (world_db w) sh"
    "quiet w'" "w_shared w' = sh\<lparr>sh_kv := advance t (sh_kv sh)\<rparr>"
    "of_int (lease_ttl_s cfg) + 1 / 1000 \<le> t" "t < of_int (exec_guard_ttl_s cfg)" "n + 1 < 2 ^ 63 - 1" "int4_ok (attempt + 1)"
    "execute dur rate (w_rng w' (w_draws w')) sleep (w_now w') = (Inr result', finished')"
  shows "\<exists>w'' a row'. handle ops rt sleep cfg wid' i (JObj p) (attempt + 1) delivery' w' = (Inr (), w'') \<and>
    w_actions w'' = w_actions w' @ [a] \<and> a \<in> {Ack, Term} \<and> history_inv (world_db w') \<and>
    find_job i (world_db w'') = Some row' \<and> jr_state row' = job_state_value S_SUCCEEDED"
proof -
  have rdy: "history_inv (world_db w)" "find_job i (world_db w) = Some row" "jr_fence row \<le> n + 1" "0 \<le> n"
      "jr_state row \<in> {job_state_value S_QUEUED, job_state_value S_RUNNING}" "0 < lease_ttl_s cfg" "0 < exec_guard_ttl_s cfg"
    using assms(1) by (simp_all add: ready_def)
  have ttl: "0 < (of_int (lease_ttl_s cfg) :: real)" using rdy(6) by simp
  have db': "world_db w' = sh_db sh" and kv': "sh_kv (w_shared w') = advance t (sh_kv sh)"
    using assms(6) by (simp_all add: world_db_def)
  note quiet' = quiet_only_during [OF assms(5)]
  have finish: ?thesis if "ready ops inv held ctr cfg i (attempt + 1) m row1 w'" for m row1
    by (rule delivery_succeeds [OF that quiet' assms(2,3,11), of wid' delivery'])
      (use that in \<open>auto simp: ready_def\<close>)
  from assms(4) show ?thesis
  proof (cases rule: recoverable.cases)
    case (unstarted m)
    have "m < 2 ^ 63 - 1" "0 \<le> m" "jr_fence row \<le> m + 1" using unstarted(1) assms(9) rdy(3,4) by auto
    with leftover_gone [OF unstarted(2) assms(7) ttl] rdy assms(10) unstarted(3)
    have "ready ops inv held ctr cfg i (attempt + 1) m row w'" by (simp add: ready_def db' kv')
    then show ?thesis by (rule finish)
  next
    case started
    let ?row = "upd_row S_RUNNING attempt (n + 1) None (db_now (world_db w)) row"
    have "find_job i (sh_db sh) = Some ?row" unfolding started(2) started_db_def by (rule find_job_written [OF rdy(2,3)])
    moreover have "history_inv (sh_db sh)" using started_history [OF assms(1)] by (simp add: started(2))
    ultimately have "ready ops inv held ctr cfg i (attempt + 1) (n + 1) ?row w'"
      using leftover_gone [OF started(1) assms(7) ttl] rdy assms(9,10) by (simp add: ready_def db' kv')
    then show ?thesis by (rule finish)
  next
    case (completed row2)
    from leftover_gone [OF completed(1) assms(7) ttl] completed(2-4)
    show ?thesis
      using obsolete_delivery [of w', OF _ assms(5) rdy(6) assms(2), of i row2 "n + 1" rt sleep wid' "attempt + 1" delivery'] assms(9)
      by (auto simp: db' kv')
  next
    case (marked v dl row2)
    have "0 \<le> t" using ttl assms(7) by simp
    with marked assms(8) have "held (advance t (sh_kv sh)) (done_key (uuid_str i)) \<noteq> None" "inv (advance t (sh_kv sh))"
      by (simp_all add: held_advance alive_def)
    then show ?thesis
      using answered_delivery [OF _ assms(5,2), of i rt sleep cfg wid' "attempt + 1" delivery'] marked(4-6)
      by (auto simp: db' kv')
  qed
qed

lemma recovered_once:
  assumes "ready ops inv held ctr cfg i attempt n row w"
    "\<not> py_truthy (dict_get_none p ''poison'')" "exec_args rt p = Inr (dur, rate)"
    "recoverable inv now held ctr cfg i attempt n (world_db w) sh"
    "quiet w'" "w_shared w' = sh\<lparr>sh_kv := advance t (sh_kv sh)\<rparr>"
    "of_int (lease_ttl_s cfg) + 1 / 1000 \<le> t" "t < of_int (exec_guard_ttl_s cfg)" "n + 1 < 2 ^ 63 - 1" "int4_ok (attempt + 1)"
    "execute dur rate (w_rng w' (w_draws w')) sleep (w_now w') = (Inr result', finished')"
  shows "\<exists>w'' a row' evs. handle ops rt sleep cfg wid' i (JObj p) (attempt + 1) delivery' w' = (Inr (), w'') \<and>
    w_actions w'' = w_actions w' @ [a] \<and> a \<in> {Ack, Term} \<and>
    find_job i (world_db w'') = Some row' \<and> jr_state row' = job_state_value S_SUCCEEDED \<and>
    replay_events i (world_db w'') = Inr evs \<and> length (filter (\<lambda>e. ev_type e = E_COMPLETED) evs) = 1"
proof -
  from recovered [OF assms, where wid' = wid' and delivery' = delivery']
  obtain w'' a row' where run: "handle ops rt sleep cfg wid' i (JObj p) (attempt + 1) delivery' w' = (Inr (), w'')"
    "w_actions w'' = w_actions w' @ [a]" "a \<in> {Ack, Term}" "history_inv (world_db w')"
    "find_job i (world_db w'') = Some row'" "jr_state row' = job_state_value S_SUCCEEDED" by blast
  have "following (world_db w') w'" using assms(5) by (simp add: following_def rely_db_def quiet_def)
  then have "db_steps (world_db w') (world_db w'')"
    using follow.handle_keeps [of "world_db w'" w' ops rt sleep cfg wid' i "JObj p" "attempt + 1" delivery'] run(1)
    by (simp add: following_def)
  then have "history_inv (world_db w'')" using run(4) by (rule history_inv_steps)
  from succeeded_once [OF this run(5,6)] run show ?thesis by metis
qed

lemma kill_point_recoverable:
  assumes "ready ops inv held ctr cfg i attempt n row w" "quiet w"
    "\<not> py_truthy (dict_get_none p ''poison'')" "exec_args rt p = Inr (dur, rate)"
    "execute dur rate (w_rng w (w_draws w)) sleep (w_now w) = (Inr result, finished)"
    "sh \<in> set (take 10 (kill_points ops rt sleep cfg wid i (JObj p) attempt delivery w))"
  shows "recoverable inv now held ctr cfg i attempt n (world_db w) sh"
  using assms(6) kill_points_success [OF assms(1-5)] by (intro success_points_recoverable [OF assms(1)]) (auto dest: in_set_takeD)

text \<open>Giving the lease back leaves such a state recoverable.\<close>

lemma recoverable_release:
  assumes "recoverable inv now held ctr cfg i attempt n d sh"
  shows "recoverable inv now held ctr cfg i attempt n d (sh\<lparr>sh_kv := snd (release ops (granted_lease i wid m) (sh_kv sh))\<rparr>)"
proof -
  let ?s = "sh_kv sh" and ?k = "lease_key (uuid_str i)"
  let ?s' = "snd (release ops (granted_lease i wid m) ?s)"
  have held': "held ?s' = (if map_option fst (held ?s ?k) = Some (lease_text wid (m + 1)) then (held ?s)(?k := None) else held ?s)"
    and rest: "inv ?s'" "now ?s' = now ?s" "ctr ?s' (token_key (uuid_str i)) = ctr ?s (token_key (uuid_str i))" if "inv ?s"
    using that by (auto simp: release_def granted_lease_def held_cad lease_key_def token_key_def intro: ctr_cad)
  have keys: "?k \<noteq> done_key (uuid_str i)" "?k \<noteq> claim_key (uuid_str i)" by (simp_all add: lease_key_def done_key_def claim_key_def)
  have left: "leftover inv now held ctr (uuid_str i) ttl q ?s'" if "leftover inv now held ctr (uuid_str i) ttl q ?s" for ttl q
    using that held' rest keys by (auto simp: leftover_def fades_def)
  from assms show ?thesis
  proof (cases rule: recoverable.cases)
    case (unstarted q)
    with left show ?thesis by (auto intro: recoverable.unstarted)
  next
    case started
    with left show ?thesis by (auto intro: recoverable.started)
  next
    case (completed row)
    with left show ?thesis by (auto intro: recoverable.completed)
  next
    case (marked v dl row)
    then show ?thesis using held' rest keys by (intro recoverable.marked [where v = v and dl = dl and row = row]) auto
  qed
qed

end

end
