(* ===== verification/Dlq.thy ===== *)
theory Dlq
  imports Repo Broker Telemetry
begin

text \<open>
  The dead-letter listener: \<^verbatim>\<open>src/orbiter/dlq/listener.py\<close>. The broker is a parameter. A quarantine
  touches the database in one transaction, so the database argument is the one that transaction
  sees; what other components do between two messages is a function that comes with each fetch.
\<close>

section \<open>Advisories\<close>

definition ADVISORY_TYPE :: string where
  "ADVISORY_TYPE = ''io.nats.jetstream.advisory.v1.max_deliver''"

definition advisory_subject :: "string \<Rightarrow> string \<Rightarrow> string" where
  "advisory_subject stream consumer =
     ''$JS.EVENT.ADVISORY.CONSUMER.MAX_DELIVERIES.'' @ stream @ ''.'' @ consumer"

record advisory =
  adv_stream :: string
  adv_consumer :: string
  adv_stream_seq :: int
  adv_deliveries :: int

definition parse_fields :: "py_runtime \<Rightarrow> pydict \<Rightarrow> pyexn + advisory" where
  "parse_fields rt data =
     rbind (dict_item data ''stream'') (\<lambda>stream.
     rbind (dict_item data ''consumer'') (\<lambda>consumer.
     rbind (dict_item data ''stream_seq'') (\<lambda>sq. rbind (py_int sq) (\<lambda>stream_seq.
     rbind (dict_item data ''deliveries'') (\<lambda>dl. rbind (py_int dl) (\<lambda>deliveries.
       Inr \<lparr>adv_stream = py_str rt stream, adv_consumer = py_str rt consumer,
            adv_stream_seq = stream_seq, adv_deliveries = deliveries\<rparr>))))))"

fun caught_by_parse :: "pyexn \<Rightarrow> bool" where
  "caught_by_parse (KeyError _) = True"
| "caught_by_parse (TypeError _) = True"
| "caught_by_parse e = is_ValueError e"

definition parse_advisory :: "py_runtime \<Rightarrow> json_text \<Rightarrow> pyexn + advisory option" where
  "parse_advisory rt raw =
     (case json_loads raw of
        Inl e \<Rightarrow> if e = JSONDecodeError \<or> e = UnicodeDecodeError then Inr None else Inl e
      | Inr (JObj data) \<Rightarrow>
          if dict_get data ''type'' \<noteq> Some (JStr ADVISORY_TYPE) then Inr None
          else (case parse_fields rt data of
                  Inl e \<Rightarrow> if caught_by_parse e then Inr None else Inl e
                | Inr adv \<Rightarrow> Inr (Some adv))
      | Inr _ \<Rightarrow> Inr None)"

section \<open>Streams\<close>

definition ensure_streams :: "'b jetstream \<Rightarrow> settings \<Rightarrow> 'b \<Rightarrow> 'b" where
  "ensure_streams js cfg b =
     (let adv = advisory_subject (stream_name cfg) (consumer_durable cfg);
          b1 = suppress (js_add_stream js \<lparr>sc_name = dlq_stream_name cfg, sc_subjects = [subject_dlq cfg],
                 sc_work_queue = False\<rparr>) b;
          b2 = suppress (js_add_stream js \<lparr>sc_name = advisory_stream_name cfg, sc_subjects = [adv],
                 sc_work_queue = False\<rparr>) b1
      in suppress (js_add_consumer js (advisory_stream_name cfg) \<lparr>cc_durable_name = dlq_consumer_durable cfg,
           cc_filter_subject = adv, cc_ack_explicit = True, cc_ack_wait = None, cc_max_deliver = None\<rparr>) b2)"

section \<open>Quarantine\<close>

definition dlq_headers :: "settings \<Rightarrow> advisory \<Rightarrow> headers" where
  "dlq_headers cfg adv =
     [(''Nats-Msg-Id'', ''dlq-'' @ stream_name cfg @ ''-'' @ int_str (adv_stream_seq adv))]"

definition quarantine_inner ::
    "'b jetstream \<Rightarrow> settings \<Rightarrow> advisory \<Rightarrow> json_text \<Rightarrow> uuid \<Rightarrow> db \<Rightarrow> 'b \<Rightarrow> (exn + unit) \<times> db \<times> 'b" where
  "quarantine_inner js cfg adv raw i d b =
     (case js_publish js (subject_dlq cfg) raw (dlq_headers cfg adv) b of
        (Inl e, b1) \<Rightarrow> (Inl e, d, b1)
      | (Inr _, b1) \<Rightarrow>
          let (recorded, d1) = record_event i E_DEAD_LETTERED (adv_deliveries adv)
                (Some [(''stream_seq'', JInt (adv_stream_seq adv)), (''deliveries'', JInt (adv_deliveries adv))])
                None None d;
              cleanup = (case js_delete_msg js (stream_name cfg) (adv_stream_seq adv) b1 of
                           (Inl e, b2) \<Rightarrow> (Inl e, d1, b2) | (Inr _, b2) \<Rightarrow> (Inr (), d1, b2))
          in case recorded of
               Inr _ \<Rightarrow> cleanup
             | Inl (IllegalTransition _ _) \<Rightarrow> cleanup
             | Inl e \<Rightarrow> (Inl e, d1, b1))"

record 'b listener =
  ls_db :: db
  ls_broker :: 'b
  ls_quarantined :: nat
  ls_acked :: nat

definition quarantine ::
    "'b jetstream \<Rightarrow> 'c otel \<Rightarrow> py_runtime \<Rightarrow> settings \<Rightarrow> advisory \<Rightarrow> 'b listener \<Rightarrow> (exn + unit) \<times> 'b listener" where
  "quarantine js tel rt cfg adv w =
     (case js_get_msg js (stream_name cfg) (adv_stream_seq adv) (ls_broker w) of
        (Inl e, b1) \<Rightarrow> (Inl e, w\<lparr>ls_broker := b1\<rparr>)
      | (Inr raw, b1) \<Rightarrow>
          let w1 = w\<lparr>ls_broker := b1\<rparr> in
          case json_loads raw of
            Inl e \<Rightarrow> (Inl (Py e), w1)
          | Inr body \<Rightarrow>
              (case rbind (json_item body ''job_id'') uuid_of_json of
                 Inl e \<Rightarrow> (Inl (Py e), w1)
               | Inr i \<Rightarrow>
                   (case context_from tel rt (case body of JObj kvs \<Rightarrow> dict_get_none kvs ''traceparent'' | _ \<Rightarrow> JNull) of
                      Inl e \<Rightarrow> (Inl e, w1)
                    | Inr ctx \<Rightarrow>
                        (case quarantine_inner js cfg adv raw i (ls_db w1) (ls_broker w1) of
                           (Inl e, d2, b2) \<Rightarrow> (Inl e, w1\<lparr>ls_db := d2, ls_broker := b2\<rparr>)
                         | (Inr _, d2, b2) \<Rightarrow>
                             (Inr (), w1\<lparr>ls_db := d2, ls_broker := b2, ls_quarantined := ls_quarantined w1 + 1\<rparr>)))))"

text \<open>The body of the loop over fetched advisories, and the loop. The acknowledgement stands outside the \<^verbatim>\<open>try\<close>,
  so its exceptions end the loop, and so does a fetch that raises; a fetch that times out is \<open>Inr None\<close>.\<close>

definition handle_advisory ::
    "'b jetstream \<Rightarrow> 'c otel \<Rightarrow> py_runtime \<Rightarrow> settings \<Rightarrow> json_text \<Rightarrow> 'b listener \<Rightarrow> (exn + unit) \<times> 'b listener" where
  "handle_advisory js tel rt cfg data w =
     (case parse_advisory rt data of
        Inl e \<Rightarrow> (Inl (Py e), w)
      | Inr adv \<Rightarrow>
          let w1 = (case adv of None \<Rightarrow> w | Some a \<Rightarrow> snd (quarantine js tel rt cfg a w))
          in (case js_ack js data (ls_broker w1) of
                (Inl e, b) \<Rightarrow> (Inl e, w1\<lparr>ls_broker := b\<rparr>)
              | (Inr _, b) \<Rightarrow> (Inr (), w1\<lparr>ls_broker := b, ls_acked := ls_acked w1 + 1\<rparr>)))"

fun handle_advisories ::
    "'b jetstream \<Rightarrow> 'c otel \<Rightarrow> py_runtime \<Rightarrow> settings \<Rightarrow> json_text list \<Rightarrow> 'b listener \<Rightarrow> (exn + unit) \<times> 'b listener" where
  "handle_advisories js tel rt cfg [] w = (Inr (), w)"
| "handle_advisories js tel rt cfg (m # ms) w =
     (case handle_advisory js tel rt cfg m w of
        (Inl e, w1) \<Rightarrow> (Inl e, w1)
      | (Inr _, w1) \<Rightarrow> handle_advisories js tel rt cfg ms w1)"

fun dlq_run ::
    "'b jetstream \<Rightarrow> 'c otel \<Rightarrow> py_runtime \<Rightarrow> settings \<Rightarrow> ((db \<Rightarrow> db) \<times> (exn + json_text list option)) list \<Rightarrow>
       'b listener \<Rightarrow> (exn + unit) \<times> 'b listener" where
  "dlq_run js tel rt cfg [] w = (Inr (), w)"
| "dlq_run js tel rt cfg ((others, Inl e) # fetches) w = (Inl e, w\<lparr>ls_db := others (ls_db w)\<rparr>)"
| "dlq_run js tel rt cfg ((others, Inr None) # fetches) w =
     dlq_run js tel rt cfg fetches (w\<lparr>ls_db := others (ls_db w)\<rparr>)"
| "dlq_run js tel rt cfg ((others, Inr (Some msgs)) # fetches) w =
     (case handle_advisories js tel rt cfg msgs (w\<lparr>ls_db := others (ls_db w)\<rparr>) of
        (Inl e, w1) \<Rightarrow> (Inl e, w1)
      | (Inr _, w1) \<Rightarrow> dlq_run js tel rt cfg fetches w1)"

section \<open>What the listener does\<close>

lemma dict_item_error: "dict_item d k = Inl e \<Longrightarrow> caught_by_parse e"
  by (auto simp: dict_item_def split: option.splits)

lemma py_int_error: "py_int j = Inl e \<Longrightarrow> caught_by_parse e \<or> (\<exists>m. e = OverflowError m)"
  by (induction j rule: py_int.induct) (auto split: option.splits if_splits)

lemma parse_fields_error: "parse_fields rt d = Inl e \<Longrightarrow> caught_by_parse e \<or> (\<exists>m. e = OverflowError m)"
  by (auto simp: parse_fields_def rbind_eq_Inl dest: dict_item_error py_int_error)

lemma quarantine_inner_db:
  assumes "quarantine_inner js cfg adv raw i d b = (out, d', b')"
  shows "d' = d \<or> d' = snd (record_event i E_DEAD_LETTERED (adv_deliveries adv)
    (Some [(''stream_seq'', JInt (adv_stream_seq adv)), (''deliveries'', JInt (adv_deliveries adv))]) None None d)"
  using assms
  by (auto simp: quarantine_inner_def Let_def split: prod.splits sum.splits exn.splits)

lemma quarantine_db:
  "\<exists>i. ls_db (snd (quarantine js tel rt cfg adv w)) = ls_db w \<or>
     ls_db (snd (quarantine js tel rt cfg adv w)) = snd (record_event i E_DEAD_LETTERED (adv_deliveries adv)
    (Some [(''stream_seq'', JInt (adv_stream_seq adv)), (''deliveries'', JInt (adv_deliveries adv))]) None None (ls_db w))"
  by (auto simp: quarantine_def Let_def split: prod.splits sum.splits dest: quarantine_inner_db)

lemma quarantine_acked [simp]: "ls_acked (snd (quarantine js tel rt cfg adv w)) = ls_acked w"
  by (auto simp: quarantine_def Let_def split: prod.splits sum.splits)

text \<open>A second dead-letter event after one that was recorded, or was not applicable, changes nothing.\<close>

lemma dead_letter_twice:
  assumes "record_event i E_DEAD_LETTERED a dt None None d = (out, d1)"
    and "case out of Inr _ \<Rightarrow> True | Inl e \<Rightarrow> (\<exists>s ev. e = IllegalTransition s ev)"
  shows "snd (record_event i E_DEAD_LETTERED a dt None None d1) = d1"
  using assms(1)
proof (cases rule: record_event_cases)
  case (error e)
  with assms(1) show ?thesis by simp
next
  case (ok row s st)
  then have st: "st = S_DEAD_LETTER" by (auto simp: lifecycle_simps)
  have row: "find_job i d1 = Some (upd_row st a (fence_of None row) None (db_now d) row)"
    unfolding ok(8) by (rule find_job_written) (use ok(1,4) in auto)
  have "record_event i E_DEAD_LETTERED a dt None None d1 = (Inl (IllegalTransition (Some st) E_DEAD_LETTERED), d1)"
    by (rule record_event_illegal [OF row]) (auto simp: st lifecycle_simps)
  then show ?thesis by simp
qed

text \<open>The run of a quarantine in which every service answers, on a job the event applies to.\<close>

lemma quarantine_open_job:
  assumes "find_job i (ls_db w) = Some row" "jr_state row = job_state_value s" "s \<in> {S_QUEUED, S_RUNNING}"
    and "int4_ok (adv_deliveries adv)" "int8_ok (jr_fence row)"
    and "js_get_msg js (stream_name cfg) (adv_stream_seq adv) (ls_broker w) = (Inr raw, b0)"
    and "json_loads raw = Inr (JObj body)" "dict_get body ''job_id'' = Some (JStr (uuid_str i))"
    and "is_ok (context_from tel rt (dict_get_none body ''traceparent''))"
    and "js_publish js (subject_dlq cfg) raw (dlq_headers cfg adv) b0 = (Inr (), b1)"
    and "js_delete_msg js (stream_name cfg) (adv_stream_seq adv) b1 = (Inr (), b2)"
  shows "quarantine js tel rt cfg adv w = (Inr (), w\<lparr>ls_broker := b2, ls_quarantined := ls_quarantined w + 1,
    ls_db := write_event i E_DEAD_LETTERED (adv_deliveries adv)
      [(''stream_seq'', JInt (adv_stream_seq adv)), (''deliveries'', JInt (adv_deliveries adv))]
      (jr_fence row) None S_DEAD_LETTER (ls_db w)\<rparr>)"
proof -
  let ?dt = "[(''stream_seq'', JInt (adv_stream_seq adv)), (''deliveries'', JInt (adv_deliveries adv))]"
  have life: "lifecycle (Some s) E_DEAD_LETTERED S_DEAD_LETTER" using assms(3) by (rule lifecycle.quarantine)
  have rec: "record_event i E_DEAD_LETTERED (adv_deliveries adv) (Some ?dt) None None (ls_db w) =
      (Inr S_DEAD_LETTER, write_event i E_DEAD_LETTERED (adv_deliveries adv) ?dt (jr_fence row) None S_DEAD_LETTER (ls_db w))"
    using record_event_ok [OF assms(1,2) life assms(4), of None "Some ?dt" None] assms(5) by (simp add: fence_of_def)
  obtain ctx where "context_from tel rt (dict_get_none body ''traceparent'') = Inr ctx"
    using assms(9) by (cases "context_from tel rt (dict_get_none body ''traceparent'')") auto
  moreover have "dict_item body ''job_id'' = Inr (JStr (uuid_str i))"
    using assms(8) by (simp add: dict_item_def dict_get_def)
  ultimately show ?thesis
    using assms(6,7,10,11) by (simp add: quarantine_def quarantine_inner_def rec Let_def uuid_of_str_str)
qed

text \<open>A listener on a broker that holds the one queued job's message, for the examples.\<close>

definition demo_adv :: advisory where
  "demo_adv = \<lparr>adv_stream = ''ORBITER_JOBS'', adv_consumer = ''workers'', adv_stream_seq = 1, adv_deliveries = 5\<rparr>"

definition demo_raw :: json_text where
  "demo_raw = json_dumps (submit_message 1 demo_payload [])"

definition demo_listener :: "ref_broker listener" where
  "demo_listener = \<lparr>ls_db = demo_db, ls_broker = (ref_broker0 0)\<lparr>rb_msgs := [\<lparr>sm_id = ''outbox-1'',
     sm_subject = ''orbiter.jobs'', sm_data = demo_raw\<rparr>]\<rparr>, ls_quarantined = 0, ls_acked = 0\<rparr>"

definition demo_copied :: ref_broker where
  "demo_copied = snd (ref_publish (subject_dlq Settings) demo_raw (dlq_headers Settings demo_adv) (ls_broker demo_listener))"

definition demo_quiet_otel :: "unit otel" where
  "demo_quiet_otel = \<lparr>otel_extract = \<lambda>_. (), span_carrier = \<lambda>_. []\<rparr>"

lemma demo_row_queued:
  "jr_state (submitted_row 1 ''key-1'' demo_payload 0) = job_state_value S_QUEUED" "S_QUEUED \<in> {S_QUEUED, S_RUNNING}"
  "int4_ok (adv_deliveries demo_adv)" "int8_ok (jr_fence (submitted_row 1 ''key-1'' demo_payload 0))"
  by (simp_all add: submitted_row_def int4_ok_def int8_ok_def demo_adv_def)

lemma demo_listener_db:
  "db_inv (ls_db demo_listener)" "find_job 1 (ls_db demo_listener) = Some (submitted_row 1 ''key-1'' demo_payload 0)"
  by (simp_all add: demo_listener_def demo_db_inv demo_db_row)

lemma demo_copied_msgs: "rb_msgs demo_copied = rb_msgs (ls_broker demo_listener) @
    [\<lparr>sm_id = ''dlq-ORBITER_JOBS-1'', sm_subject = ''orbiter.dlq'', sm_data = demo_raw\<rparr>]"
  by (simp add: demo_copied_def demo_listener_def demo_adv_def ref_publish_def Let_def window_store_def dlq_headers_def
      Settings_def int_str_def nat_str_def nat_digits.simps digit_char_def ref_broker0_def)

lemma demo_listener_services:
  "js_get_msg ref_js (stream_name Settings) (adv_stream_seq demo_adv) (ls_broker demo_listener) = (Inr demo_raw, ls_broker demo_listener)"
  "json_loads demo_raw = Inr (JObj [(''job_id'', JStr (uuid_str 1)), (''payload'', JObj demo_payload), (''traceparent'', JObj [])])"
  "dict_get [(''job_id'', JStr (uuid_str 1)), (''payload'', JObj demo_payload), (''traceparent'', JObj [])] ''job_id'' =
     Some (JStr (uuid_str 1))"
  "is_ok (context_from demo_quiet_otel demo_runtime (dict_get_none
     [(''job_id'', JStr (uuid_str 1)), (''payload'', JObj demo_payload), (''traceparent'', JObj [])] ''traceparent''))"
  "js_publish ref_js (subject_dlq Settings) demo_raw (dlq_headers Settings demo_adv) (ls_broker demo_listener) = (Inr (), demo_copied)"
  "js_delete_msg ref_js (stream_name Settings) (adv_stream_seq demo_adv) demo_copied =
     (Inr (), demo_copied\<lparr>rb_deleted := 1 # rb_deleted demo_copied\<rparr>)"
proof -
  show "js_delete_msg ref_js (stream_name Settings) (adv_stream_seq demo_adv) demo_copied =
     (Inr (), demo_copied\<lparr>rb_deleted := 1 # rb_deleted demo_copied\<rparr>)"
    by (simp add: ref_js_def ref_delete_msg_def demo_copied_msgs demo_adv_def)
      (simp add: demo_copied_def ref_publish_def Let_def ref_broker0_def demo_listener_def)
qed (simp_all add: demo_raw_def submit_message_def dict_get_def context_from_def dict_get_none_def demo_quiet_otel_def
      ref_js_def ref_get_msg_def ref_broker0_def demo_listener_def demo_adv_def demo_copied_def ref_publish_def Let_def)

section \<open>Properties\<close>

text \<open>Quarantining a job that is queued or running copies its message to the dead-letter stream,
  then moves the job to \<open>dead_letter\<close> with a \<open>DEAD_LETTERED\<close> event that carries the delivery count, then
  deletes the original, and counts one quarantine.\<close>

theorem quarantine_dead_letters:
  assumes "db_inv (ls_db w)" and "find_job i (ls_db w) = Some row"
    and "jr_state row = job_state_value s" and "s \<in> {S_QUEUED, S_RUNNING}"
    and "int4_ok (adv_deliveries adv)" and "int8_ok (jr_fence row)"
    and "js_get_msg js (stream_name cfg) (adv_stream_seq adv) (ls_broker w) = (Inr raw, b0)"
    and "json_loads raw = Inr (JObj body)" and "dict_get body ''job_id'' = Some (JStr (uuid_str i))"
    and "is_ok (context_from tel rt (dict_get_none body ''traceparent''))"
    and "js_publish js (subject_dlq cfg) raw (dlq_headers cfg adv) b0 = (Inr (), b1)"
    and "js_delete_msg js (stream_name cfg) (adv_stream_seq adv) b1 = (Inr (), b2)"
  shows "\<exists>w' row' evs ev. quarantine js tel rt cfg adv w = (Inr (), w') \<and>
    find_job i (ls_db w') = Some row' \<and> jr_state row' = job_state_value S_DEAD_LETTER \<and>
    jr_fence row' = jr_fence row \<and> replay_events i (ls_db w) = Inr evs \<and>
    replay_events i (ls_db w') = Inr (evs @ [ev]) \<and> ev_type ev = E_DEAD_LETTERED \<and>
    ev_attempt ev = adv_deliveries adv \<and> ls_broker w' = b2 \<and> ls_quarantined w' = ls_quarantined w + 1"
proof -
  obtain evs where "replay_events i (ls_db w) = Inr evs" using job_log [OF assms(1,2)] by metis
  with quarantine_open_job [OF assms(2-12)] show ?thesis
    using find_job_written [OF assms(2) order_refl] replay_events_write [OF db_inv_ids [OF assms(1)]] by simp
qed

theorem quarantine_dead_letters_witness:
  "\<exists>w' row'. quarantine ref_js demo_quiet_otel demo_runtime Settings demo_adv demo_listener = (Inr (), w') \<and>
     find_job 1 (ls_db w') = Some row' \<and> jr_state row' = ''dead_letter'' \<and> length (rb_msgs (ls_broker w')) = 2"
  using quarantine_dead_letters [OF demo_listener_db demo_row_queued demo_listener_services]
  by (auto simp: demo_copied_msgs demo_listener_def)

text \<open>A quarantine can be repeated after a crash at any point past its first success: the same
  advisory handled again, with the message still there or already deleted, leaves the database as
  it is, whatever the broker answers.\<close>

theorem quarantine_idempotent:
  assumes "quarantine js tel rt cfg adv w = (Inr (), w')"
    and "js_get_msg js (stream_name cfg) (adv_stream_seq adv) (ls_broker w) = (Inr raw, b0)"
    and "fst (js_get_msg js (stream_name cfg) (adv_stream_seq adv) b) = Inr raw \<or>
         (\<exists>e. fst (js_get_msg js (stream_name cfg) (adv_stream_seq adv) b) = Inl e)"
  shows "ls_db (snd (quarantine js tel rt cfg adv (w'\<lparr>ls_broker := b\<rparr>))) = ls_db w'"
proof -
  let ?dt = "Some [(''stream_seq'', JInt (adv_stream_seq adv)), (''deliveries'', JInt (adv_deliveries adv))]"
  obtain body i where body: "json_loads raw = Inr body" "rbind (json_item body ''job_id'') uuid_of_json = Inr i"
      and inner: "fst (quarantine_inner js cfg adv raw i (ls_db w) b0) = Inr ()"
        "ls_db w' = fst (snd (quarantine_inner js cfg adv raw i (ls_db w) b0))"
    using assms(1,2) by (auto simp: quarantine_def Let_def split: sum.splits prod.splits)
  obtain out d1 where rec: "record_event i E_DEAD_LETTERED (adv_deliveries adv) ?dt None None (ls_db w) = (out, d1)"
    by fastforce
  with inner have "case out of Inr _ \<Rightarrow> True | Inl e \<Rightarrow> (\<exists>s ev. e = IllegalTransition s ev)" "ls_db w' = d1"
    by (auto simp: quarantine_inner_def Let_def split: sum.splits prod.splits exn.splits)
  with dead_letter_twice [OF rec]
  have same: "snd (record_event i E_DEAD_LETTERED (adv_deliveries adv) ?dt None None (ls_db w')) = ls_db w'" by simp
  have "fst (snd (quarantine_inner js cfg adv raw i (ls_db w') b')) = ls_db w'" for b'
    using same quarantine_inner_db [of js cfg adv raw i "ls_db w'" b'] by (metis prod.collapse)
  then show ?thesis
    using assms(3) body by (auto simp: quarantine_def Let_def split: sum.splits prod.splits) (metis fst_conv snd_conv)+
qed

theorem quarantine_idempotent_witness:
  "let w' = snd (quarantine ref_js demo_quiet_otel demo_runtime Settings demo_adv demo_listener)
   in ls_db w' \<noteq> ls_db demo_listener \<and>
      ls_db (snd (quarantine ref_js demo_quiet_otel demo_runtime Settings demo_adv (w'\<lparr>ls_broker := ls_broker demo_listener\<rparr>))) = ls_db w'"
proof -
  note run = quarantine_open_job [OF demo_listener_db(2) demo_row_queued demo_listener_services]
  have "write_event 1 E_DEAD_LETTERED a dt (jr_fence (submitted_row 1 ''key-1'' demo_payload 0)) r S_DEAD_LETTER demo_db \<noteq> demo_db" for a dt r
  proof
    assume eq: "write_event 1 E_DEAD_LETTERED a dt (jr_fence (submitted_row 1 ''key-1'' demo_payload 0)) r S_DEAD_LETTER demo_db = demo_db"
    from find_job_written [OF demo_db_row order_refl, of E_DEAD_LETTERED a dt r S_DEAD_LETTER] show False
      unfolding eq by (auto simp: demo_db_row submitted_row_def upd_row_def dest: arg_cong [of _ _ jr_state])
  qed
  then have "ls_db (snd (quarantine ref_js demo_quiet_otel demo_runtime Settings demo_adv demo_listener)) \<noteq> ls_db demo_listener"
    by (simp add: run) (simp add: demo_listener_def)
  with quarantine_idempotent [OF run demo_listener_services(1), of "ls_broker demo_listener"] show ?thesis
    by (simp add: demo_listener_services(1) run Let_def)
qed

text \<open>The advisory parser returns an advisory exactly for a JSON object of the max-deliveries type
  whose four fields are present and whose two numbers are integers as the language reads them; it
  returns \<open>None\<close> for every other decodable text except one with an infinite number, on which an
  \<open>OverflowError\<close> escapes.\<close>

theorem parse_advisory_total:
  "case parse_advisory rt (json_dumps j) of
     Inr (Some adv) \<Rightarrow> (\<exists>data. j = JObj data \<and> dict_get data ''type'' = Some (JStr ADVISORY_TYPE) \<and>
       parse_fields rt data = Inr adv)
   | Inr None \<Rightarrow> (\<nexists>data adv. j = JObj data \<and> dict_get data ''type'' = Some (JStr ADVISORY_TYPE) \<and>
       parse_fields rt data = Inr adv)
   | Inl e \<Rightarrow> (\<exists>m. e = OverflowError m)"
  by (auto simp: parse_advisory_def json_loads_def json_dumps_def split: json.splits sum.splits
      dest!: parse_fields_error)

text \<open>An advisory in the broker's words, and a listener that handles it.\<close>

definition demo_advisory :: json_text where
  "demo_advisory = json_dumps (JObj [(''type'', JStr ADVISORY_TYPE), (''stream'', JStr ''ORBITER_JOBS''), (''consumer'', JStr ''workers''),
     (''stream_seq'', JInt 1), (''deliveries'', JInt 5)])"

lemma demo_advisory_parsed: "parse_advisory demo_runtime demo_advisory = Inr (Some demo_adv)"
  by (simp add: demo_advisory_def demo_adv_def parse_advisory_def parse_fields_def dict_get_def dict_item_def)

lemma handle_advisory_cases:
  assumes "handle_advisory js tel rt cfg m w = (out, w')"
  obtains (unread) e where "parse_advisory rt m = Inl e" "out = Inl (Py e)" "ls_acked w' = ls_acked w"
    | (unacked) b e where "fst (js_ack js m b) = Inl e" "out = Inl e" "ls_acked w' = ls_acked w"
    | (acked) "out = Inr ()" "ls_acked w' = ls_acked w + 1"
proof (cases "parse_advisory rt m")
  case (Inl e)
  with assms unread show ?thesis by (simp add: handle_advisory_def)
next
  case (Inr adv)
  define w1 where "w1 = (case adv of None \<Rightarrow> w | Some a \<Rightarrow> snd (quarantine js tel rt cfg a w))"
  have "ls_acked w1 = ls_acked w" by (simp add: w1_def split: option.split)
  moreover obtain answer b where "js_ack js m (ls_broker w1) = (answer, b)" by fastforce
  ultimately show ?thesis
    using assms Inr unacked [of "ls_broker w1"] acked by (cases answer) (auto simp: handle_advisory_def Let_def simp flip: w1_def)
qed

definition fetched :: "((db \<Rightarrow> db) \<times> (exn + json_text list option)) list \<Rightarrow> json_text list" where
  "fetched fetches = concat (map (\<lambda>(_, f). case f of Inr (Some msgs) \<Rightarrow> msgs | _ \<Rightarrow> []) fetches)"

lemma fetched_simps [simp]:
  "fetched [] = []" "fetched ((others, Inl e) # fetches) = fetched fetches" "fetched ((others, Inr None) # fetches) = fetched fetches"
  "fetched ((others, Inr (Some msgs)) # fetches) = msgs @ fetched fetches"
  by (simp_all add: fetched_def)

text \<open>What can stop the listener at a message.\<close>

definition stops_at :: "'b jetstream \<Rightarrow> py_runtime \<Rightarrow> json_text \<Rightarrow> exn \<Rightarrow> bool" where
  "stops_at js rt m e \<longleftrightarrow> (\<exists>e'. parse_advisory rt m = Inl e' \<and> e = Py e') \<or> (\<exists>b. fst (js_ack js m b) = Inl e)"

lemma handle_advisories_cases:
  assumes "handle_advisories js tel rt cfg msgs w = (out, w')"
  obtains (all) "out = Inr ()" "ls_acked w' = ls_acked w + length msgs"
    | (stopped) e k where "out = Inl e" "k < length msgs" "ls_acked w' = ls_acked w + k" "stops_at js rt (msgs ! k) e"
  using assms
proof (induction msgs arbitrary: w thesis)
  case (Cons m ms)
  obtain o1 w1 where one: "handle_advisory js tel rt cfg m w = (o1, w1)" by fastforce
  then show ?case
  proof (cases rule: handle_advisory_cases)
    case (unread e)
    then show ?thesis using one Cons.prems(3) by (intro Cons.prems(2) [of "Py e" 0]) (auto simp: stops_at_def)
  next
    case (unacked b e)
    then show ?thesis using one Cons.prems(3) by (intro Cons.prems(2) [of e 0]) (auto simp: stops_at_def)
  next
    case acked
    then have rest: "handle_advisories js tel rt cfg ms w1 = (out, w')" using one Cons.prems(3) by simp
    show ?thesis
    proof (rule Cons.IH [OF _ _ rest])
      show "out = Inr () \<Longrightarrow> ls_acked w' = ls_acked w1 + length ms \<Longrightarrow> thesis" using acked by (intro Cons.prems(1)) simp_all
      show "out = Inl e \<Longrightarrow> k < length ms \<Longrightarrow> ls_acked w' = ls_acked w1 + k \<Longrightarrow> stops_at js rt (ms ! k) e \<Longrightarrow> thesis" for e k
        using acked by (intro Cons.prems(2) [of e "Suc k"]) simp_all
    qed
  qed
qed simp

lemma dlq_run_cases:
  assumes "dlq_run js tel rt cfg fetches w = (out, w')"
  obtains (all) "out = Inr ()" "ls_acked w' = ls_acked w + length (fetched fetches)"
    | (stopped) e k where "out = Inl e" "k < length (fetched fetches)" "ls_acked w' = ls_acked w + k" "stops_at js rt (fetched fetches ! k) e"
    | (unfetched) e k where "out = Inl e" "k \<le> length (fetched fetches)" "ls_acked w' = ls_acked w + k" "Inl e \<in> snd ` set fetches"
  using assms
proof (induction fetches arbitrary: w thesis)
  case (Cons f fetches)
  obtain others got where f: "f = (others, got)" by fastforce
  let ?w = "w\<lparr>ls_db := others (ls_db w)\<rparr>"
  have later: thesis if "dlq_run js tel rt cfg fetches w1 = (out, w')" "fetched (f # fetches) = msgs @ fetched fetches"
    "ls_acked w1 = ls_acked w + length msgs" for w1 msgs
  proof (rule Cons.IH [OF _ _ _ that(1)])
    show "out = Inr () \<Longrightarrow> ls_acked w' = ls_acked w1 + length (fetched fetches) \<Longrightarrow> thesis" using that by (intro Cons.prems(1)) simp_all
    show "out = Inl e \<Longrightarrow> k < length (fetched fetches) \<Longrightarrow> ls_acked w' = ls_acked w1 + k \<Longrightarrow> stops_at js rt (fetched fetches ! k) e \<Longrightarrow> thesis" for e k
      using that by (intro Cons.prems(2) [of e "length msgs + k"]) simp_all
    show "out = Inl e \<Longrightarrow> k \<le> length (fetched fetches) \<Longrightarrow> ls_acked w' = ls_acked w1 + k \<Longrightarrow> Inl e \<in> snd ` set fetches \<Longrightarrow> thesis" for e k
      using that by (intro Cons.prems(3) [of e "length msgs + k"]) simp_all
  qed
  consider e where "got = Inl e" | "got = Inr None" | msgs where "got = Inr (Some msgs)" by (cases got) auto
  then show ?case
  proof cases
    case (1 e)
    then show ?thesis using Cons.prems(4) by (intro Cons.prems(3) [of e 0]) (auto simp: f)
  next
    case 2
    then show ?thesis using Cons.prems(4) by (intro later [of ?w "[]"]) (simp_all add: f)
  next
    case (3 msgs)
    obtain o1 w1 where one: "handle_advisories js tel rt cfg msgs ?w = (o1, w1)" by fastforce
    then show ?thesis
    proof (cases rule: handle_advisories_cases)
      case all
      then show ?thesis using Cons.prems(4) one 3 by (intro later [of w1 msgs]) (simp_all add: f)
    next
      case (stopped e k)
      then show ?thesis using Cons.prems(4) one 3 by (intro Cons.prems(2) [of e k]) (simp_all add: f nth_append)
    qed
  qed
qed simp

text \<open>C31: The listener acknowledges the advisories it fetches one by one, each exactly once, and goes on
  whether the quarantine of a job succeeds or raises. A run that ends by itself has acknowledged all of
  them; one that raises stopped at the first message that its parser or its acknowledgement
  raised on, all earlier ones acknowledged, or at a fetch that raised.\<close>

theorem listener_acks_every_advisory:
  "case dlq_run js tel rt cfg fetches w of
     (Inr _, w') \<Rightarrow> ls_acked w' = ls_acked w + length (fetched fetches)
   | (Inl e, w') \<Rightarrow> \<exists>k \<le> length (fetched fetches). ls_acked w' = ls_acked w + k \<and>
       (k < length (fetched fetches) \<and>
          ((\<exists>e'. parse_advisory rt (fetched fetches ! k) = Inl e' \<and> e = Py e') \<or> (\<exists>b. fst (js_ack js (fetched fetches ! k) b) = Inl e))
        \<or> Inl e \<in> snd ` set fetches)"
proof (cases "dlq_run js tel rt cfg fetches w")
  case (Pair out w')
  from Pair show ?thesis
  proof (cases rule: dlq_run_cases)
    case all
    with Pair show ?thesis by simp
  next
    case (stopped e k)
    with Pair show ?thesis by (auto simp: stops_at_def intro!: exI [of _ k])
  next
    case (unfetched e k)
    with Pair show ?thesis by (simp only: prod.case sum.case) blast
  qed
qed

theorem listener_acks_every_advisory_witness:
  "\<exists>w'. dlq_run ref_js demo_quiet_otel demo_runtime Settings [(id, Inr (Some [demo_advisory, Inl JSONDecodeError])), (id, Inr None)] demo_listener =
     (Inr (), w') \<and> ls_quarantined w' = 1 \<and> ls_acked w' = 2"
proof -
  let ?fetches = "[(id :: db \<Rightarrow> db, Inr (Some [demo_advisory, Inl JSONDecodeError])), (id, Inr None)]"
  note done_now = quarantine_open_job [OF demo_listener_db(2) demo_row_queued demo_listener_services]
  have "js_ack ref_js m b = (Inr (), b\<lparr>rb_acked := rb_acked b + 1\<rparr>)" for m b by (simp add: ref_js_def)
  moreover have "parse_advisory demo_runtime (Inl JSONDecodeError) = Inr None" by (simp add: parse_advisory_def json_loads_def)
  ultimately obtain w' where w': "dlq_run ref_js demo_quiet_otel demo_runtime Settings ?fetches demo_listener = (Inr (), w')"
      "ls_quarantined w' = ls_quarantined demo_listener + 1"
    by (simp add: handle_advisory_def demo_advisory_parsed done_now)
  have "ls_acked w' = ls_acked demo_listener + length (fetched ?fetches)"
    using listener_acks_every_advisory [where js = ref_js and tel = demo_quiet_otel and rt = demo_runtime and cfg = Settings
        and fetches = ?fetches and w = demo_listener] unfolding w'(1) by simp
  with w' show ?thesis by (simp add: demo_listener_def)
qed

text \<open>C32: An advisory whose sequence number is the JSON token \<open>Infinity\<close> takes the listener down before
  the advisory is acknowledged: the conversion raises \<open>OverflowError\<close>, which the parser does not catch
  and the loop does not guard.\<close>

theorem infinite_advisory_stops_listener:
  "let data = json_dumps (JObj [(''type'', JStr ADVISORY_TYPE), (''stream'', JStr s), (''consumer'', JStr c),
                (''stream_seq'', JFloat PosInf), (''deliveries'', JInt n)])
   in parse_advisory rt data = Inl (OverflowError ''cannot convert float infinity to integer'') \<and>
      dlq_run js tel rt cfg ((id, Inr (Some (data # msgs))) # fetches) w =
        (Inl (Py (OverflowError ''cannot convert float infinity to integer'')), w)"
  by (simp add: parse_advisory_def parse_fields_def dict_get_def dict_item_def handle_advisory_def Let_def
      caught_by_parse.simps)

end
