(* ===== verification/Admission.thy ===== *)
theory Admission
  imports Domain
begin

text \<open>
  Bounded admission control: \<^verbatim>\<open>src/orbiter/api/admission.py\<close>. The counter of requests in flight stays
  within the capacity over every sequence of calls, admission is refused exactly at capacity, and
  a release without an admission raises.
\<close>

record admission =
  capacity :: int
  retry_after_s :: int
  adm_in_flight :: int

definition AdmissionController :: "int \<Rightarrow> int \<Rightarrow> exn + admission" where
  "AdmissionController cap retry =
     (if cap < 1 then Inl (Py (ValueError ''capacity must be >= 1''))
      else Inr \<lparr>capacity = cap, retry_after_s = retry, adm_in_flight = 0\<rparr>)"

definition in_flight :: "admission \<Rightarrow> int" where
  "in_flight a = adm_in_flight a"

definition available :: "admission \<Rightarrow> int" where
  "available a = capacity a - adm_in_flight a"

definition try_acquire :: "admission \<Rightarrow> bool \<times> admission" where
  "try_acquire a =
     (if capacity a \<le> adm_in_flight a then (False, a)
      else (True, a\<lparr>adm_in_flight := adm_in_flight a + 1\<rparr>))"

definition adm_release :: "admission \<Rightarrow> (exn + unit) \<times> admission" where
  "adm_release a =
     (if adm_in_flight a \<le> 0
      then (Inl (Py (RuntimeError ''release() without a matching try_acquire()'')), a)
      else (Inr (), a\<lparr>adm_in_flight := adm_in_flight a - 1\<rparr>))"

definition adm_inv :: "admission \<Rightarrow> bool" where
  "adm_inv a \<longleftrightarrow> 1 \<le> capacity a \<and> 0 \<le> adm_in_flight a \<and> adm_in_flight a \<le> capacity a"

text \<open>A run of calls by concurrent requests; \<open>True\<close> is an admission, \<open>False\<close> a release. It returns how
  many admissions and how many releases took effect.\<close>

fun adm_run :: "bool list \<Rightarrow> admission \<Rightarrow> (nat \<times> nat) \<times> admission" where
  "adm_run [] a = ((0, 0), a)"
| "adm_run (True # cs) a =
     (let (ok, a1) = try_acquire a; ((p, q), a2) = adm_run cs a1
      in ((if ok then Suc p else p, q), a2))"
| "adm_run (False # cs) a =
     (let (r, a1) = adm_release a; ((p, q), a2) = adm_run cs a1
      in ((p, if is_ok r then Suc q else q), a2))"

lemma AdmissionController_inv: "AdmissionController cap r = Inr a \<Longrightarrow> adm_inv a \<and> in_flight a = 0"
  by (auto simp: AdmissionController_def adm_inv_def in_flight_def split: if_splits)

lemma try_acquire_inv: "adm_inv a \<Longrightarrow> adm_inv (snd (try_acquire a))"
  by (auto simp: try_acquire_def adm_inv_def)

lemma adm_release_inv: "adm_inv a \<Longrightarrow> adm_inv (snd (adm_release a))"
  by (auto simp: adm_release_def adm_inv_def)

lemma try_acquire_then_release:
  assumes "adm_inv a" "try_acquire a = (True, a1)"
  shows "adm_release a1 = (Inr (), a)"
  using assms by (auto simp: try_acquire_def adm_release_def adm_inv_def split: if_splits)

lemma try_acquire_frame:
  "capacity (snd (try_acquire a)) = capacity a"
  "in_flight (snd (try_acquire a)) = in_flight a + (if fst (try_acquire a) then 1 else 0)"
  by (simp_all add: try_acquire_def in_flight_def)

lemma adm_release_frame:
  "capacity (snd (adm_release a)) = capacity a"
  "in_flight (snd (adm_release a)) = in_flight a - (if is_ok (fst (adm_release a)) then 1 else 0)"
  by (simp_all add: adm_release_def in_flight_def)

lemma adm_run_props:
  "adm_inv a \<Longrightarrow> adm_inv (snd (adm_run cs a)) \<and> capacity (snd (adm_run cs a)) = capacity a \<and>
     in_flight (snd (adm_run cs a)) =
       in_flight a + int (fst (fst (adm_run cs a))) - int (snd (fst (adm_run cs a)))"
proof (induction cs arbitrary: a)
  case (Cons c cs)
  then show ?case
    using Cons.IH [OF try_acquire_inv] Cons.IH [OF adm_release_inv]
    by (cases c) (simp_all add: Let_def split_beta try_acquire_frame adm_release_frame)
qed simp

section \<open>Properties\<close>

text \<open>Over every sequence of admissions and releases on a fresh controller the number in flight
  is the admissions that succeeded minus the releases that succeeded and stays between zero and
  the capacity; an admission is then refused exactly when the capacity is used up, and a release
  raises exactly when nothing is in flight.\<close>

theorem admission_bounded:
  assumes "AdmissionController cap r = Inr a" and "adm_run cs a = ((p, q), a')"
  shows "in_flight a' = int p - int q \<and> 0 \<le> in_flight a' \<and> in_flight a' \<le> cap \<and>
    available a' = cap - in_flight a' \<and>
    (fst (try_acquire a') \<longleftrightarrow> in_flight a' < cap) \<and>
    (is_ok (fst (adm_release a')) \<longleftrightarrow> 0 < in_flight a')"
proof -
  have "capacity a = cap" using assms(1) by (auto simp: AdmissionController_def split: if_splits)
  then show ?thesis
    using adm_run_props [of a cs] assms(2) AdmissionController_inv [OF assms(1)]
    by (auto simp: adm_inv_def in_flight_def available_def try_acquire_def adm_release_def)
qed

theorem admission_bounded_witness:
  "\<exists>a a'. AdmissionController 1 1 = Inr a \<and> adm_run [True, True, False, False, True] a = ((2, 1), a') \<and>
     in_flight a' = 1 \<and> \<not> fst (try_acquire a')"
proof -
  obtain a where a: "AdmissionController 1 1 = Inr a" by (simp add: AdmissionController_def)
  obtain a' where r: "adm_run [True, True, False, False, True] a = ((2, 1), a')"
    using a by (auto simp: AdmissionController_def try_acquire_def adm_release_def)
  from admission_bounded [OF a r] a r show ?thesis by auto
qed

end
