(* ===== verification/Api.thy ===== *)
theory Api
  imports History Admission
begin

text \<open>
  The HTTP API: \<^verbatim>\<open>src/orbiter/api/app.py\<close>. A handler is a function of the application state; a response
  is the value it returns, with the status code where the handler sets one, and an \<open>HTTPException\<close> is
  the exception value of that name. Request decoding belongs to the web framework: a handler takes
  the decoded request. While a submission awaits its transaction other requests run; what they do to
  the application state is the argument \<open>others\<close>.
\<close>

section \<open>Application state and requests\<close>

record submit_request =
  rq_duration_ms :: int
  rq_failure_rate :: pyfloat
  rq_poison :: bool

record submit_response =
  rs_id :: string
  rs_state :: string
  rs_created :: bool

record 'n app_state =
  app_db :: db
  app_admission :: admission
  app_nats :: "'n option"
  app_submitted :: "bool list"
  app_rejected :: nat

text \<open>The bounds of the \<^verbatim>\<open>Field\<close> declarations, and \<^verbatim>\<open>body.model_dump()\<close>.\<close>

definition submit_request_ok :: "submit_request \<Rightarrow> bool" where
  "submit_request_ok r \<longleftrightarrow> 0 \<le> rq_duration_ms r \<and> rq_duration_ms r \<le> 600000 \<and>
     float_le (Fin 0) (rq_failure_rate r) \<and> float_le (rq_failure_rate r) (Fin 1)"

definition model_dump :: "submit_request \<Rightarrow> pydict" where
  "model_dump r = [(''duration_ms'', JInt (rq_duration_ms r)), (''failure_rate'', JFloat (rq_failure_rate r)),
     (''poison'', JBool (rq_poison r))]"

text \<open>Start-up: the schema is applied, the admission controller built, and the broker connected if it
  answers; the argument \<open>connect\<close> is what the connection attempt yields.\<close>

definition apply_schema :: "real \<Rightarrow> db option \<Rightarrow> db" where
  "apply_schema t tables = (case tables of None \<Rightarrow> empty_db t | Some d \<Rightarrow> d)"

definition lifespan :: "settings \<Rightarrow> real \<Rightarrow> db option \<Rightarrow> exn + 'n \<Rightarrow> exn + 'n app_state" where
  "lifespan cfg t tables connect =
     rbind (AdmissionController (admission_capacity cfg) (admission_retry_after_s cfg)) (\<lambda>adm.
       Inr \<lparr>app_db = apply_schema t tables, app_admission = adm,
            app_nats = (case connect of Inl _ \<Rightarrow> None | Inr nc \<Rightarrow> Some nc), app_submitted = [], app_rejected = 0\<rparr>)"

section \<open>Handlers\<close>

definition api_submit ::
    "settings \<Rightarrow> uuid \<Rightarrow> (string \<times> string) list \<Rightarrow> ('n app_state \<Rightarrow> 'n app_state) \<Rightarrow> submit_request \<Rightarrow> string \<Rightarrow>
       'n app_state \<Rightarrow> (exn + int \<times> submit_response) \<times> 'n app_state" where
  "api_submit cfg fresh carrier others body key a =
     (let (admitted, adm1) = try_acquire (app_admission a);
          a1 = a\<lparr>app_admission := adm1\<rparr> in
      if \<not> admitted
      then (Inl (HTTPException 429 ''submission capacity exceeded; retry later''
                  [(''Retry-After'', int_str (retry_after_s adm1))]),
            a1\<lparr>app_rejected := app_rejected a1 + 1\<rparr>)
      else
        let a2 = others a1;
            (submitted, d) = submit_job fresh carrier key (model_dump body) (subject_jobs cfg) (app_db a2);
            (released, adm3) = adm_release (app_admission a2);
            a3 = a2\<lparr>app_db := d, app_admission := adm3\<rparr> in
        case released of
          Inl e \<Rightarrow> (Inl e, a3)
        | Inr _ \<Rightarrow>
        case submitted of
          Inl e \<Rightarrow> (Inl e, a3)
        | Inr (job_id, created) \<Rightarrow>
            (Inr (if created then 201 else 200,
                  \<lparr>rs_id = uuid_str job_id, rs_state = ''queued'', rs_created = created\<rparr>),
             a3\<lparr>app_submitted := app_submitted a3 @ [created]\<rparr>))"

definition parse_job_id :: "string \<Rightarrow> exn + uuid" where
  "parse_job_id job_id =
     (case uuid_of_str job_id of
        Inl e \<Rightarrow> if is_ValueError e then Inl (HTTPException 422 ''job_id must be a UUID'' []) else Inl (Py e)
      | Inr i \<Rightarrow> Inr i)"

definition api_status :: "py_runtime \<Rightarrow> (db \<Rightarrow> db) \<Rightarrow> string \<Rightarrow> 'n app_state \<Rightarrow> exn + json" where
  "api_status rt others job_id a =
     rbind (parse_job_id job_id) (\<lambda>parsed.
       case get_job rt others parsed (app_db a) of
         None \<Rightarrow> Inl (HTTPException 404 ''no such job'' [])
       | Some job \<Rightarrow> Inr job)"

definition api_dlq :: "py_runtime \<Rightarrow> 'n app_state \<Rightarrow> json list" where
  "api_dlq rt a = list_jobs_by_state rt S_DEAD_LETTER (app_db a)"

text \<open>The text of an \<open>IllegalTransition\<close>, which shows the state by its representation.\<close>

definition quoted :: "string \<Rightarrow> string" where
  "quoted s = CHR 0x27 # s @ [CHR 0x27]"

fun job_state_name :: "job_state \<Rightarrow> string" where
  "job_state_name S_SUBMITTED = ''SUBMITTED''"
| "job_state_name S_QUEUED = ''QUEUED''"
| "job_state_name S_RUNNING = ''RUNNING''"
| "job_state_name S_SUCCEEDED = ''SUCCEEDED''"
| "job_state_name S_FAILED = ''FAILED''"
| "job_state_name S_DEAD_LETTER = ''DEAD_LETTER''"

definition illegal_transition_text :: "job_state option \<Rightarrow> event_type \<Rightarrow> string" where
  "illegal_transition_text st ev =
     ''event '' @ quoted (event_type_value ev) @ '' is not legal in state '' @
     (case st of None \<Rightarrow> ''None''
      | Some s \<Rightarrow> ''<JobState.'' @ job_state_name s @ '': '' @ quoted (job_state_value s) @ ''>'')"

definition api_replay :: "settings \<Rightarrow> string \<Rightarrow> 'n app_state \<Rightarrow> (exn + (string \<times> string) list) \<times> 'n app_state" where
  "api_replay cfg job_id a =
     (case parse_job_id job_id of
        Inl e \<Rightarrow> (Inl e, a)
      | Inr parsed \<Rightarrow>
          (case replay_job parsed (subject_jobs cfg) (app_db a) of
             (Inl (IllegalTransition st ev), d) \<Rightarrow>
               (Inl (HTTPException 409
                  (''only dead-lettered jobs can be replayed: '' @ illegal_transition_text st ev) []), a\<lparr>app_db := d\<rparr>)
           | (Inl e, d) \<Rightarrow> (Inl e, a\<lparr>app_db := d\<rparr>)
           | (Inr None, d) \<Rightarrow> (Inl (HTTPException 404 ''no such job'' []), a\<lparr>app_db := d\<rparr>)
           | (Inr (Some st), d) \<Rightarrow>
               (Inr [(''id'', job_id), (''state'', job_state_value st)], a\<lparr>app_db := d\<rparr>)))"

definition api_recent_jobs :: "py_runtime \<Rightarrow> 'n app_state \<Rightarrow> json list" where
  "api_recent_jobs rt a = list_recent_jobs rt 25 (app_db a)"

text \<open>The broker connection's \<^verbatim>\<open>publish\<close> is an argument.\<close>

definition api_chaos_kill_worker ::
    "settings \<Rightarrow> (string \<Rightarrow> string \<Rightarrow> 'n \<Rightarrow> (exn + unit) \<times> 'n) \<Rightarrow> 'n app_state \<Rightarrow>
       (exn + (string \<times> string) list) \<times> 'n app_state" where
  "api_chaos_kill_worker cfg publish a =
     (case app_nats a of
        None \<Rightarrow> (Inl (HTTPException 503 ''no broker connection'' []), a)
      | Some nc \<Rightarrow>
          (case publish (subject_chaos cfg) ''die'' nc of
             (Inl e, nc1) \<Rightarrow> (Inl e, a\<lparr>app_nats := Some nc1\<rparr>)
           | (Inr _, nc1) \<Rightarrow>
               (Inr [(''chaos'', ''one worker is about to have a very bad day'')], a\<lparr>app_nats := Some nc1\<rparr>)))"

text \<open>The page is a file of the package; \<open>read_text\<close> is what reading it yields.\<close>

definition api_chaos_page :: "(string \<Rightarrow> exn + string) \<Rightarrow> exn + string" where
  "api_chaos_page read_text = read_text ''chaos.html''"

text \<open>The outcome of acquiring a connection and selecting a constant on it is the argument.\<close>

definition api_healthz :: "exn + int \<Rightarrow> exn + (string \<times> string) list" where
  "api_healthz select_1 = rbind select_1 (\<lambda>_. Inr [(''status'', ''ok'')])"

section \<open>What the handlers do\<close>

lemma parse_job_id_cases:
  obtains (ok) i where "uuid_of_str job_id = Inr i" "parse_job_id job_id = Inr i"
    | (bad) e where "uuid_of_str job_id = Inl e" "parse_job_id job_id = Inl (HTTPException 422 ''job_id must be a UUID'' [])"
proof (cases "uuid_of_str job_id")
  case (Inl e)
  then have "is_ValueError e"
    by (auto simp: uuid_of_str_def Let_def split: if_splits option.splits)
  with Inl bad show ?thesis by (simp add: parse_job_id_def)
next
  case (Inr i)
  with ok show ?thesis by (simp add: parse_job_id_def)
qed

lemma parse_job_id_str [simp]: "parse_job_id (uuid_str i) = Inr i"
  by (simp add: parse_job_id_def uuid_of_str_str)

lemma lifespan_inv:
  "lifespan cfg t tables connect = Inr a \<Longrightarrow> adm_inv (app_admission a) \<and> app_db a = apply_schema t tables"
  by (auto simp: lifespan_def dest: AdmissionController_inv)

text \<open>Every handler moves the database by at most one transaction.\<close>

lemma api_submit_db:
  "db_steps (app_db (others (a\<lparr>app_admission := snd (try_acquire (app_admission a))\<rparr>)))
     (app_db (snd (api_submit cfg fresh carrier others body key a))) \<or>
   app_db (snd (api_submit cfg fresh carrier others body key a)) = app_db a"
  using db_step.submitting
  by (auto simp: api_submit_def Let_def split_beta split: sum.splits intro!: r_into_rtranclp)

lemma api_replay_db: "db_steps (app_db a) (app_db (snd (api_replay cfg job_id a)))"
proof (cases "parse_job_id job_id")
  case (Inr i)
  have "app_db (snd (api_replay cfg job_id a)) = snd (replay_job i (subject_jobs cfg) (app_db a))"
    by (auto simp: api_replay_def Inr split: prod.splits sum.splits exn.splits option.splits)
  then show ?thesis using db_step.replaying by (simp add: r_into_rtranclp)
qed (simp add: api_replay_def)

lemma fresh_job_row:
  assumes "find_job i d = None"
  shows "find_job i (submitted_db i carrier key payload subject d) = Some (submitted_row i key payload (db_now d))"
  using assms by (simp add: find_job_def find_append) (simp add: submitted_row_def)

lemma fresh_job_log:
  assumes "db_inv d" "find_job i d = None"
  shows "replay_events i (submitted_db i carrier key payload subject d) = Inr (map (\<lambda>t. \<lparr>ev_type = t, ev_attempt = 0,
     ev_detail = [], ev_at = db_now d\<rparr>) [E_SUBMITTED, E_ENQUEUED])"
  using submitted_db_log [OF db_inv_ids [OF assms(1)], of i i] fresh_job_empty(1) [OF assms] by simp

lemma api_submit_admitted:
  assumes "try_acquire (app_admission a) = (True, adm1)" "others (a\<lparr>app_admission := adm1\<rparr>) = a1"
    "submit_job fresh carrier key (model_dump body) (subject_jobs cfg) (app_db a1) = (out, d)"
    "adm_release (app_admission a1) = (Inr (), adm3)"
  shows "api_submit cfg fresh carrier others body key a = (case out of
        Inl e \<Rightarrow> (Inl e, a1\<lparr>app_db := d, app_admission := adm3\<rparr>)
      | Inr (job_id, created) \<Rightarrow>
          (Inr (if created then 201 else 200, \<lparr>rs_id = uuid_str job_id, rs_state = ''queued'', rs_created = created\<rparr>),
           a1\<lparr>app_db := d, app_admission := adm3, app_submitted := app_submitted a1 @ [created]\<rparr>))"
  using assms by (simp add: api_submit_def split: sum.splits)

section \<open>Properties\<close>

text \<open>C33: Submitting: at capacity the request is refused with 429 and a \<open>Retry-After\<close> header and nothing
  but the rejection counter changes. Otherwise the admission slot is given back on every path, errors
  included, and the response is 201 with a new queued job whose log is submitted, enqueued and whose
  payload is the request, or 200 with the job the key already had and no change to the database.\<close>

theorem submit_response:
  fixes a :: "'n app_state" and others :: "'n app_state \<Rightarrow> 'n app_state"
  defines "a1 \<equiv> others (a\<lparr>app_admission := snd (try_acquire (app_admission a))\<rparr>)"
  assumes "db_inv (app_db a1)" and "1 \<le> in_flight (app_admission a1)"
  shows "case api_submit cfg fresh carrier others body key a of (out, a') \<Rightarrow>
    if capacity (app_admission a) \<le> in_flight (app_admission a)
    then out = Inl (HTTPException 429 ''submission capacity exceeded; retry later''
             [(''Retry-After'', int_str (retry_after_s (app_admission a)))]) \<and>
         a' = a\<lparr>app_rejected := app_rejected a + 1\<rparr>
    else in_flight (app_admission a') = in_flight (app_admission a1) - 1 \<and>
      (case out of
         Inl e \<Rightarrow> e = UniqueViolation ''jobs_pkey'' \<and> app_db a' = app_db a1
       | Inr (code, r) \<Rightarrow> code = (if rs_created r then 201 else 200) \<and>
           (\<exists>i row. rs_id r = uuid_str i \<and> find_job i (app_db a') = Some row \<and> jr_key row = key \<and>
              (if rs_created r
               then i = fresh \<and> jr_state row = job_state_value S_QUEUED \<and> jr_payload row = JObj (model_dump body) \<and>
                 (\<exists>evs. replay_events i (app_db a') = Inr evs \<and> map ev_type evs = [E_SUBMITTED, E_ENQUEUED])
               else app_db a' = app_db a1)))"
proof (cases "capacity (app_admission a) \<le> in_flight (app_admission a)")
  case True
  then show ?thesis by (simp add: api_submit_def try_acquire_def in_flight_def)
next
  case False
  obtain out d where sub: "submit_job fresh carrier key (model_dump body) (subject_jobs cfg) (app_db a1) = (out, d)" by fastforce
  have adm: "try_acquire (app_admission a) = (True, snd (try_acquire (app_admission a)))"
    using False by (simp add: try_acquire_def in_flight_def)
  have rel: "adm_release (app_admission a1) =
      (Inr (), (app_admission a1)\<lparr>adm_in_flight := adm_in_flight (app_admission a1) - 1\<rparr>)"
    using assms(3) by (simp add: adm_release_def in_flight_def)
  note run = api_submit_admitted [where others = others, OF adm a1_def [THEN meta_eq_to_obj_eq, symmetric] sub rel]
  from sub show ?thesis
  proof (cases rule: submit_job_cases)
    case (duplicate r)
    with find_key_row [OF assms(2) duplicate(1)] False show ?thesis by (auto simp: run in_flight_def)
  next
    case collision
    with False show ?thesis by (simp add: run in_flight_def)
  next
    case fresh
    have "find_job fresh d = Some (submitted_row fresh key (model_dump body) (db_now (app_db a1)))"
      using fresh_job_row [OF fresh(2)] by (simp add: fresh(4))
    moreover have "\<exists>evs. replay_events fresh d = Inr evs \<and> map ev_type evs = [E_SUBMITTED, E_ENQUEUED]"
      using fresh_job_log [OF assms(2) fresh(2)] by (simp add: fresh(4))
    ultimately show ?thesis using False fresh(3) by (simp add: run in_flight_def submitted_row_def)
  qed
qed

definition demo_app :: "unit app_state" where
  "demo_app = \<lparr>app_db = demo_db, app_admission = \<lparr>capacity = 64, retry_after_s = 1, adm_in_flight = 0\<rparr>,
     app_nats = None, app_submitted = [], app_rejected = 0\<rparr>"

theorem submit_response_witness:
  "\<exists>out a'. api_submit Settings 2 [] id \<lparr>rq_duration_ms = 5, rq_failure_rate = Fin 0, rq_poison = False\<rparr> ''key-2'' demo_app =
     (out, a') \<and> in_flight (app_admission a') = 0"
proof -
  let ?body = "\<lparr>rq_duration_ms = 5, rq_failure_rate = Fin 0, rq_poison = False\<rparr>"
  obtain out a' where run: "api_submit Settings 2 [] id ?body ''key-2'' demo_app = (out, a')" by fastforce
  have "db_inv (app_db (id (demo_app\<lparr>app_admission := snd (try_acquire (app_admission demo_app))\<rparr>)))"
    by (simp add: demo_app_def demo_db_inv)
  moreover have "1 \<le> in_flight (app_admission (id (demo_app\<lparr>app_admission := snd (try_acquire (app_admission demo_app))\<rparr>)))"
    by (simp add: demo_app_def try_acquire_def in_flight_def)
  ultimately have "in_flight (app_admission a') = 0"
    using submit_response [where a = demo_app and others = id and cfg = Settings and fresh = 2 and carrier = "[]" and
      body = ?body and key = "''key-2''"] run
    by (simp add: demo_app_def try_acquire_def in_flight_def)
  with run show ?thesis by blast
qed

text \<open>C34: The id a submission returns leads back to its job: the status endpoint parses that text to the
  same id and returns a job that carries it, with the state its log replays to.\<close>

theorem status_of_submitted_job:
  assumes "reachable (app_db (others (a\<lparr>app_admission := snd (try_acquire (app_admission a))\<rparr>)))"
    and "api_submit cfg fresh carrier others body key a = (Inr (code, r), a')"
  shows "\<exists>kvs i evs s. api_status rt between (rs_id r) a' = Inr (JObj kvs) \<and> uuid_of_str (rs_id r) = Inr i \<and>
    dict_get kvs ''id'' = Some (JStr (rs_id r)) \<and> replay_events i (app_db a') = Inr evs \<and> replay evs = Inr s \<and>
    dict_get kvs ''state'' = Some (JStr (job_state_value s))"
proof -
  let ?d = "app_db (others (a\<lparr>app_admission := snd (try_acquire (app_admission a))\<rparr>))"
  obtain job created where sub: "submit_job fresh carrier key (model_dump body) (subject_jobs cfg) ?d = (Inr (job, created), app_db a')"
      and r: "rs_id r = uuid_str job"
    using assms(2) by (auto simp: api_submit_def Let_def split_beta split: if_splits sum.splits prod.splits)
      (metis prod.collapse)+
  have inv: "history_inv (app_db a')"
    using history_inv_submit [OF history_inv_reachable [OF assms(1)]] sub by (metis snd_conv)
  have "\<exists>row. find_job job (app_db a') = Some row" using sub
  proof (cases rule: submit_job_cases)
    case (duplicate x)
    then show ?thesis
      using find_key_row [of ?d key x] history_inv_reachable [OF assms(1)] by (auto simp: history_inv_def)
  qed (auto simp: fresh_job_row)
  then obtain row where row: "find_job job (app_db a') = Some row" by blast
  obtain evs s where "replay_events job (app_db a') = Inr evs" "replay evs = Inr s" "jr_state row = job_state_value s"
    using inv row by (metis history_inv_def job_log)
  with row find_job_id [OF row] r show ?thesis
    by (simp add: api_status_def get_job_def dict_get_def uuid_of_str_str)
qed

theorem status_of_submitted_job_witness:
  "\<exists>code r a' kvs. api_submit Settings 2 [] id \<lparr>rq_duration_ms = 5, rq_failure_rate = Fin 0, rq_poison = False\<rparr> ''key-1'' demo_app =
     (Inr (code, r), a') \<and> api_status demo_runtime id (rs_id r) a' = Inr (JObj kvs) \<and> dict_get kvs ''id'' = Some (JStr (rs_id r))"
proof -
  let ?body = "\<lparr>rq_duration_ms = 5, rq_failure_rate = Fin 0, rq_poison = False\<rparr>"
  obtain code r a' where run: "api_submit Settings 2 [] id ?body ''key-1'' demo_app = (Inr (code, r), a')"
    by (simp add: api_submit_def demo_app_def try_acquire_def adm_release_def submit_job_def transaction_def demo_db_jobs Let_def)
      (simp add: submitted_row_def)
  have "reachable (app_db (id (demo_app\<lparr>app_admission := snd (try_acquire (app_admission demo_app))\<rparr>)))"
    using demo_reachable by (simp add: demo_app_def)
  from status_of_submitted_job [OF this run, of demo_runtime id] run show ?thesis by blast
qed

text \<open>C35: The replay endpoint answers 422 for a text that is not a UUID, 404 for an unknown job, 409 for a
  job that is not dead-lettered, and otherwise the id as given with state \<open>queued\<close>; only the last one
  changes the database, by exactly the replay transaction.\<close>

theorem replay_responses:
  assumes "history_inv (app_db a)"
  shows "case api_replay cfg job_id a of (out, a') \<Rightarrow>
    (case uuid_of_str job_id of
       Inl _ \<Rightarrow> out = Inl (HTTPException 422 ''job_id must be a UUID'' []) \<and> a' = a
     | Inr i \<Rightarrow>
        (case find_job i (app_db a) of
           None \<Rightarrow> out = Inl (HTTPException 404 ''no such job'' []) \<and> a' = a
         | Some row \<Rightarrow>
             if jr_state row = job_state_value S_DEAD_LETTER
             then out = Inr [(''id'', job_id), (''state'', ''queued'')] \<and>
               replay_job i (subject_jobs cfg) (app_db a) = (Inr (Some S_QUEUED), app_db a')
             else (\<exists>detail. out = Inl (HTTPException 409 detail [])) \<and> a' = a))"
proof (cases rule: parse_job_id_cases [of job_id])
  case (bad e)
  then show ?thesis by (simp add: api_replay_def)
next
  case (ok i)
  have pre: "db_inv (app_db a)" "\<forall>r \<in> set (jobs (app_db a)). int8_ok (jr_fence r)"
    using assms by (simp_all add: history_inv_def fences_ok_def)
  obtain out d where rep: "replay_job i (subject_jobs cfg) (app_db a) = (out, d)" by fastforce
  show ?thesis
  proof (cases "find_job i (app_db a)")
    case None
    with rep have "out = Inr None" "d = app_db a" by (auto simp: replay_job_def transaction_def)
    with ok None rep show ?thesis by (simp add: api_replay_def)
  next
    case (Some row)
    obtain s where s: "jr_state row = job_state_value s" using job_log [OF pre(1) Some] by metis
    show ?thesis
    proof (cases "s = S_DEAD_LETTER")
      case True
      have "int8_ok (jr_fence row)" using pre(2) find_job_inv [OF pre(1) Some] by blast
      with rep Some s True have "out = Inr (Some S_QUEUED)" by (simp add: replay_dead_letter)
      with ok Some rep s True show ?thesis by (simp add: api_replay_def)
    next
      case False
      have "repo_apply_event i E_REPLAYED 0 None None None (app_db a) = (Inl (IllegalTransition (Some s) E_REPLAYED), app_db a)"
        using record_event_illegal [OF Some s, of E_REPLAYED 0 None None None] False Some s
        by (cases s) (simp_all add: repo_apply_event_def job_state_of_def enum_job_state_def)
      then have "out = Inl (IllegalTransition (Some s) E_REPLAYED)" "d = app_db a"
        using rep Some by (auto simp: replay_job_def transaction_def)
      moreover have "jr_state row \<noteq> job_state_value S_DEAD_LETTER" using False s by (simp del: job_state_value.simps)
      ultimately show ?thesis using ok Some rep by (simp add: api_replay_def)
    qed
  qed
qed

theorem replay_responses_witness:
  "case api_replay Settings (uuid_str 1) demo_app of (out, a') \<Rightarrow> (\<exists>detail. out = Inl (HTTPException 409 detail [])) \<and> a' = demo_app"
proof -
  have db: "app_db demo_app = demo_db" by (simp add: demo_app_def)
  then have "history_inv (app_db demo_app)" using history_inv_reachable [OF demo_reachable] by simp
  from replay_responses [OF this, where cfg = Settings and job_id = "uuid_str 1"] show ?thesis
    by (simp add: uuid_of_str_str db demo_db_row split_beta) (simp add: submitted_row_def)
qed

text \<open>C36: The state a duplicate submission reports is not the job's: for a key whose job has moved on, the
  response is 200 and always says \<open>queued\<close>.\<close>

theorem duplicate_submission_reports_queued:
  assumes "find (\<lambda>r. jr_key r = key) (jobs (app_db a)) = Some row" and "jr_state row \<noteq> job_state_value S_QUEUED"
    and "in_flight (app_admission a) < capacity (app_admission a)" and "0 \<le> in_flight (app_admission a)"
  shows "\<exists>r a'. api_submit cfg fresh carrier id body key a = (Inr (200, r), a') \<and> rs_id r = uuid_str (jr_id row) \<and>
    rs_state r \<noteq> jr_state row \<and> rs_state r = ''queued''"
  using assms
  by (simp add: api_submit_def try_acquire_def adm_release_def submit_job_def transaction_def in_flight_def Let_def)

theorem duplicate_submission_reports_queued_witness:
  "\<exists>r a'. api_submit Settings 2 [] id \<lparr>rq_duration_ms = 5, rq_failure_rate = Fin 0, rq_poison = False\<rparr> ''key-1''
      (demo_app\<lparr>app_db := write_event 1 E_STARTED 1 [] 7 None S_RUNNING demo_db\<rparr>) = (Inr (200, r), a') \<and>
     rs_id r = uuid_str 1 \<and> rs_state r = ''queued''"
proof -
  let ?row = "upd_row S_RUNNING 1 7 None (db_now demo_db) (submitted_row 1 ''key-1'' demo_payload 0)"
  let ?a = "demo_app\<lparr>app_db := write_event 1 E_STARTED 1 [] 7 None S_RUNNING demo_db\<rparr>"
  have "find (\<lambda>r. jr_key r = ''key-1'') (jobs (app_db ?a)) = Some ?row"
    by (simp add: demo_db_jobs) (simp add: submitted_row_def)
  moreover have "jr_state ?row \<noteq> job_state_value S_QUEUED" by simp
  moreover have "in_flight (app_admission ?a) < capacity (app_admission ?a)" "0 \<le> in_flight (app_admission ?a)"
    by (simp_all add: demo_app_def in_flight_def)
  ultimately show ?thesis
    using duplicate_submission_reports_queued [of "''key-1''" ?a ?row, where cfg = Settings and fresh = 2 and carrier = "[]"
      and body = "\<lparr>rq_duration_ms = 5, rq_failure_rate = Fin 0, rq_poison = False\<rparr>"]
    by (fastforce simp: submitted_row_def)
qed

end
