(* ===== verification/Platform.thy ===== *)
theory Platform
  imports Delivery Dlq Api
begin

text \<open>
  The components together: the whole way of a job from the API through the outbox, the relay and the
  broker to a worker and back to the API's status.
\<close>

section \<open>From submission to status\<close>

lemma submitted_outbox:
  "outbox (submitted_db i carrier key payload subject d) = outbox d @
     [\<lparr>ob_id = outbox_seq d + 1, ob_job = i, ob_subject = subject, ob_payload = submit_message i payload carrier,
       ob_created = db_now d, ob_published = None\<rparr>]"
  by (simp add: submitted_db_def insert_outbox_def)

lemma exec_args_model_dump [simp]: "exec_args rt (model_dump body) = Inr (rq_duration_ms body, rq_failure_rate body)"
  by (simp add: exec_args_def model_dump_def dict_item_def dict_get_def)

text \<open>Every message the repository writes, for a submission or a replay, reaches \<open>handle\<close> with the job's
  id and payload.\<close>

lemma process_message:
  assumes "dict_get body ''job_id'' = Some (JStr (uuid_str i))" "dict_get body ''payload'' = Some (JObj payload)"
  shows "process kv tel rt sleep cfg wid \<lparr>msg_data = json_dumps (JObj body), msg_headers = hs, num_delivered = n\<rparr> w =
     handle kv rt sleep cfg wid i (JObj payload) n (wid @ '':'' @ int_str n) w"
proof -
  let ?j = "if hs = [] then JNull else JObj (map (\<lambda>(k, v). (k, JStr v)) hs)"
  have "is_ok (context_from tel rt ?j)" by (simp add: context_from_ok)
  then obtain ctx where "context_from tel rt ?j = Inr ctx" by (cases "context_from tel rt ?j") auto
  then show ?thesis using assms
    by (cases "hs = []") (simp_all add: process_def dict_item_def dict_get_def uuid_of_str_str Let_def)
qed

lemma process_submitted:
  "process kv tel rt sleep cfg wid \<lparr>msg_data = json_dumps (submit_message i payload carrier), msg_headers = hs, num_delivered = n\<rparr> w =
     handle kv rt sleep cfg wid i (JObj payload) n (wid @ '':'' @ int_str n) w"
  unfolding submit_message_def by (rule process_message) (simp_all add: dict_get_def)

text \<open>A fresh submission, seen by the relay and by the worker that receives its message.\<close>

lemma submission_relayed:
  assumes "history_inv d" "find_job i d = None" "find (\<lambda>r. jr_key r = key) (jobs d) = None" "unpublished d = []"
    "1 \<le> relay_batch_size cfg" "carrier_keeps_id tel" "js_stores js stored"
    "''outbox-'' @ int_str (outbox_seq d + 1) \<notin> sm_id ` set (stored b)"
    "d1 = submitted_db i carrier key payload subject d" "relay_once js tel rt cfg {} d1 b = (Inr k, d2, b2)"
  shows "stored b2 = stored b @ [\<lparr>sm_id = ''outbox-'' @ int_str (outbox_seq d + 1), sm_subject = subject,
      sm_data = json_dumps (submit_message i payload carrier)\<rparr>]"
    "history_inv d2" "find_job i d2 = Some (submitted_row i key payload (db_now d))"
proof -
  let ?row = "\<lparr>ob_id = outbox_seq d + 1, ob_job = i, ob_subject = subject, ob_payload = submit_message i payload carrier,
       ob_created = db_now d, ob_published = None\<rparr>"
  have sub: "submit_job i carrier key payload subject d = (Inr (i, True), d1)"
    using assms(2,3) by (simp add: submit_job_def transaction_def Let_def assms(9) submitted_db_def submitted_row_def)
  then have inv1: "history_inv d1" using history_inv_submit [OF assms(1), of i carrier key payload subject] by simp
  then have ids: "ids_ok ob_id (outbox d1) (outbox_seq d1)" by (simp add: history_inv_def db_inv_def)
  have "unpublished d1 = [?row]" using assms(4) by (simp add: unpublished_def assms(9) submitted_outbox)
  then have batch: "relay_batch (relay_batch_size cfg) {} d1 = [?row]"
    using relay_batch_ids [OF ids] assms(5) by simp
  have "0 \<le> relay_batch_size cfg" using assms(5) by simp
  from this assms(10) batch [symmetric]
  have "relay_rows js tel rt [?row] b = (Inr (), b2) \<and> d2 = mark_published (map ob_id [?row]) d1"
  proof (cases rule: relay_once_rows)
    case (1 e)
    from 1(2) show ?thesis by simp
  next
    case 2
    from 2(1,3) show ?thesis by (rule conjI)
  qed
  then have eff: "relay_rows js tel rt [?row] b = (Inr (), b2)" "d2 = mark_published [outbox_seq d + 1] d1" by simp_all
  have "stored b2 = stored b @ map row_msg [?row]"
    using assms(8) by (intro js_stores.relay_rows_fresh [OF assms(7,6) eff(1)]) (simp_all add: relay_msg_id_def)
  then show "stored b2 = stored b @ [\<lparr>sm_id = ''outbox-'' @ int_str (outbox_seq d + 1), sm_subject = subject,
      sm_data = json_dumps (submit_message i payload carrier)\<rparr>]" by (simp add: row_msg_def relay_msg_id_def)
  show "history_inv d2" using history_inv_step [OF db_step.publishing inv1] by (simp add: eff(2))
  show "find_job i d2 = Some (submitted_row i key payload (db_now d))"
    using fresh_job_row [OF assms(2)] by (simp add: eff(2) assms(9))
qed

section \<open>Poison\<close>

text \<open>The advisory the broker emits when the deliveries of a message of the work stream are exhausted.\<close>

definition advisory_text :: "settings \<Rightarrow> int \<Rightarrow> int \<Rightarrow> json_text" where
  "advisory_text cfg sq n = json_dumps (JObj [(''type'', JStr ADVISORY_TYPE), (''stream'', JStr (stream_name cfg)),
     (''consumer'', JStr (consumer_durable cfg)), (''stream_seq'', JInt sq), (''deliveries'', JInt n)])"

definition work_advisory :: "settings \<Rightarrow> int \<Rightarrow> int \<Rightarrow> advisory" where
  "work_advisory cfg sq n = \<lparr>adv_stream = stream_name cfg, adv_consumer = consumer_durable cfg, adv_stream_seq = sq, adv_deliveries = n\<rparr>"

lemma work_advisory_sel [simp]: "adv_stream_seq (work_advisory cfg sq n) = sq" "adv_deliveries (work_advisory cfg sq n) = n"
  by (simp_all add: work_advisory_def)

lemma parse_advisory_text [simp]: "parse_advisory rt (advisory_text cfg sq n) = Inr (Some (work_advisory cfg sq n))"
  by (simp add: advisory_text_def work_advisory_def parse_advisory_def parse_fields_def dict_get_def dict_item_def)

lemma poison_refused:
  assumes "py_truthy (dict_get_none p ''poison'')"
  shows "handle kv rt sleep cfg wid i (JObj p) k delivery w = (Inr (), msg_act (Nak (1 / 2)) w)"
  using assms by (simp add: handle_def)

lemma status_of_row:
  assumes "find_job i d = Some row"
  shows "\<exists>kvs. api_status rt others (uuid_str i) (a\<lparr>app_db := d\<rparr>) = Inr (JObj kvs) \<and> dict_get kvs ''state'' = Some (JStr (jr_state row))"
  using assms by (simp add: api_status_def get_job_def dict_get_def)

text \<open>The listener's work on an unfinished job's submission, down to the rows it writes.\<close>

lemma advisory_quarantined:
  assumes "history_inv (ls_db l)" "find_job i (ls_db l) = Some row" "jr_state row = job_state_value s" "s \<in> {S_QUEUED, S_RUNNING}" "int4_ok n"
    and "js_get_msg js (stream_name cfg) sq (ls_broker l) = (Inr (json_dumps (submit_message i p carrier)), b0)"
    and "js_publish js (subject_dlq cfg) (json_dumps (submit_message i p carrier)) (dlq_headers cfg (work_advisory cfg sq n)) b0 = (Inr (), b1)"
    and "js_delete_msg js (stream_name cfg) sq b1 = (Inr (), b2)"
  shows "quarantine js tel rt cfg (work_advisory cfg sq n) l = (Inr (), l\<lparr>ls_broker := b2, ls_quarantined := ls_quarantined l + 1,
    ls_db := write_event i E_DEAD_LETTERED n [(''stream_seq'', JInt sq), (''deliveries'', JInt n)] (jr_fence row) None S_DEAD_LETTER (ls_db l)\<rparr>)"
    and "int8_ok (jr_fence row)"
proof -
  let ?body = "[(''job_id'', JStr (uuid_str i)), (''payload'', JObj p), (''traceparent'', JObj (map (\<lambda>(k, v). (k, JStr v)) carrier))]"
  show fence: "int8_ok (jr_fence row)"
    using assms(1) find_job_inv [OF _ assms(2)] by (auto simp: history_inv_def fences_ok_def)
  have "is_ok (context_from tel rt (dict_get_none ?body ''traceparent''))"
    by (simp add: dict_get_none_def dict_get_def context_from_def)
  then show "quarantine js tel rt cfg (work_advisory cfg sq n) l = (Inr (), l\<lparr>ls_broker := b2, ls_quarantined := ls_quarantined l + 1,
    ls_db := write_event i E_DEAD_LETTERED n [(''stream_seq'', JInt sq), (''deliveries'', JInt n)] (jr_fence row) None S_DEAD_LETTER (ls_db l)\<rparr>)"
    using quarantine_open_job [OF assms(2-4) _ fence, of "work_advisory cfg sq n" js cfg "json_dumps (submit_message i p carrier)" b0 ?body tel rt b1 b2]
      assms(5-8) by (simp add: submit_message_def dict_get_def)
qed

text \<open>The database after an advisory does not depend on its acknowledgement.\<close>

lemma handle_advisory_db:
  "parse_advisory rt data = Inr (Some adv) \<Longrightarrow>
     ls_db (snd (handle_advisory js tel rt cfg data l)) = ls_db (snd (quarantine js tel rt cfg adv l))"
  by (simp add: handle_advisory_def Let_def split: prod.splits sum.splits)

end
