(* ===== verification/Overlap.thy ===== *)
theory Overlap
  imports Crash Platform
begin

text \<open>
  Executions that outlast the broker's patience. \<^verbatim>\<open>handle\<close> tells the broker nothing while a job executes and
  renews neither claim nor lease, so a job that runs longer than \<^verbatim>\<open>ack_wait_s\<close> is delivered again while it is
  still executing, at a time when its claim and lease have expired. This theory follows such a job:
  \<open>long_starts\<close> is the shared state after a number of deliveries have started it, each a time \<open>t\<close> after the
  one before and none of them finished.
\<close>

section \<open>Starts that overlap\<close>

definition wait_kv :: "(real \<Rightarrow> 's \<Rightarrow> 's) \<Rightarrow> real \<Rightarrow> 's shared \<Rightarrow> 's shared" where
  "wait_kv advance t sh = sh\<lparr>sh_kv := advance t (sh_kv sh)\<rparr>"

definition start_shared :: "'s kv_ops \<Rightarrow> settings \<Rightarrow> uuid \<Rightarrow> string \<Rightarrow> int \<Rightarrow> int \<Rightarrow> 's shared \<Rightarrow> 's shared" where
  "start_shared kv cfg i wid attempt n sh =
     sh\<lparr>sh_kv := leased_kv kv cfg i wid (wid @ '':'' @ int_str attempt) (sh_kv sh),
        sh_db := started_db i attempt (n + 1) (sh_db sh)\<rparr>"

fun long_starts ::
    "'s kv_ops \<Rightarrow> (real \<Rightarrow> 's \<Rightarrow> 's) \<Rightarrow> settings \<Rightarrow> uuid \<Rightarrow> real \<Rightarrow> (nat \<Rightarrow> string) \<Rightarrow> int \<Rightarrow> nat \<Rightarrow> 's shared \<Rightarrow> 's shared" where
  "long_starts kv advance cfg i t wid n 0 sh = sh"
| "long_starts kv advance cfg i t wid n (Suc k) sh =
     start_shared kv cfg i (wid k) (int k + 1) (n + int k) (wait_kv advance t (long_starts kv advance cfg i t wid n k sh))"

lemma start_shared_db [simp]: "sh_db (start_shared kv cfg i wid a n sh) = started_db i a (n + 1) (sh_db sh)"
  by (simp add: start_shared_def)

lemma wait_kv_sel [simp]: "sh_db (wait_kv advance t sh) = sh_db sh" "sh_kv (wait_kv advance t sh) = advance t (sh_kv sh)"
  by (simp_all add: wait_kv_def)

lemma started_shared_start: "started_shared kv cfg i wid (wid @ '':'' @ int_str a) a n w = start_shared kv cfg i wid a n (w_shared w)"
  by (simp add: started_shared_def start_shared_def world_db_def)

context key_value_store
begin

text \<open>A started delivery whose claim and lease have expired is ready to be started again.\<close>

lemma ready_start_again:
  fixes wid :: string
  assumes "ready ops inv held ctr cfg i attempt n row w"
    and "w_shared w' = wait_kv advance t (start_shared ops cfg i wid attempt n (w_shared w))"
    and "of_int (lease_ttl_s cfg) + 1 / 1000 \<le> t" "n + 1 < 2 ^ 63 - 1" "int4_ok (attempt + 1)"
  shows "ready ops inv held ctr cfg i (attempt + 1) (n + 1) (upd_row S_RUNNING attempt (n + 1) None (db_now (world_db w)) row) w'"
proof -
  let ?row = "upd_row S_RUNNING attempt (n + 1) None (db_now (world_db w)) row"
  have rdy: "history_inv (world_db w)" "find_job i (world_db w) = Some row" "jr_fence row \<le> n + 1" "0 \<le> n" "0 < lease_ttl_s cfg" "0 < exec_guard_ttl_s cfg"
    using assms(1) by (simp_all add: ready_def)
  have db: "world_db w' = started_db i attempt (n + 1) (world_db w)" using assms(2) by (simp add: world_db_def)
  have "find_job i (world_db w') = Some ?row" unfolding db started_db_def by (rule find_job_written [OF rdy(2,3)])
  moreover have "history_inv (world_db w')"
    using history_inv_record [OF rdy(1), of E_STARTED i attempt None "Some (n + 1)" None] ready_start [OF assms(1)] by (simp add: db)
  moreover note leftover_gone [OF leftover_early(5) [OF assms(1), of wid "wid @ '':'' @ int_str attempt"] assms(3)]
  ultimately show ?thesis
    using rdy assms(4,5) by (simp add: ready_def assms(2) start_shared_def)
qed

lemma ready_first:
  assumes "ready ops inv held ctr cfg i attempt n row w" "w_shared w' = wait_kv advance t (w_shared w)" "0 \<le> t"
  shows "ready ops inv held ctr cfg i attempt n row w'"
  using assms by (simp add: ready_def world_db_def held_advance ctr_advance)

text \<open>However often the job has been started, its next delivery finds it ready.\<close>

lemma long_starts_ready:
  assumes "ready ops inv held ctr cfg i 1 n row w" "of_int (lease_ttl_s cfg) + 1 / 1000 \<le> t"
    "n + int k < 2 ^ 63 - 1" "int k + 1 < 2 ^ 31"
    "w_shared w' = wait_kv advance t (long_starts ops advance cfg i t wid n k (w_shared w))"
  shows "\<exists>row'. ready ops inv held ctr cfg i (int k + 1) (n + int k) row' w'"
  using assms(3-5)
proof (induction k arbitrary: w')
  case 0
  have "0 \<le> t" using assms(1,2) by (simp add: ready_def)
  with ready_first [OF assms(1)] 0 show ?case by auto
next
  case (Suc k)
  let ?w = "w\<lparr>w_shared := wait_kv advance t (long_starts ops advance cfg i t wid n k (w_shared w))\<rparr>"
  obtain row' where "ready ops inv held ctr cfg i (int k + 1) (n + int k) row' ?w" using Suc.IH [of ?w] Suc.prems by auto
  from ready_start_again [OF this _ assms(2), of w' "wid k"] Suc.prems show ?case
    by (auto simp: int4_ok_def ac_simps)
qed

text \<open>The log of such a job has a start for every delivery and nothing else.\<close>

lemma long_starts_log:
  assumes "ready ops inv held ctr cfg i 1 n row w" "of_int (lease_ttl_s cfg) + 1 / 1000 \<le> t"
    "n + int k \<le> 2 ^ 63 - 1" "int k + 1 \<le> 2 ^ 31" "replay_events i (world_db w) = Inr evs"
  shows "\<exists>es. replay_events i (sh_db (long_starts ops advance cfg i t wid n k (w_shared w))) = Inr (evs @ es) \<and>
    map ev_type es = replicate k E_STARTED"
  using assms(3,4)
proof (induction k)
  case 0
  then show ?case using assms(5) by (simp add: world_db_def)
next
  case (Suc k)
  let ?sh = "long_starts ops advance cfg i t wid n k (w_shared w)"
  let ?w = "w\<lparr>w_shared := wait_kv advance t ?sh\<rparr>"
  obtain row' where "ready ops inv held ctr cfg i (int k + 1) (n + int k) row' ?w"
    using long_starts_ready [OF assms(1,2), of k ?w wid] Suc.prems by auto
  then have "ids_ok er_id (job_events (sh_db ?sh)) (events_seq (sh_db ?sh))"
    by (simp add: ready_def history_inv_def db_inv_def world_db_def)
  moreover obtain es where "replay_events i (sh_db ?sh) = Inr (evs @ es)" "map ev_type es = replicate k E_STARTED"
    using Suc by auto
  ultimately show ?case
    by (auto simp: started_db_def replay_events_write replicate_append_same intro!: exI [of _ "es @ _"])
qed

lemma long_starts_row:
  assumes "ready ops inv held ctr cfg i 1 n row w" "of_int (lease_ttl_s cfg) + 1 / 1000 \<le> t"
    "n + int k < 2 ^ 63 - 1" "int k + 1 < 2 ^ 31"
  obtains row' where "find_job i (sh_db (long_starts ops advance cfg i t wid n (Suc k) (w_shared w))) = Some row'"
    "jr_state row' = job_state_value S_RUNNING" "jr_fence row' = n + int k + 1"
proof -
  let ?w = "w\<lparr>w_shared := wait_kv advance t (long_starts ops advance cfg i t wid n k (w_shared w))\<rparr>"
  obtain row' where "ready ops inv held ctr cfg i (int k + 1) (n + int k) row' ?w"
    using long_starts_ready [OF assms(1,2,3,4), of ?w wid] by auto
  then have "find_job i (sh_db (long_starts ops advance cfg i t wid n k (w_shared w))) = Some row'" "jr_fence row' \<le> n + int k + 1"
    by (simp_all add: ready_def world_db_def)
  from find_job_written [OF this, of E_STARTED "int k + 1" "[]" None S_RUNNING] show ?thesis
    by (intro that) (auto simp: started_db_def add.assoc)
qed

lemma long_run_overtaken:
  assumes "ready ops inv held ctr cfg i 1 n row w0" "of_int (lease_ttl_s cfg) + 1 / 1000 \<le> t"
    "n + int k + 1 < 2 ^ 63 - 1" "int k + 2 < 2 ^ 31"
    "w_shared w = wait_kv advance t (long_starts ops advance cfg i t wid n k (w_shared w0))"
    "only_during (w_awaits w + 5) (\<lambda>sh. start_shared ops cfg i (wid (Suc k)) (int k + 2) (n + int k + 1) (wait_kv advance t sh)) w"
    "\<not> py_truthy (dict_get_none p ''poison'')" "exec_args rt p = Inr (dur, rate)"
    "execute dur rate (w_rng w (w_draws w)) sleep (w_now w) = (Inr result, finished)"
  shows "\<exists>w'. handle ops rt sleep cfg (wid k) i (JObj p) (int k + 1) (wid k @ '':'' @ int_str (int k + 1)) w = (Inr (), w') \<and>
    w_actions w' = w_actions w \<and> world_db w' = sh_db (long_starts ops advance cfg i t wid n (k + 2) (w_shared w0))"
proof -
  have bounds: "n + int k < 2 ^ 63 - 1" "int k + 1 < 2 ^ 31" "n + int (Suc k) < 2 ^ 63 - 1" "int (Suc k) + 1 < 2 ^ 31" using assms(3,4) by auto
  obtain row1 where rdy: "ready ops inv held ctr cfg i (int k + 1) (n + int k) row1 w"
    using long_starts_ready [OF assms(1,2) bounds(1,2) assms(5)] by blast
  let ?f = "\<lambda>sh. start_shared ops cfg i (wid (Suc k)) (int k + 2) (n + int k + 1) (wait_kv advance t sh)"
  let ?d = "sh_db (long_starts ops advance cfg i t wid n (k + 2) (w_shared w0))"
  have two: "?d = sh_db (?f (started_shared ops cfg i (wid k) (wid k @ '':'' @ int_str (int k + 1)) (int k + 1) (n + int k) w))"
    by (simp only: started_shared_start add_2_eq_Suc') (simp add: assms(5) ac_simps)
  obtain row2 where row2: "find_job i ?d = Some row2" "jr_state row2 = job_state_value S_RUNNING" "jr_fence row2 = n + int k + 2"
    by (rule long_starts_row [OF assms(1,2) bounds(3,4), of wid]) (simp del: long_starts.simps)
  have "int4_ok (int k + 1)" "int8_ok (n + int k + 1)" using rdy by (simp_all add: ready_def int8_ok_def)
  with row2 have "record_event i E_COMPLETED (int k + 1) None (Some (n + int k + 1)) (Some result) ?d =
      (Inl (StaleLeaseError (uuid_str i) (n + int k + 1) (jr_fence row2)), ?d)"
    by (intro record_event_stale [where s = S_RUNNING and st = S_SUCCEEDED]) (simp_all add: lifecycle_simps)
  from overtaken_success(1) [OF rdy assms(6-9) two this] show ?thesis by blast
qed

end

section \<open>The last delivery\<close>

text \<open>When the deliveries are exhausted the broker's advisory reaches the listener while the last one is
  still executing.\<close>

definition dead_lettering ::
    "'b jetstream \<Rightarrow> 'c otel \<Rightarrow> py_runtime \<Rightarrow> settings \<Rightarrow> int \<Rightarrow> int \<Rightarrow> 'b \<Rightarrow> 's shared \<Rightarrow> 's shared" where
  "dead_lettering js tel rt cfg sq deliveries b sh = sh\<lparr>sh_db := ls_db (snd (handle_advisory js tel rt cfg (advisory_text cfg sq deliveries)
     \<lparr>ls_db = sh_db sh, ls_broker = b, ls_quarantined = 0, ls_acked = 0\<rparr>))\<rparr>"

context key_value_store
begin

lemma long_run_dead_lettered:
  assumes "ready ops inv held ctr cfg i 1 n row w0" "of_int (lease_ttl_s cfg) + 1 / 1000 \<le> t"
    "n + int k + 1 < 2 ^ 63 - 1" "int k + 2 < 2 ^ 31" "replay_events i (world_db w0) = Inr evs"
    "w_shared w = wait_kv advance t (long_starts ops advance cfg i t wid n k (w_shared w0))"
    "only_during (w_awaits w + 5) (dead_lettering js tel rt cfg sq (int k + 1) b) w"
    "\<not> py_truthy (dict_get_none p ''poison'')" "exec_args rt p = Inr (dur, rate)"
    "execute dur rate (w_rng w (w_draws w)) sleep (w_now w) = (Inr result, finished)"
    "js_get_msg js (stream_name cfg) sq b = (Inr (json_dumps (submit_message i p carrier)), b0)"
    "js_publish js (subject_dlq cfg) (json_dumps (submit_message i p carrier)) (dlq_headers cfg (work_advisory cfg sq (int k + 1))) b0 = (Inr (), b1)"
    "js_delete_msg js (stream_name cfg) sq b1 = (Inr (), b2)"
  shows "\<exists>w' row' es. handle ops rt sleep cfg (wid k) i (JObj p) (int k + 1) (wid k @ '':'' @ int_str (int k + 1)) w = (Inr (), w') \<and>
    w_actions w' = w_actions w @ [Term] \<and> find_job i (world_db w') = Some row' \<and> jr_state row' = job_state_value S_DEAD_LETTER \<and>
    replay_events i (world_db w') = Inr (evs @ es) \<and> map ev_type es = replicate (k + 1) E_STARTED @ [E_DEAD_LETTERED]"
proof -
  have bounds: "n + int k < 2 ^ 63 - 1" "int k + 1 < 2 ^ 31" "n + int (Suc k) < 2 ^ 63 - 1" "int (Suc k) + 1 < 2 ^ 31" using assms(3,4) by auto
  obtain row1 where rdy: "ready ops inv held ctr cfg i (int k + 1) (n + int k) row1 w"
    using long_starts_ready [OF assms(1,2) bounds(1,2) assms(6)] by blast
  let ?sh = "started_shared ops cfg i (wid k) (wid k @ '':'' @ int_str (int k + 1)) (int k + 1) (n + int k) w"
  let ?d1 = "sh_db (long_starts ops advance cfg i t wid n (Suc k) (w_shared w0))"
  have sh: "sh_db ?sh = ?d1" by (simp only: started_shared_start) (simp add: assms(6))
  obtain row2 where row2: "find_job i ?d1 = Some row2" "jr_state row2 = job_state_value S_RUNNING"
    by (rule long_starts_row [OF assms(1,2) bounds(1,2), of wid])
  let ?w2 = "w\<lparr>w_shared := wait_kv advance t (long_starts ops advance cfg i t wid n (Suc k) (w_shared w0))\<rparr>"
  have "w_shared ?w2 = wait_kv advance t (long_starts ops advance cfg i t wid n (Suc k) (w_shared w0))" by simp
  from long_starts_ready [OF assms(1,2) bounds(3,4) this] have hist: "history_inv ?d1" by (auto simp: ready_def world_db_def)
  let ?d2 = "write_event i E_DEAD_LETTERED (int k + 1) [(''stream_seq'', JInt sq), (''deliveries'', JInt (int k + 1))] (jr_fence row2) None S_DEAD_LETTER ?d1"
  let ?l = "\<lparr>ls_db = ?d1, ls_broker = b, ls_quarantined = 0, ls_acked = 0\<rparr>"
  have "int4_ok (int k + 1)" using rdy by (simp add: ready_def)
  then have d2: "sh_db (dead_lettering js tel rt cfg sq (int k + 1) b ?sh) = ?d2"
    using advisory_quarantined(1) [of ?l i row2 S_RUNNING "int k + 1" js cfg sq p carrier b0 b1 b2 tel rt] hist row2 assms(11-13)
    unfolding dead_lettering_def sh by (simp add: handle_advisory_db [OF parse_advisory_text] del: long_starts.simps)
  let ?row3 = "upd_row S_DEAD_LETTER (int k + 1) (jr_fence row2) None (db_now ?d1) row2"
  have row3: "find_job i ?d2 = Some ?row3" by (rule find_job_written [OF row2(1) order_refl])
  have "record_event i E_COMPLETED (int k + 1) None (Some (n + int k + 1)) (Some result) ?d2 =
      (Inl (IllegalTransition (Some S_DEAD_LETTER) E_COMPLETED), ?d2)"
    by (rule record_event_illegal [OF row3]) (auto simp: lifecycle_simps upd_row_def)
  from overtaken_success(2) [OF rdy assms(7-10) d2 [symmetric] this] obtain w' where
      w': "handle ops rt sleep cfg (wid k) i (JObj p) (int k + 1) (wid k @ '':'' @ int_str (int k + 1)) w = (Inr (), w')"
      "w_actions w' = w_actions w @ [Term]" "world_db w' = ?d2" by blast
  obtain es where es: "replay_events i ?d1 = Inr (evs @ es)" "map ev_type es = replicate (Suc k) E_STARTED"
    using long_starts_log [OF assms(1,2) less_imp_le [OF bounds(3)] less_imp_le [OF bounds(4)] assms(5), of wid] by blast
  have "ids_ok er_id (job_events ?d1) (events_seq ?d1)" using hist by (simp add: history_inv_def db_inv_def del: long_starts.simps)
  note log = replay_events_write [OF this]
  have "\<exists>e. replay_events i ?d2 = Inr (evs @ es @ [e]) \<and> ev_type e = E_DEAD_LETTERED"
    by (simp add: log es(1) del: long_starts.simps)
  then obtain e where "replay_events i ?d2 = Inr (evs @ es @ [e])" "ev_type e = E_DEAD_LETTERED" by blast
  with w' row3 es(2) show ?thesis
    by (intro exI [of _ w'] exI [of _ ?row3] exI [of _ "es @ [e]"]) (simp del: long_starts.simps)
qed

end

section \<open>Properties\<close>

text \<open>Nothing keeps a long execution alive: if a job executes longer than the broker waits, each of its
  deliveries, after any number \<open>k\<close> of earlier ones, is overtaken by the next one, which claims and starts the
  job although the earlier execution is still running; the earlier one, when it finally succeeds, is
  refused as stale, settles nothing, and leaves the job running with a log that has only starts.\<close>

theorem long_job_is_overtaken_by_its_redelivery:
  assumes "key_value_store kv ok now held ctr deadline advance"
    and "ready kv ok held ctr cfg i 1 n row w0" and "of_int (lease_ttl_s cfg) + 1 / 1000 \<le> t"
    and "n + int k + 1 < 2 ^ 63 - 1" and "int k + 2 < 2 ^ 31" and "replay_events i (world_db w0) = Inr evs"
    and "w_shared w = wait_kv advance t (long_starts kv advance cfg i t wid n k (w_shared w0))"
    and "only_during (w_awaits w + 5) (\<lambda>sh. start_shared kv cfg i (wid (Suc k)) (int k + 2) (n + int k + 1) (wait_kv advance t sh)) w"
    and "\<not> py_truthy (dict_get_none p ''poison'')" and "exec_args rt p = Inr (dur, rate)"
    and "execute dur rate (w_rng w (w_draws w)) sleep (w_now w) = (Inr result, finished)"
  shows "\<exists>w' row' es. handle kv rt sleep cfg (wid k) i (JObj p) (int k + 1) (wid k @ '':'' @ int_str (int k + 1)) w = (Inr (), w') \<and>
    w_actions w' = w_actions w \<and> find_job i (world_db w') = Some row' \<and> jr_state row' = job_state_value S_RUNNING \<and>
    jr_fence row' = n + int k + 2 \<and> replay_events i (world_db w') = Inr (evs @ es) \<and> map ev_type es = replicate (k + 2) E_STARTED"
proof -
  have bounds: "n + int (Suc k) < 2 ^ 63 - 1" "int (Suc k) + 1 < 2 ^ 31" using assms(4,5) by auto
  let ?d = "sh_db (long_starts kv advance cfg i t wid n (Suc (Suc k)) (w_shared w0))"
  obtain w' where w': "handle kv rt sleep cfg (wid k) i (JObj p) (int k + 1) (wid k @ '':'' @ int_str (int k + 1)) w = (Inr (), w')"
      "w_actions w' = w_actions w" "world_db w' = ?d"
    using key_value_store.long_run_overtaken [OF assms(1-5,7-11)] by (auto simp del: long_starts.simps)
  obtain row' where row': "find_job i ?d = Some row'" "jr_state row' = job_state_value S_RUNNING" "jr_fence row' = n + int k + 2"
    by (rule key_value_store.long_starts_row [OF assms(1-3) bounds, of wid]) (simp del: long_starts.simps)
  obtain es where "replay_events i ?d = Inr (evs @ es)" "map ev_type es = replicate (k + 2) E_STARTED"
    using key_value_store.long_starts_log [OF assms(1-3) _ _ assms(6), of "Suc (Suc k)" wid] assms(4,5) by (auto simp del: long_starts.simps)
  with w' row' show ?thesis by (auto simp del: long_starts.simps)
qed

text \<open>A job of 45 seconds under the default settings, delivered again after \<^verbatim>\<open>ack_wait_s\<close>.\<close>

definition long_payload :: pydict where
  "long_payload = [(''duration_ms'', JInt 45000)]"

definition nth_worker :: "nat \<Rightarrow> string" where
  "nth_worker k = ''w'' @ int_str (int k)"

definition long_world :: "(in_memory_kv shared \<Rightarrow> in_memory_kv shared) \<Rightarrow> in_memory_kv world" where
  "long_world f = (demo_contended f)\<lparr>w_shared := wait_kv mem_advance (of_int (ack_wait_s Settings))
     (long_starts mem_kv mem_advance Settings 1 (of_int (ack_wait_s Settings)) nth_worker 0 0 (w_shared demo_world))\<rparr>"

lemma long_world_simps [simp]:
  "w_shared (long_world f) = wait_kv mem_advance (of_int (ack_wait_s Settings))
     (long_starts mem_kv mem_advance Settings 1 (of_int (ack_wait_s Settings)) nth_worker 0 0 (w_shared demo_world))"
  "only_during (w_awaits (long_world f) + 5) f (long_world f)" "w_actions (long_world f) = []"
  "w_rng (long_world f) k = 1 / 2" "w_now (long_world f) = 0"
  using demo_contended_simps(3) [of f] by (simp_all add: long_world_def only_during_def)

lemma long_demo:
  "of_int (lease_ttl_s Settings) + 1 / 1000 \<le> (of_int (ack_wait_s Settings) :: real)"
  "(0::int) + int 0 + 1 < 2 ^ 63 - 1" "int 0 + 2 < (2::int) ^ 31"
  "\<not> py_truthy (dict_get_none long_payload ''poison'')" "exec_args demo_runtime long_payload = Inr (45000, Fin 0)"
  by (simp_all add: long_payload_def dict_get_none_def dict_get_def exec_args_def dict_item_def Settings_def)

lemma long_demo_execute:
  obtains result finished where
    "execute 45000 (Fin 0) (w_rng (long_world f) (w_draws (long_world f))) (\<lambda>d t. t + d) (w_now (long_world f)) = (Inr result, finished)"
  by (rule execute_runs [of 45000 "\<lambda>d t. t + d" 0 "Fin 0" "1 / 2"]) simp_all

lemma long_demo_log:
  obtains evs where "replay_events 1 (world_db demo_world) = Inr evs"
  using find_job_inv [OF demo_db_inv demo_db_row] by (auto simp: demo_world_rely submitted_row_def job_ok_def)

theorem long_job_is_overtaken_by_its_redelivery_witness:
  "\<exists>w' row'. handle mem_kv demo_runtime (\<lambda>d t. t + d) Settings (nth_worker 0) 1 (JObj long_payload) 1 (nth_worker 0 @ '':'' @ int_str 1)
      (long_world (\<lambda>sh. start_shared mem_kv Settings 1 (nth_worker 1) 2 1 (wait_kv mem_advance (of_int (ack_wait_s Settings)) sh))) = (Inr (), w') \<and>
     w_actions w' = [] \<and> find_job 1 (world_db w') = Some row' \<and> jr_state row' = ''running'' \<and> jr_fence row' = 2"
proof -
  let ?f = "\<lambda>sh. start_shared mem_kv Settings 1 (nth_worker (Suc 0)) (int 0 + 2) (0 + int 0 + 1) (wait_kv mem_advance (of_int (ack_wait_s Settings)) sh)"
  obtain evs where log: "replay_events 1 (world_db demo_world) = Inr evs" by (rule long_demo_log)
  obtain result finished where run: "execute 45000 (Fin 0) (w_rng (long_world ?f) (w_draws (long_world ?f))) (\<lambda>d t. t + d) (w_now (long_world ?f)) =
      (Inr result, finished)" by (rule long_demo_execute)
  from long_job_is_overtaken_by_its_redelivery [OF mem.key_value_store_axioms demo_ready long_demo(1-3) log long_world_simps(1,2) long_demo(4,5) run]
  show ?thesis by (auto simp del: long_starts.simps)
qed

text \<open>C17: A job that outlasts the broker's patience ends in quarantine: after \<open>k\<close> earlier starts the broker's
  last delivery starts the job, the advisory about the exhausted deliveries arrives while it executes,
  and the listener dead-letters the running job. The execution then succeeds, its \<open>COMPLETED\<close> is refused
  as illegal and its message terminated: the log has \<open>k + 1\<close> starts and no completion, although every
  execution was or would have been successful.\<close>

theorem long_job_ends_dead_lettered:
  assumes "key_value_store kv ok now held ctr deadline advance"
    and "ready kv ok held ctr cfg i 1 n row w0" and "of_int (lease_ttl_s cfg) + 1 / 1000 \<le> t"
    and "n + int k + 1 < 2 ^ 63 - 1" and "int k + 2 < 2 ^ 31" and "replay_events i (world_db w0) = Inr evs"
    and "w_shared w = wait_kv advance t (long_starts kv advance cfg i t wid n k (w_shared w0))"
    and "only_during (w_awaits w + 5) (dead_lettering js tel rt cfg sq (int k + 1) b) w"
    and "\<not> py_truthy (dict_get_none p ''poison'')" and "exec_args rt p = Inr (dur, rate)"
    and "execute dur rate (w_rng w (w_draws w)) sleep (w_now w) = (Inr result, finished)"
    and "js_get_msg js (stream_name cfg) sq b = (Inr (json_dumps (submit_message i p carrier)), b0)"
    and "js_publish js (subject_dlq cfg) (json_dumps (submit_message i p carrier)) (dlq_headers cfg (work_advisory cfg sq (int k + 1))) b0 = (Inr (), b1)"
    and "js_delete_msg js (stream_name cfg) sq b1 = (Inr (), b2)"
  shows "\<exists>w' row' es. handle kv rt sleep cfg (wid k) i (JObj p) (int k + 1) (wid k @ '':'' @ int_str (int k + 1)) w = (Inr (), w') \<and>
    w_actions w' = w_actions w @ [Term] \<and> find_job i (world_db w') = Some row' \<and> jr_state row' = job_state_value S_DEAD_LETTER \<and>
    replay_events i (world_db w') = Inr (evs @ es) \<and> map ev_type es = replicate (k + 1) E_STARTED @ [E_DEAD_LETTERED]"
  by (rule key_value_store.long_run_dead_lettered [OF assms])

theorem long_job_ends_dead_lettered_witness:
  "\<exists>w' row'. handle mem_kv demo_runtime (\<lambda>d t. t + d) Settings (nth_worker 0) 1 (JObj long_payload) 1 (nth_worker 0 @ '':'' @ int_str 1)
      (long_world (dead_lettering ref_js demo_quiet_otel demo_runtime Settings 1 1 (ref_holding (json_dumps (submit_message 1 long_payload []))))) = (Inr (), w') \<and>
     w_actions w' = [Term] \<and> find_job 1 (world_db w') = Some row' \<and> jr_state row' = ''dead_letter''"
proof -
  let ?raw = "json_dumps (submit_message 1 long_payload [])" and ?b = "ref_holding (json_dumps (submit_message 1 long_payload []))"
  let ?f = "dead_lettering ref_js demo_quiet_otel demo_runtime Settings 1 (int 0 + 1) ?b :: in_memory_kv shared \<Rightarrow> in_memory_kv shared"
  obtain evs where log: "replay_events 1 (world_db demo_world) = Inr evs" by (rule long_demo_log)
  obtain result finished where run: "execute 45000 (Fin 0) (w_rng (long_world ?f) (w_draws (long_world ?f))) (\<lambda>d t. t + d) (w_now (long_world ?f)) =
      (Inr result, finished)" by (rule long_demo_execute)
  obtain b1 b2 where js: "js_get_msg ref_js (stream_name Settings) 1 ?b = (Inr ?raw, ?b)"
      "js_publish ref_js (subject_dlq Settings) ?raw (dlq_headers Settings (work_advisory Settings 1 (int 0 + 1))) ?b = (Inr (), b1)"
      "js_delete_msg ref_js (stream_name Settings) 1 b1 = (Inr (), b2)"
    by (rule ref_holding_services)
  from long_job_ends_dead_lettered [OF mem.key_value_store_axioms demo_ready long_demo(1-3) log long_world_simps(1,2) long_demo(4,5) run js]
  show ?thesis by (auto simp del: long_starts.simps)
qed

end
