(* ===== verification/Board.thy ===== *)
theory Board
  imports History
begin

text \<open>
  What the tables promise, without the tables. A \<open>board\<close> shows for every job its idempotency key, its
  state and the newest accepted fencing token; it changes by posting a job under an unused key and by
  moving a job along the lifecycle with a token that is not older. The transactions of the repository
  and the relay implement this machine exactly: each of them is one of its moves or changes nothing
  on the board, and each move is some transaction.
\<close>

section \<open>The abstract machine\<close>

type_synonym board = "uuid \<rightharpoonup> string \<times> job_state \<times> int"

inductive board_step :: "board \<Rightarrow> board \<Rightarrow> bool" where
  post: "m i = None \<Longrightarrow> (\<forall>j s t. m j \<noteq> Some (key, s, t)) \<Longrightarrow> board_step m (m(i \<mapsto> (key, S_QUEUED, 0)))"
| move: "m i = Some (key, s, t) \<Longrightarrow> ev \<in> {E_STARTED, E_COMPLETED, E_FAILED, E_REQUEUED, E_DEAD_LETTERED} \<Longrightarrow>
    lifecycle (Some s) ev s' \<Longrightarrow> t \<le> t' \<Longrightarrow> int8_ok t' \<Longrightarrow> board_step m (m(i \<mapsto> (key, s', t')))"
| reopen: "m i = Some (key, S_DEAD_LETTER, t) \<Longrightarrow> board_step m (m(i \<mapsto> (key, S_QUEUED, t)))"

abbreviation board_steps :: "board \<Rightarrow> board \<Rightarrow> bool" where
  "board_steps \<equiv> board_step\<^sup>*\<^sup>*"

section \<open>The board a database shows\<close>

definition row_view :: "job_row \<Rightarrow> string \<times> job_state \<times> int" where
  "row_view r = (jr_key r, (case job_state_of (jr_state r) of Inr s \<Rightarrow> s | Inl _ \<Rightarrow> S_SUBMITTED), jr_fence r)"

definition board :: "db \<Rightarrow> board" where
  "board d = (\<lambda>i. map_option row_view (find_job i d))"

lemma row_view_state: "jr_state r = job_state_value s \<Longrightarrow> row_view r = (jr_key r, s, jr_fence r)"
  by (simp add: row_view_def)

lemma row_view_submitted: "jr_id (submitted_row i key payload t) = i" "row_view (submitted_row i key payload t) = (key, S_QUEUED, 0)"
  using row_view_state [of "submitted_row i key payload t" S_QUEUED] by (simp_all add: submitted_row_def)

lemma row_view_upd: "row_view (upd_row st a tok res t r) = (jr_key r, st, tok)"
  by (simp add: row_view_def upd_row_def)

lemma board_same: "jobs d' = jobs d \<Longrightarrow> board d' = board d"
  by (simp add: board_def find_job_def)

lemma board_outbox [simp]: "board (insert_outbox i subject msg d) = board d"
  by (rule board_same) (simp add: insert_outbox_def)

lemma board_write:
  assumes "find_job i d = Some row" "jr_fence row \<le> tok"
  shows "board (write_event i ev a dt tok res st d) = (board d)(i \<mapsto> (jr_key row, st, tok))"
proof
  fix j
  show "board (write_event i ev a dt tok res st d) j = ((board d)(i \<mapsto> (jr_key row, st, tok))) j"
    using assms by (cases "j = i") (simp_all add: board_def find_job_written find_job_other row_view_upd)
qed

lemma board_submit:
  assumes "find_job i d = None"
  shows "board (submitted_db i carrier key payload subject d) = (board d)(i \<mapsto> (key, S_QUEUED, 0))"
proof
  fix j
  show "board (submitted_db i carrier key payload subject d) j = ((board d)(i \<mapsto> (key, S_QUEUED, 0))) j"
    using assms by (cases "find_job j d"; cases "j = i") (simp_all add: board_def find_job_def find_append row_view_submitted)
qed

lemma board_key_unused:
  assumes "db_inv d"
  shows "find (\<lambda>r. jr_key r = key) (jobs d) = None \<longleftrightarrow> (\<forall>j s t. board d j \<noteq> Some (key, s, t))"
proof
  assume "find (\<lambda>r. jr_key r = key) (jobs d) = None"
  then show "\<forall>j s t. board d j \<noteq> Some (key, s, t)"
    using find_job_inv [OF assms] by (fastforce simp: board_def row_view_def find_None_iff)
next
  assume none: "\<forall>j s t. board d j \<noteq> Some (key, s, t)"
  have "jr_key r \<noteq> key" if "r \<in> set (jobs d)" for r
  proof -
    have "find_job (jr_id r) d = Some r" using find_key_distinct [OF _ that, of jr_id] assms by (simp add: find_job_def db_inv_def)
    with none show ?thesis by (auto simp: board_def row_view_def)
  qed
  then show "find (\<lambda>r. jr_key r = key) (jobs d) = None" by (auto simp: find_None_iff)
qed

section \<open>Simulation in both directions\<close>

lemma step_is_board_step:
  assumes "db_step d d'" "history_inv d"
  shows "board d' = board d \<or> board_step (board d) (board d')"
  using assms
proof (cases rule: db_step.cases)
  case (submitting i carrier key payload subject)
  then obtain out where "submit_job i carrier key payload subject d = (out, d')" by (metis prod.collapse)
  then show ?thesis
  proof (cases rule: submit_job_cases)
    case fresh
    have "db_inv d" using assms(2) by (simp add: history_inv_def)
    with fresh have "\<forall>j s t. board d j \<noteq> Some (key, s, t)" "board d i = None"
      using board_key_unused [of d key] by (simp_all add: board_def)
    then show ?thesis using board_step.post [of "board d" i key] fresh by (simp add: board_submit)
  qed simp_all
next
  case (recording ev i a dt ft res)
  then obtain out where "record_event i ev a dt ft res d = (out, d')" by (metis prod.collapse)
  then show ?thesis
  proof (cases rule: record_event_cases)
    case (ok row s st)
    have "board d i = Some (jr_key row, s, jr_fence row)" using ok(1,2) by (simp add: board_def row_view_state)
    from board_step.move [of "board d", OF this recording(2) ok(3,4,6)] show ?thesis using ok board_write [OF ok(1,4)] by simp
  qed simp
next
  case (replaying i subject)
  then obtain out where "replay_job i subject d = (out, d')" by (metis prod.collapse)
  then show ?thesis
  proof (cases rule: replay_job_cases)
    case (ok row s)
    from ok(3) have "s = S_DEAD_LETTER" by (auto simp: lifecycle_simps)
    with ok(1,2) have "board d i = Some (jr_key row, S_DEAD_LETTER, jr_fence row)" by (simp add: board_def row_view_state)
    from board_step.reopen [of "board d", OF this] show ?thesis
      using board_write [OF ok(1) order_refl] ok(6) by simp
  qed simp_all
qed (auto intro: board_same)

lemma board_entry:
  assumes "history_inv d" "board d i = Some (key, s, t)"
  obtains row where "find_job i d = Some row" "jr_key row = key" "jr_state row = job_state_value s" "jr_fence row = t" "int8_ok t"
proof -
  obtain row where row: "find_job i d = Some row" "row_view row = (key, s, t)" using assms(2) by (auto simp: board_def)
  moreover obtain s' where "jr_state row = job_state_value s'" by (rule job_log [of d i row]) (use assms(1) row in \<open>simp_all add: history_inv_def\<close>)
  moreover have "int8_ok (jr_fence row)" using assms(1) find_job_inv [OF _ row(1)] by (auto simp: history_inv_def fences_ok_def)
  ultimately show ?thesis by (intro that) (auto simp: row_view_state)
qed

lemma board_step_is_step:
  assumes "board_step (board d) m" "history_inv d"
  shows "\<exists>d'. db_step d d' \<and> board d' = m"
  using assms(1)
proof (cases rule: board_step.cases)
  case (post i key)
  have "find_job i d = None" "find (\<lambda>r. jr_key r = key) (jobs d) = None"
    using post assms(2) by (simp_all add: board_def board_key_unused history_inv_def)
  then have "snd (submit_job i [] key [] [] d) = submitted_db i [] key [] [] d"
    by (simp add: submit_job_def transaction_def Let_def submitted_db_def submitted_row_def)
  then show ?thesis using db_step.submitting [of d i "[]" key "[]" "[]"] \<open>find_job i d = None\<close> post(1) by (auto simp: board_submit)
next
  case (move i key s t ev s' t')
  obtain row where row: "find_job i d = Some row" "jr_key row = key" "jr_state row = job_state_value s" "jr_fence row = t"
    using assms(2) move(2) by (rule board_entry)
  have "record_event i ev 1 None (Some t') None d = (Inr s', write_event i ev 1 [] t' None s' d)"
    using record_event_ok [OF row(1,3) move(4), of 1 "Some t'" None None] move(5,6) row(4) by (simp add: fence_of_def int4_ok_def)
  then show ?thesis
    using db_step.recording [OF move(3), of d i 1 None "Some t'" None] board_write [OF row(1)] row move(1,5) by auto
next
  case (reopen i key t)
  obtain row where row: "find_job i d = Some row" "jr_key row = key" "jr_state row = job_state_value S_DEAD_LETTER" "jr_fence row = t" "int8_ok t"
    using assms(2) reopen(2) by (rule board_entry)
  let ?d = "write_event i E_REPLAYED 0 [] t None S_QUEUED d"
  have "snd (replay_job i [] d) = insert_outbox i [] (JObj [(''job_id'', JStr (uuid_str i)), (''payload'', jr_payload row)]) ?d"
    using replay_dead_letter [OF row(1,3), of "[]"] row(4,5) by simp
  moreover have "board (insert_outbox i [] msg ?d) = m" for msg
    using board_write [OF row(1), of t] row reopen(1) by simp
  ultimately show ?thesis using db_step.replaying [of d i "[]"] by auto
qed

lemma steps_are_board_steps:
  assumes "db_steps d d'" "history_inv d"
  shows "board_steps (board d) (board d')"
  using assms
proof (induction rule: rtranclp_induct)
  case (step d1 d2)
  with step_is_board_step [OF step(2)] history_inv_steps [OF step(1)] show ?case
    by (metis rtranclp.rtrancl_into_rtrancl)
qed simp

section \<open>Properties\<close>

text \<open>C3: The tables implement the job board: in every reachable database, every transaction of any
  component either is one move of the abstract machine (a job posted under an unused key, a job moved
  along the lifecycle under a token that is not older, a dead-lettered job put back) or leaves the
  board as it was, every move of the machine is made by some transaction, and the board shown is one
  the machine reaches from the empty board.\<close>

theorem database_implements_the_job_board:
  assumes "reachable d"
  shows "(\<forall>d'. db_step d d' \<longrightarrow> board d' = board d \<or> board_step (board d) (board d')) \<and>
    (\<forall>m. board_step (board d) m \<longrightarrow> (\<exists>d'. db_step d d' \<and> board d' = m)) \<and> board_steps (\<lambda>_. None) (board d)"
proof -
  obtain t where t: "db_steps (empty_db t) d" using assms by blast
  have "board (empty_db t) = (\<lambda>_. None)" by (simp add: board_def find_job_def empty_db_def)
  then have "board_steps (\<lambda>_. None) (board d)" using steps_are_board_steps [OF t history_inv_empty] by simp
  then show ?thesis using step_is_board_step board_step_is_step history_inv_reachable [OF assms] by simp
qed

theorem database_implements_the_job_board_witness:
  "board demo_db = (\<lambda>_. None)(1 \<mapsto> (''key-1'', S_QUEUED, 0)) \<and>
   (\<exists>d'. db_step demo_db d' \<and> board d' = (board demo_db)(1 \<mapsto> (''key-1'', S_RUNNING, 7))) \<and> board_steps (\<lambda>_. None) (board demo_db)"
proof -
  have b: "board demo_db = (\<lambda>_. None)(1 \<mapsto> (''key-1'', S_QUEUED, 0))"
    by (auto simp: board_def find_job_def demo_db_jobs row_view_submitted fun_eq_iff)
  have "board_step (board demo_db) ((board demo_db)(1 \<mapsto> (''key-1'', S_RUNNING, 7)))"
    by (rule board_step.move [where ev = E_STARTED and s = S_QUEUED and t = 0]) (simp_all add: b lifecycle_simps int8_ok_def)
  with database_implements_the_job_board [OF demo_reachable] b show ?thesis by blast
qed

end
