(* ===== verification/Stores.thy ===== *)
theory Stores
  imports Delivery
begin

text \<open>
  The in-memory store stands for the production store in the program's tests. This theory shows that
  the worker cannot tell them apart: \<open>same_view\<close> relates the states of two stores that look the same
  under the keys the worker uses, the locale \<open>kv_twins\<close> states that two sets of commands keep such a
  relation and give the same answers, and everything the worker does keeps it too.
\<close>

section \<open>Stores that look the same\<close>

definition text_keys :: "string set" where
  "text_keys = (\<Union>i. {done_key (uuid_str i), claim_key (uuid_str i), lease_key (uuid_str i)})"

definition counter_keys :: "string set" where
  "counter_keys = range (\<lambda>i. token_key (uuid_str i))"

lemma worker_keys [simp]:
  "done_key (uuid_str i) \<in> text_keys" "claim_key (uuid_str i) \<in> text_keys" "lease_key (uuid_str i) \<in> text_keys"
  "token_key (uuid_str i) \<in> counter_keys"
  by (auto simp: text_keys_def counter_keys_def)

text \<open>The same clock, the same values with the same expiry under the text keys, and the same counters, none
  above \<open>cap\<close>.\<close>

definition same_view ::
    "('s \<Rightarrow> bool) \<Rightarrow> ('s \<Rightarrow> real) \<Rightarrow> ('s \<Rightarrow> string \<Rightarrow> (string \<times> real option) option) \<Rightarrow> ('s \<Rightarrow> string \<Rightarrow> int option) \<Rightarrow>
     ('t \<Rightarrow> bool) \<Rightarrow> ('t \<Rightarrow> real) \<Rightarrow> ('t \<Rightarrow> string \<Rightarrow> (string \<times> real option) option) \<Rightarrow> ('t \<Rightarrow> string \<Rightarrow> int option) \<Rightarrow>
     int \<Rightarrow> 's \<Rightarrow> 't \<Rightarrow> bool" where
  "same_view ok now held ctr ok' now' held' ctr' cap s s' \<longleftrightarrow> ok s \<and> ok' s' \<and> now' s' = now s \<and>
     (\<forall>k \<in> text_keys. held' s' k = held s k) \<and> (\<forall>k \<in> counter_keys. \<exists>n \<le> cap. ctr s k = Some n \<and> ctr' s' k = Some n)"

text \<open>Two sets of commands that keep a relation and answer alike.\<close>

locale kv_twins =
  fixes ops :: "'s kv_ops" and ops' :: "'t kv_ops" and R :: "int \<Rightarrow> 's \<Rightarrow> 't \<Rightarrow> bool"
  assumes twin_mono: "R cap s s' \<Longrightarrow> R (cap + 1) s s'"
    and twin_get: "R cap s s' \<Longrightarrow> k \<in> text_keys \<Longrightarrow>
      fst (kv_get ops' k s') = fst (kv_get ops k s) \<and> R cap (snd (kv_get ops k s)) (snd (kv_get ops' k s'))"
    and twin_set: "R cap s s' \<Longrightarrow> k \<in> text_keys \<Longrightarrow> 0 < ttl \<Longrightarrow>
      fst (kv_set_if_absent ops' k v (of_int ttl) s') = fst (kv_set_if_absent ops k v (of_int ttl) s) \<and>
      R cap (snd (kv_set_if_absent ops k v (of_int ttl) s)) (snd (kv_set_if_absent ops' k v (of_int ttl) s'))"
    and twin_incr: "R cap s s' \<Longrightarrow> k \<in> counter_keys \<Longrightarrow> cap < 2 ^ 63 - 1 \<Longrightarrow>
      fst (kv_incr ops' k s') = fst (kv_incr ops k s) \<and> R (cap + 1) (snd (kv_incr ops k s)) (snd (kv_incr ops' k s'))"
    and twin_cad: "R cap s s' \<Longrightarrow> k \<in> text_keys \<Longrightarrow>
      fst (kv_compare_and_delete ops' k v s') = fst (kv_compare_and_delete ops k v s) \<and>
      R cap (snd (kv_compare_and_delete ops k v s)) (snd (kv_compare_and_delete ops' k v s'))"
begin

lemma twin_claim:
  assumes "R cap s s'" "0 < ttl"
  shows "fst (try_claim ops' (of_int ttl) (uuid_str i) d s') = fst (try_claim ops (of_int ttl) (uuid_str i) d s) \<and>
    R cap (snd (try_claim ops (of_int ttl) (uuid_str i) d s)) (snd (try_claim ops' (of_int ttl) (uuid_str i) d s'))"
proof -
  note got = twin_get [OF assms(1) worker_keys(1), of i]
  from got twin_set [OF conjunct2 [OF got] worker_keys(2) assms(2), of i d] show ?thesis
    by (simp add: try_claim_def Let_def split_beta)
qed

lemma twin_done:
  assumes "R cap s s'" "0 < ttl"
  shows "R cap (mark_done ops (of_int ttl) (uuid_str i) d s) (mark_done ops' (of_int ttl) (uuid_str i) d s')"
  using twin_cad [OF conjunct2 [OF twin_set [OF assms(1) _ assms(2)]]] by (simp add: mark_done_def)

lemma twin_release_claim: "R cap s s' \<Longrightarrow> R cap (release_claim ops (uuid_str i) d s) (release_claim ops' (uuid_str i) d s')"
  by (simp add: release_claim_def twin_cad)

lemma twin_acquire:
  assumes "R cap s s'" "0 < ttl" "cap < 2 ^ 63 - 1"
  shows "fst (acquire ops' (of_int ttl) (uuid_str i) h s') = fst (acquire ops (of_int ttl) (uuid_str i) h s) \<and>
    R (cap + 1) (snd (acquire ops (of_int ttl) (uuid_str i) h s)) (snd (acquire ops' (of_int ttl) (uuid_str i) h s'))"
proof -
  note drawn = twin_incr [OF assms(1) worker_keys(4) assms(3), of i]
  from drawn twin_set [OF conjunct2 [OF drawn] worker_keys(3) assms(2), of i] show ?thesis
    by (simp add: acquire_def Let_def split_beta)
qed

lemma twin_release: "R cap s s' \<Longrightarrow> lease_resource l = uuid_str i \<Longrightarrow> R cap (snd (release ops l s)) (snd (release ops' l s'))"
  by (simp add: release_def twin_cad)

end

lemma text_not_counter: "k \<in> text_keys \<Longrightarrow> k' \<in> counter_keys \<Longrightarrow> k \<noteq> k'"
proof -
  have "lease_key (uuid_str i) \<noteq> token_key (uuid_str j)" for i j
  proof
    assume "lease_key (uuid_str i) = token_key (uuid_str j)"
    then have "CHR '':'' \<in> set (uuid_str i)" by (simp add: lease_key_def token_key_def)
    then show False using uuid_str_avoid [of "CHR '':''" i] by simp
  qed
  moreover have "done_key r \<noteq> token_key q" "claim_key r \<noteq> token_key q" for r q
    by (simp_all add: done_key_def claim_key_def token_key_def)
  ultimately have "\<forall>x \<in> text_keys. \<forall>y \<in> counter_keys. x \<noteq> y" by (simp add: text_keys_def counter_keys_def)
  then show "k \<in> text_keys \<Longrightarrow> k' \<in> counter_keys \<Longrightarrow> k \<noteq> k'" by blast
qed

text \<open>Two stores that keep the promise and give keys of a whole number of seconds the same deadline.\<close>

locale store_pair = one: key_value_store ops inv now held ctr deadline advance +
    two: key_value_store ops' inv' now' held' ctr' deadline' advance'
  for ops :: "'s kv_ops" and inv now held ctr deadline advance
    and ops' :: "'t kv_ops" and inv' now' held' ctr' deadline' advance' +
  assumes same_deadline: "now' s' = now s \<Longrightarrow> 0 < ttl \<Longrightarrow> deadline' s' (of_int ttl) = deadline s (of_int ttl)"

sublocale store_pair \<subseteq> twins: kv_twins ops ops' "same_view inv now held ctr inv' now' held' ctr'"
proof (unfold_locales, goal_cases)
  case (1 cap s s')
  then show ?case by (fastforce simp: same_view_def)
next
  case (2 cap s s' k)
  then show ?case by (simp add: same_view_def)
next
  case (3 cap s s' k ttl v)
  then have "\<forall>c \<in> counter_keys. c \<noteq> k" using text_not_counter by blast
  with 3 show ?case using same_deadline [of s' s ttl] by (simp add: same_view_def one.held_set two.held_set one.ctr_set two.ctr_set)
next
  case (4 cap s s' k)
  then obtain n where n: "n \<le> cap" "ctr s k = Some n" "ctr' s' k = Some n" by (auto simp: same_view_def)
  have "\<exists>n \<le> cap + 1. ctr (snd (kv_incr ops k s)) c = Some n \<and> ctr' (snd (kv_incr ops' k s')) c = Some n" if "c \<in> counter_keys" for c
    using 4 that n by (cases "c = k") (force simp: same_view_def one.ctr_incr two.ctr_incr one.ctr_incr_other two.ctr_incr_other)+
  with 4 n show ?case using text_not_counter
    by (auto simp: same_view_def one.incr_result two.incr_result one.held_incr two.held_incr)
next
  case (5 cap s s' k v)
  then have "\<forall>c \<in> counter_keys. c \<noteq> k" using text_not_counter by blast
  with 5 show ?case by (simp add: same_view_def one.held_cad two.held_cad one.ctr_cad two.ctr_cad)
qed

section \<open>Worlds that look the same\<close>

text \<open>Two worlds that differ only in the store: the same database, the same draws, messages and counters,
  and others that keep the stores looking the same whatever they do.\<close>

definition twin_shared :: "(int \<Rightarrow> 's \<Rightarrow> 't \<Rightarrow> bool) \<Rightarrow> int \<Rightarrow> 's shared \<Rightarrow> 't shared \<Rightarrow> bool" where
  "twin_shared R cap sh sh' \<longleftrightarrow> R cap (sh_kv sh) (sh_kv sh') \<and> sh_db sh' = sh_db sh"

definition outcome :: "'s world \<Rightarrow> msg_action list \<times> nat \<times> nat \<times> nat \<times> int list \<times> bool \<times> int option \<times> real" where
  "outcome w = (w_actions w, w_jobs_completed w, w_jobs_requeued w, w_jobs_failed w, w_durations w, w_shutdown w, w_died w, w_now w)"

definition twin_worlds :: "(int \<Rightarrow> 's \<Rightarrow> 't \<Rightarrow> bool) \<Rightarrow> int \<Rightarrow> 's world \<Rightarrow> 't world \<Rightarrow> bool" where
  "twin_worlds R cap w w' \<longleftrightarrow> twin_shared R cap (w_shared w) (w_shared w') \<and>
     (\<forall>cap n sh sh'. twin_shared R cap sh sh' \<longrightarrow> twin_shared R cap (w_others w n sh) (w_others w' n sh')) \<and>
     outcome w' = outcome w \<and> w_awaits w' = w_awaits w \<and> w_rng w' = w_rng w \<and> w_draws w' = w_draws w"

lemma twin_outcome:
  "twin_worlds R cap w w' \<Longrightarrow> outcome w' = outcome w \<and> world_db w' = world_db w"
  by (simp add: twin_worlds_def twin_shared_def world_db_def)

lemma twin_stores: "twin_worlds R cap w w' \<Longrightarrow> R cap (sh_kv (w_shared w)) (sh_kv (w_shared w'))"
  by (simp add: twin_worlds_def twin_shared_def)

lemma twin_same:
  assumes "twin_worlds R cap w w'"
  shows "w_rng w' = w_rng w" "w_draws w' = w_draws w" "w_now w' = w_now w" "w_shutdown w' = w_shutdown w" "w_actions w' = w_actions w"
    "w_jobs_completed w' = w_jobs_completed w" "w_jobs_requeued w' = w_jobs_requeued w" "w_jobs_failed w' = w_jobs_failed w"
    "w_durations w' = w_durations w"
  using assms by (auto simp: twin_worlds_def outcome_def)

lemma twin_awaiting:
  assumes "twin_worlds R cap w w'"
    and "\<And>sh sh'. twin_shared R cap sh sh' \<Longrightarrow> fst (call' sh') = fst (call sh) \<and> twin_shared R cap2 (snd (call sh)) (snd (call' sh'))"
  shows "fst (awaiting call' w') = fst (awaiting call w) \<and> twin_worlds R cap2 (snd (awaiting call w)) (snd (awaiting call' w'))"
proof -
  let ?sh = "w_others w (w_awaits w) (w_shared w)" and ?sh' = "w_others w' (w_awaits w') (w_shared w')"
  have "twin_shared R cap ?sh ?sh'" using assms(1) by (simp add: twin_worlds_def)
  from assms(2) [OF this] show ?thesis
    using assms(1) by (simp add: awaiting_def twin_worlds_def outcome_def Let_def split_beta)
qed

lemma twin_on_kv:
  assumes "twin_worlds R cap w w'"
    and "\<And>s s'. R cap s s' \<Longrightarrow> fst (call' s') = fst (call s) \<and> R cap2 (snd (call s)) (snd (call' s'))"
  shows "fst (awaiting (on_kv call') w') = fst (awaiting (on_kv call) w) \<and>
    twin_worlds R cap2 (snd (awaiting (on_kv call) w)) (snd (awaiting (on_kv call') w'))"
  by (rule twin_awaiting [OF assms(1)]) (use assms(2) in \<open>simp add: twin_shared_def on_kv_def Let_def split_beta\<close>)

lemma twin_db:
  "twin_worlds R cap w w' \<Longrightarrow> fst (awaiting (on_db call) w') = fst (awaiting (on_db call) w) \<and>
     twin_worlds R cap (snd (awaiting (on_db call) w)) (snd (awaiting (on_db call) w'))"
  by (erule twin_awaiting) (simp add: twin_shared_def on_db_def Let_def split_beta)

lemma twin_pause: "twin_worlds R cap w w' \<Longrightarrow>
    twin_worlds R cap (snd (awaiting (\<lambda>sh. ((), sh)) w)) (snd (awaiting (\<lambda>sh. ((), sh)) w'))"
  using twin_awaiting [of R cap w w' "\<lambda>sh. ((), sh)" "\<lambda>sh. ((), sh)" cap] by simp

lemma twin_local:
  assumes "twin_worlds R cap w w'"
  shows "twin_worlds R cap (msg_act a w) (msg_act a w')"
    and "fst (rng_uniform lo hi w') = fst (rng_uniform lo hi w) \<and> twin_worlds R cap (snd (rng_uniform lo hi w)) (snd (rng_uniform lo hi w'))"
    and "fst (run_execute sleep dur rate w') = fst (run_execute sleep dur rate w) \<and>
      twin_worlds R cap (snd (run_execute sleep dur rate w)) (snd (run_execute sleep dur rate w'))"
proof -
  show "twin_worlds R cap (msg_act a w) (msg_act a w')"
    using twin_pause [OF assms] by (simp add: msg_act_def split_beta Let_def twin_worlds_def outcome_def)
  have drawn: "twin_worlds R cap (w\<lparr>w_draws := n\<rparr>) (w'\<lparr>w_draws := n\<rparr>)" for n
    using assms by (simp add: twin_worlds_def outcome_def)
  then show "fst (rng_uniform lo hi w') = fst (rng_uniform lo hi w) \<and> twin_worlds R cap (snd (rng_uniform lo hi w)) (snd (rng_uniform lo hi w'))"
    using twin_same(1,2) [OF assms] by (simp add: rng_uniform_def rng_random_def)
  show "fst (run_execute sleep dur rate w') = fst (run_execute sleep dur rate w) \<and>
      twin_worlds R cap (snd (run_execute sleep dur rate w)) (snd (run_execute sleep dur rate w'))"
    using twin_same(1-3) [OF assms] twin_pause [OF drawn, of "Suc (w_draws w)"]
    by (simp add: run_execute_def rng_random_def split_beta Let_def twin_worlds_def outcome_def)
qed

lemma twin_counted:
  assumes "twin_worlds R cap w w'"
  shows "twin_worlds R cap (w\<lparr>w_jobs_completed := Suc (w_jobs_completed w)\<rparr>) (w'\<lparr>w_jobs_completed := Suc (w_jobs_completed w')\<rparr>)"
    "twin_worlds R cap (w\<lparr>w_jobs_requeued := Suc (w_jobs_requeued w)\<rparr>) (w'\<lparr>w_jobs_requeued := Suc (w_jobs_requeued w')\<rparr>)"
    "twin_worlds R cap (w\<lparr>w_jobs_failed := Suc (w_jobs_failed w)\<rparr>) (w'\<lparr>w_jobs_failed := Suc (w_jobs_failed w')\<rparr>)"
    "twin_worlds R cap (w\<lparr>w_jobs_completed := Suc (w_jobs_completed w), w_durations := w_durations w @ ds\<rparr>)
       (w'\<lparr>w_jobs_completed := Suc (w_jobs_completed w'), w_durations := w_durations w' @ ds\<rparr>)"
    "twin_worlds R cap (request_shutdown w) (request_shutdown w')"
  using assms by (simp_all add: twin_worlds_def outcome_def request_shutdown_def)

text \<open>The messages a run of the fetch loop may handle.\<close>

fun fetched_in :: "(bool \<times> (exn + js_msg list option)) list \<Rightarrow> nat" where
  "fetched_in [] = 0"
| "fetched_in ((_, Inl _) # rounds) = 0"
| "fetched_in ((_, Inr None) # rounds) = fetched_in rounds"
| "fetched_in ((_, Inr (Some msgs)) # rounds) = length msgs + fetched_in rounds"

context kv_twins
begin

lemma world_twins: "kv_twins (world_kv ops) (world_kv ops') (twin_worlds R)"
proof (unfold_locales, goal_cases)
  case (1 cap w w')
  have "twin_shared R (cap + 1) sh sh'" if "twin_shared R cap sh sh'" for sh sh' using that by (simp add: twin_shared_def twin_mono)
  with 1 show ?case unfolding twin_worlds_def by blast
qed (auto simp: world_kv_def twin_get twin_set twin_incr twin_cad intro!: twin_on_kv)

lemmas world_claim = kv_twins.twin_claim [OF world_twins] and world_done = kv_twins.twin_done [OF world_twins]
  and world_release_claim = kv_twins.twin_release_claim [OF world_twins] and world_acquire = kv_twins.twin_acquire [OF world_twins]
  and world_release = kv_twins.twin_release [OF world_twins]

lemma twin_complete:
  assumes "twin_worlds R cap w w'" "0 < exec_guard_ttl_s cfg"
  shows "fst (complete_job ops' cfg i attempt delivery l result w') = fst (complete_job ops cfg i attempt delivery l result w) \<and>
    twin_worlds R cap (snd (complete_job ops cfg i attempt delivery l result w)) (snd (complete_job ops' cfg i attempt delivery l result w'))"
proof -
  note rec = twin_db [OF assms(1), of "record_event i E_COMPLETED attempt None (Some (lease_token l)) (Some result)"]
  note acked = twin_local(1) [OF world_done [OF conjunct2 [OF rec] assms(2)], of Ack i delivery]
  from rec show ?thesis
    by (simp add: complete_job_def split_beta Let_def twin_counted [OF acked] split: sum.splits json.splits)
qed

lemma twin_try:
  assumes "twin_worlds R cap w w'" "0 < exec_guard_ttl_s cfg"
  shows "fst (try_job ops' rt sleep cfg i p attempt delivery l w') = fst (try_job ops rt sleep cfg i p attempt delivery l w) \<and>
    twin_worlds R cap (snd (try_job ops rt sleep cfg i p attempt delivery l w)) (snd (try_job ops' rt sleep cfg i p attempt delivery l w'))"
proof -
  note rec = twin_db [OF assms(1), of "record_event i E_STARTED attempt None (Some (lease_token l)) None"]
  note run = twin_local(3) [OF conjunct2 [OF rec], of sleep]
  from rec show ?thesis
    by (simp add: try_job_def split_beta Let_def run twin_complete [OF conjunct2 [OF run] assms(2)] split: sum.splits)
qed

lemma twin_except:
  assumes "twin_worlds R cap w w'"
  shows "fst (except_job ops' cfg i attempt delivery l e w') = fst (except_job ops cfg i attempt delivery l e w) \<and>
    twin_worlds R cap (snd (except_job ops cfg i attempt delivery l e w)) (snd (except_job ops' cfg i attempt delivery l e w'))"
proof -
  note rec = twin_db [OF assms]
  note settled = twin_local(1) [OF world_release_claim [OF conjunct2 [OF rec]]]
  note illegal = twin_local(1) [OF world_release_claim [OF assms]]
  from assms show ?thesis
    by (cases e) (simp_all add: except_job_def split_beta Let_def rec illegal twin_counted [OF settled] split: sum.splits)
qed

lemma twin_handle:
  assumes "twin_worlds R cap w w'" "0 < lease_ttl_s cfg" "0 < exec_guard_ttl_s cfg" "cap < 2 ^ 63 - 1"
  shows "fst (handle ops' rt sleep cfg wid i payload attempt delivery w') = fst (handle ops rt sleep cfg wid i payload attempt delivery w) \<and>
    twin_worlds R (cap + 1) (snd (handle ops rt sleep cfg wid i payload attempt delivery w))
      (snd (handle ops' rt sleep cfg wid i payload attempt delivery w'))"
proof (cases payload)
  case (JObj p)
  note same = twin_local(1) [OF kv_twins.twin_mono [OF world_twins]]
  note claim = world_claim [OF assms(1,2), of i delivery]
  note got = world_acquire [OF conjunct2 [OF claim] assms(2,4), of i wid]
  note busy = twin_local(2) [OF conjunct2 [OF claim], of 4 9] and free = world_release_claim [OF conjunct2 [OF got], of i delivery]
  note tried = twin_try [OF conjunct2 [OF got] assms(3), of rt sleep i p attempt delivery]
  note caught = twin_except [OF conjunct2 [OF tried], of cfg i attempt delivery]
  have owner: "lease_resource l = uuid_str i" if "fst (acquire (world_kv ops) ttl (uuid_str i) wid w1) = Some l" for l ttl w1
    using that by (auto simp: acquire_def Let_def split_beta split: if_splits)
  show ?thesis
  proof (cases "py_truthy (dict_get_none p ''poison'')")
    case False
    then show ?thesis
      using claim got tried caught owner
      by (simp add: handle_def JObj split_beta Let_def same busy twin_local(1) [OF conjunct2 [OF busy]]
          twin_local(2) [OF free] twin_local(1) [OF conjunct2 [OF twin_local(2) [OF free]]]
          world_release [OF conjunct2 [OF tried]] world_release [OF conjunct2 [OF caught]]
          split: sum.splits claim_result.splits option.splits)
  qed (use same [OF assms(1)] in \<open>simp add: handle_def JObj\<close>)
qed (use kv_twins.twin_mono [OF world_twins assms(1)] in \<open>simp_all add: handle_def\<close>)

lemma twin_process:
  assumes "twin_worlds R cap w w'" "0 < lease_ttl_s cfg" "0 < exec_guard_ttl_s cfg" "cap < 2 ^ 63 - 1"
  shows "fst (process ops' tel rt sleep cfg wid msg w') = fst (process ops tel rt sleep cfg wid msg w) \<and>
    twin_worlds R (cap + 1) (snd (process ops tel rt sleep cfg wid msg w)) (snd (process ops' tel rt sleep cfg wid msg w'))"
  by (auto simp: process_def Let_def twin_handle [OF assms] kv_twins.twin_mono [OF world_twins assms(1)] split: sum.splits)

lemma twin_mono_le:
  assumes "twin_worlds R cap w w'" "cap \<le> cap'"
  shows "twin_worlds R cap' w w'"
  using assms(2) by (induction cap' rule: int_ge_induct) (use assms(1) kv_twins.twin_mono [OF world_twins] in auto)

lemma twin_process_all:
  assumes "0 < lease_ttl_s cfg" "0 < exec_guard_ttl_s cfg"
  shows "twin_worlds R cap w w' \<Longrightarrow> cap + int (length msgs) < 2 ^ 63 \<Longrightarrow>
    fst (process_all ops' tel rt sleep cfg wid msgs w') = fst (process_all ops tel rt sleep cfg wid msgs w) \<and>
    twin_worlds R (cap + int (length msgs)) (snd (process_all ops tel rt sleep cfg wid msgs w)) (snd (process_all ops' tel rt sleep cfg wid msgs w'))"
proof (induction msgs arbitrary: cap w w')
  case (Cons m ms)
  obtain out w1 out' w1' where run: "process ops tel rt sleep cfg wid m w = (out, w1)" "process ops' tel rt sleep cfg wid m w' = (out', w1')"
    by fastforce
  with twin_process [OF Cons.prems(1) assms, of tel rt sleep wid m] Cons.prems(2)
  have one: "out' = out" "twin_worlds R (cap + 1) w1 w1'" by simp_all
  have "twin_worlds R (cap + int (length (m # ms))) w1 w1'" by (rule twin_mono_le [OF one(2)]) simp
  with Cons.IH [OF one(2)] Cons.prems(2) one(1) show ?case by (cases out) (simp_all add: run add.assoc)
qed simp

lemma twin_run:
  assumes "0 < lease_ttl_s cfg" "0 < exec_guard_ttl_s cfg"
  shows "twin_worlds R cap w w' \<Longrightarrow> cap + int (fetched_in rounds) < 2 ^ 63 \<Longrightarrow>
    fst (worker_run ops' tel rt sleep cfg wid rounds w') = fst (worker_run ops tel rt sleep cfg wid rounds w) \<and>
    twin_worlds R (cap + int (fetched_in rounds)) (snd (worker_run ops tel rt sleep cfg wid rounds w)) (snd (worker_run ops' tel rt sleep cfg wid rounds w'))"
proof (induction rounds arbitrary: cap w w')
  case (Cons r rs)
  obtain sigterm got where r: "r = (sigterm, got)" by fastforce
  define w1 w1' where "w1 = (if sigterm then request_shutdown w else w)" and "w1' = (if sigterm then request_shutdown w' else w')"
  have tw: "twin_worlds R cap w1 w1'" using Cons.prems(1) twin_counted(5) [OF Cons.prems(1)] by (simp add: w1_def w1'_def)
  then have stop: "twin_worlds R (cap + int (fetched_in (r # rs))) w1 w1'" "w_shutdown w1' = w_shutdown w1"
    using twin_mono_le twin_same(4) by fastforce+
  consider e where "got = Inl e" | (none) "got = Inr None" | (some) msgs where "got = Inr (Some msgs)" by (cases got) auto
  then show ?case
  proof cases
    case 1
    with stop show ?thesis by (simp add: r Let_def flip: w1_def w1'_def)
  next
    case none
    with Cons.IH [OF tw] Cons.prems(2) stop show ?thesis by (simp add: r Let_def flip: w1_def w1'_def)
  next
    case (some msgs)
    obtain out w2 out' w2' where run: "process_all ops tel rt sleep cfg wid msgs w1 = (out, w2)"
        "process_all ops' tel rt sleep cfg wid msgs w1' = (out', w2')" by fastforce
    with twin_process_all [OF assms tw, of msgs tel rt sleep wid] Cons.prems(2) some
    have batch: "out' = out" "twin_worlds R (cap + int (length msgs)) w2 w2'" by (simp_all add: r)
    have "twin_worlds R (cap + int (fetched_in (r # rs))) w2 w2'" by (rule twin_mono_le [OF batch(2)]) (simp add: r some)
    with Cons.IH [OF batch(2)] Cons.prems(2) stop batch(1) some run show ?thesis
      by (cases out) (simp_all add: r Let_def add.assoc flip: w1_def w1'_def)
  qed
qed simp

end

section \<open>The test double and the production store\<close>

abbreviation mem_valkey_view where
  "mem_valkey_view ok now held ctr \<equiv> same_view mem_inv mem_now mem_held mem_ctr ok now held ctr"

sublocale redis_server \<subseteq> doubles: store_pair mem_kv mem_inv mem_now mem_held mem_ctr "\<lambda>m ttl. mem_now m + ttl" mem_advance
    "valkey_kv client" inv now held ctr "\<lambda>s ttl. now s + of_int (valkey_px ttl) / 1000" advance
proof (intro store_pair.intro mem.key_value_store_axioms valkey_is_store store_pair_axioms.intro)
  fix s' and s :: in_memory_kv and ttl :: int
  assume "now s' = mem_now s" "0 < ttl"
  then have "valkey_px (of_int ttl) = ttl * 1000"
    unfolding valkey_px_def using ceiling_of_int [of "ttl * 1000", where 'a = real] by simp
  with \<open>now s' = mem_now s\<close> show "now s' + of_int (valkey_px (of_int ttl)) / 1000 = mem_now s + of_int ttl" by simp
qed

context redis_server
begin

lemma valkey_twins: "kv_twins mem_kv (valkey_kv client) (mem_valkey_view inv now held ctr)"
  by (rule doubles.twins.kv_twins_axioms)

end

section \<open>Properties\<close>

text \<open>C16: The worker cannot tell the in-memory store from a Valkey server: over any client that behaves as
  the server documents, if the two stores look the same under the worker's keys at the start, the
  others keep them so, and no token counter can reach its 64-bit limit in this run, then the fetch
  loop ends the same way on both, with the same actions on the same messages, the same counters, the
  same database, and stores that still look the same.\<close>

theorem worker_cannot_tell_the_stores_apart:
  assumes "redis_server client ok now held ctr advance"
    and "twin_worlds (mem_valkey_view ok now held ctr) cap w w'" and "0 < lease_ttl_s cfg" and "0 < exec_guard_ttl_s cfg"
    and "cap + int (fetched_in rounds) < 2 ^ 63"
  shows "case (worker_run mem_kv tel rt sleep cfg wid rounds w, worker_run (valkey_kv client) tel rt sleep cfg wid rounds w') of
    ((out, w1), (out', w1')) \<Rightarrow> out' = out \<and> outcome w1' = outcome w1 \<and> world_db w1' = world_db w1 \<and>
      mem_valkey_view ok now held ctr (cap + int (fetched_in rounds)) (sh_kv (w_shared w1)) (sh_kv (w_shared w1'))"
proof -
  note twins = redis_server.valkey_twins [OF assms(1)]
  obtain out w1 out' w1' where runs: "worker_run mem_kv tel rt sleep cfg wid rounds w = (out, w1)"
      "worker_run (valkey_kv client) tel rt sleep cfg wid rounds w' = (out', w1')" by fastforce
  with kv_twins.twin_run [OF twins assms(3,4,2,5), of tel rt sleep wid]
  have same: "out' = out" "twin_worlds (mem_valkey_view ok now held ctr) (cap + int (fetched_in rounds)) w1 w1'" by simp_all
  then show ?thesis using twin_outcome [OF same(2)] twin_stores [OF same(2)] by (simp add: runs)
qed

definition demo_valkey_world :: "ref_server world" where
  "demo_valkey_world = \<lparr>w_shared = \<lparr>sh_kv = \<lparr>srv_now = 0, srv_keys = Map.empty\<rparr>, sh_db = demo_db\<rparr>, w_others = (\<lambda>_ sh. sh),
     w_awaits = 0, w_actions = [], w_rng = (\<lambda>_. 1 / 2), w_draws = 0, w_now = 0, w_jobs_completed = 0,
     w_jobs_requeued = 0, w_jobs_failed = 0, w_durations = [], w_shutdown = False, w_died = None\<rparr>"

theorem worker_cannot_tell_the_stores_apart_witness:
  "case (worker_run mem_kv demo_otel demo_runtime (\<lambda>d t. t + d) Settings ''w1''
        [(False, Inr (Some [\<lparr>msg_data = json_dumps (submit_message 1 demo_payload []), msg_headers = [], num_delivered = 1\<rparr>]))] demo_world,
      worker_run (valkey_kv srv_client) demo_otel demo_runtime (\<lambda>d t. t + d) Settings ''w1''
        [(False, Inr (Some [\<lparr>msg_data = json_dumps (submit_message 1 demo_payload []), msg_headers = [], num_delivered = 1\<rparr>]))] demo_valkey_world) of
    ((out, w1), (out', w1')) \<Rightarrow> out' = out \<and> w_actions w1' = w_actions w1 \<and> world_db w1' = world_db w1"
proof -
  let ?rounds = "[(False, Inr (Some [\<lparr>msg_data = json_dumps (submit_message 1 demo_payload []), msg_headers = [], num_delivered = 1\<rparr>]))]"
  have "twin_worlds (mem_valkey_view srv_inv srv_now srv_held srv_ctr) 0 demo_world demo_valkey_world"
    by (simp add: twin_worlds_def twin_shared_def same_view_def outcome_def demo_world_def demo_valkey_world_def mem_ctr_def
        InMemoryKV_def FakeClock_def srv_inv_def srv_held_def srv_ctr_def srv_seen_def mem_now_def mem_inv_def mem_held_def)
  from worker_cannot_tell_the_stores_apart [OF ref.redis_server_axioms this, of Settings ?rounds demo_otel demo_runtime "\<lambda>d t. t + d" "''w1''"]
  show ?thesis by (auto simp: Settings_def outcome_def simp del: worker_run.simps split: prod.splits)
qed

end
