(* ===== verification/Faults.thy ===== *)
theory Faults
  imports Delivery
begin

text \<open>
  Services that fail. \<^verbatim>\<open>Worker\<close> lets the store, the database and the broker answer every call; here any
  call of \<^verbatim>\<open>handle\<close> may raise instead, before it reached the service or after it took effect there and
  the answer was lost. The operations are written once more in a state-and-exception monad, with Python's
  \<^verbatim>\<open>try\<close>, \<^verbatim>\<open>except\<close> and \<^verbatim>\<open>finally\<close> as combinators. Without faults they are the operations of \<^verbatim>\<open>Worker\<close>; with
  faults, \<open>io_triple\<close> gives what holds after a normal and after an exceptional end.
\<close>

section \<open>Calls that may raise\<close>

type_synonym ('s, 'a) io = "'s world \<Rightarrow> (exn + 'a) \<times> 's world"

definition io_return :: "'a \<Rightarrow> ('s, 'a) io" where
  "io_return x w = (Inr x, w)"

definition io_raise :: "exn \<Rightarrow> ('s, 'a) io" where
  "io_raise e w = (Inl e, w)"

definition io_bind :: "('s, 'a) io \<Rightarrow> ('a \<Rightarrow> ('s, 'b) io) \<Rightarrow> ('s, 'b) io" where
  "io_bind m f w = (case m w of (Inl e, w1) \<Rightarrow> (Inl e, w1) | (Inr x, w1) \<Rightarrow> f x w1)"

definition io_except :: "('s, 'a) io \<Rightarrow> (exn \<Rightarrow> ('s, 'a) io) \<Rightarrow> ('s, 'a) io" where
  "io_except m h w = (case m w of (Inl e, w1) \<Rightarrow> h e w1 | (Inr x, w1) \<Rightarrow> (Inr x, w1))"

definition io_finally :: "('s, 'a) io \<Rightarrow> ('s, 'b) io \<Rightarrow> ('s, 'a) io" where
  "io_finally m fin w =
     (case m w of (r, w1) \<Rightarrow> case fin w1 of (Inl e, w2) \<Rightarrow> (Inl e, w2) | (Inr _, w2) \<Rightarrow> (r, w2))"

text \<open>A fault at an await: the call never reached the service, or it did and the answer got lost.\<close>

datatype fault = Unsent exn | Unanswered exn

type_synonym faults = "nat \<Rightarrow> fault option"

definition calling :: "faults \<Rightarrow> ('s shared \<Rightarrow> 'a \<times> 's shared) \<Rightarrow> ('s, 'a) io" where
  "calling F call w =
     (case F (w_awaits w) of
        None \<Rightarrow> (let (r, w1) = awaiting call w in (Inr r, w1))
      | Some (Unsent e) \<Rightarrow> (Inl e, snd (awaiting (\<lambda>sh. ((), sh)) w))
      | Some (Unanswered e) \<Rightarrow> (Inl e, snd (awaiting call w)))"

definition record_io ::
    "faults \<Rightarrow> uuid \<Rightarrow> event_type \<Rightarrow> int \<Rightarrow> pydict option \<Rightarrow> int option \<Rightarrow> pydict option \<Rightarrow> ('s, job_state) io" where
  "record_io F i ev attempt detail token result =
     io_bind (calling F (on_db (record_event i ev attempt detail token result))) (\<lambda>r w. (r, w))"

definition act_io :: "faults \<Rightarrow> msg_action \<Rightarrow> ('s, unit) io" where
  "act_io F a w =
     (case F (w_awaits w) of
        None \<Rightarrow> (Inr (), msg_act a w)
      | Some (Unsent e) \<Rightarrow> (Inl e, snd (awaiting (\<lambda>sh. ((), sh)) w))
      | Some (Unanswered e) \<Rightarrow> (Inl e, msg_act a w))"

section \<open>\<^verbatim>\<open>handle\<close> with calls that may raise\<close>

definition try_claim_io :: "faults \<Rightarrow> 's kv_ops \<Rightarrow> real \<Rightarrow> string \<Rightarrow> string \<Rightarrow> ('s, claim_result) io" where
  "try_claim_io F kv ttl job_id delivery =
     io_bind (calling F (on_kv (kv_get kv (done_key job_id)))) (\<lambda>done.
       if done \<noteq> None then io_return ALREADY_DONE
       else io_bind (calling F (on_kv (kv_set_if_absent kv (claim_key job_id) delivery ttl))) (\<lambda>claimed.
         io_return (if \<not> claimed then IN_PROGRESS else CLAIMED)))"

definition mark_done_io :: "faults \<Rightarrow> 's kv_ops \<Rightarrow> real \<Rightarrow> string \<Rightarrow> string \<Rightarrow> ('s, unit) io" where
  "mark_done_io F kv ttl job_id delivery =
     io_bind (calling F (on_kv (kv_set_if_absent kv (done_key job_id) delivery ttl))) (\<lambda>_.
     io_bind (calling F (on_kv (kv_compare_and_delete kv (claim_key job_id) delivery))) (\<lambda>_. io_return ()))"

definition release_claim_io :: "faults \<Rightarrow> 's kv_ops \<Rightarrow> string \<Rightarrow> string \<Rightarrow> ('s, unit) io" where
  "release_claim_io F kv job_id delivery =
     io_bind (calling F (on_kv (kv_compare_and_delete kv (claim_key job_id) delivery))) (\<lambda>_. io_return ())"

definition acquire_io :: "faults \<Rightarrow> 's kv_ops \<Rightarrow> real \<Rightarrow> string \<Rightarrow> string \<Rightarrow> ('s, lease option) io" where
  "acquire_io F kv ttl resource holder =
     io_bind (calling F (on_kv (kv_incr kv (token_key resource)))) (\<lambda>token.
     io_bind (calling F (on_kv (kv_set_if_absent kv (lease_key resource) (lease_text holder token) ttl))) (\<lambda>acquired.
       io_return (if \<not> acquired then None
         else Some \<lparr>lease_resource = resource, lease_holder = holder, lease_token = token\<rparr>)))"

definition release_io :: "faults \<Rightarrow> 's kv_ops \<Rightarrow> lease \<Rightarrow> ('s, bool) io" where
  "release_io F kv l =
     calling F (on_kv (kv_compare_and_delete kv (lease_key (lease_resource l)) (lease_text (lease_holder l) (lease_token l))))"

definition complete_io :: "faults \<Rightarrow> 's kv_ops \<Rightarrow> settings \<Rightarrow> uuid \<Rightarrow> int \<Rightarrow> string \<Rightarrow> lease \<Rightarrow> pydict \<Rightarrow> ('s, unit) io" where
  "complete_io F kv cfg i attempt delivery l result =
     io_bind (record_io F i E_COMPLETED attempt None (Some (lease_token l)) (Some result)) (\<lambda>_.
     io_bind (mark_done_io F kv (of_int (exec_guard_ttl_s cfg)) (uuid_str i) delivery) (\<lambda>_.
     io_bind (act_io F Ack) (\<lambda>_ w.
       let w4 = w\<lparr>w_jobs_completed := w_jobs_completed w + 1\<rparr> in
       case dict_item result ''elapsed_ms'' of
         Inl e \<Rightarrow> (Inl (Py e), w4)
       | Inr (JInt elapsed) \<Rightarrow> (Inr (), w4\<lparr>w_durations := w_durations w4 @ [elapsed]\<rparr>)
       | Inr _ \<Rightarrow> (Inr (), w4))))"

definition try_io ::
    "faults \<Rightarrow> 's kv_ops \<Rightarrow> py_runtime \<Rightarrow> (real \<Rightarrow> real \<Rightarrow> real) \<Rightarrow> settings \<Rightarrow> uuid \<Rightarrow> pydict \<Rightarrow> int \<Rightarrow> string \<Rightarrow> lease \<Rightarrow> ('s, unit) io" where
  "try_io F kv rt sleep cfg i payload attempt delivery l =
     io_bind (record_io F i E_STARTED attempt None (Some (lease_token l)) None) (\<lambda>_.
     case exec_args rt payload of
       Inl e \<Rightarrow> io_raise e
     | Inr (dur, rate) \<Rightarrow>
         io_bind (run_execute sleep dur rate) (complete_io F kv cfg i attempt delivery l))"

definition except_io :: "faults \<Rightarrow> 's kv_ops \<Rightarrow> settings \<Rightarrow> uuid \<Rightarrow> int \<Rightarrow> string \<Rightarrow> lease \<Rightarrow> exn \<Rightarrow> ('s, unit) io" where
  "except_io F kv cfg i attempt delivery l e =
     (case e of
        SimulatedFailure text \<Rightarrow>
          if attempt < max_deliver cfg
          then io_bind (record_io F i E_REQUEUED attempt (Some [(''error'', JStr text)]) (Some (lease_token l)) None) (\<lambda>_.
               io_bind (release_claim_io F kv (uuid_str i) delivery) (\<lambda>_.
               io_bind (act_io F (Nak (min (2 powi attempt) 30))) (\<lambda>_ w.
                 (Inr (), w\<lparr>w_jobs_requeued := w_jobs_requeued w + 1\<rparr>))))
          else io_bind (record_io F i E_FAILED attempt (Some [(''error'', JStr text), (''reason'', JStr ''retries exhausted'')])
                 (Some (lease_token l)) None) (\<lambda>_.
               io_bind (release_claim_io F kv (uuid_str i) delivery) (\<lambda>_.
               io_bind (act_io F Term) (\<lambda>_ w.
                 (Inr (), w\<lparr>w_jobs_failed := w_jobs_failed w + 1\<rparr>))))
      | StaleLeaseError _ _ _ \<Rightarrow> io_return ()
      | IllegalTransition _ _ \<Rightarrow>
          io_bind (release_claim_io F kv (uuid_str i) delivery) (\<lambda>_. act_io F Term)
      | _ \<Rightarrow> io_raise e)"

definition uniform_io :: "real \<Rightarrow> real \<Rightarrow> ('s, real) io" where
  "uniform_io a b w = (let (x, w1) = rng_uniform a b w in (Inr x, w1))"

definition handle_io ::
    "faults \<Rightarrow> 's kv_ops \<Rightarrow> py_runtime \<Rightarrow> (real \<Rightarrow> real \<Rightarrow> real) \<Rightarrow> settings \<Rightarrow> string \<Rightarrow> uuid \<Rightarrow> json \<Rightarrow> int \<Rightarrow> string \<Rightarrow> ('s, unit) io" where
  "handle_io F kv rt sleep cfg worker_id i payload attempt delivery =
     (case payload of
        JObj p \<Rightarrow>
          if py_truthy (dict_get_none p ''poison'') then act_io F (Nak (1 / 2))
          else io_bind (try_claim_io F kv (of_int (lease_ttl_s cfg)) (uuid_str i) delivery) (\<lambda>claim.
            case claim of
              ALREADY_DONE \<Rightarrow> act_io F Ack
            | IN_PROGRESS \<Rightarrow> io_bind (uniform_io 4 9) (\<lambda>delay. act_io F (Nak delay))
            | CLAIMED \<Rightarrow> io_bind (acquire_io F kv (of_int (lease_ttl_s cfg)) (uuid_str i) worker_id) (\<lambda>got.
                case got of
                  None \<Rightarrow> io_bind (release_claim_io F kv (uuid_str i) delivery) (\<lambda>_.
                    io_bind (uniform_io 4 9) (\<lambda>delay. act_io F (Nak delay)))
                | Some l \<Rightarrow> io_finally
                    (io_except (try_io F kv rt sleep cfg i p attempt delivery l) (except_io F kv cfg i attempt delivery l))
                    (release_io F kv l)))
      | _ \<Rightarrow> io_raise (Py (AttributeError ''get'')))"

section \<open>Without faults\<close>

abbreviation no_faults :: faults where
  "no_faults \<equiv> \<lambda>_. None"

lemma calling_none: "calling no_faults call w = (Inr (fst (awaiting call w)), snd (awaiting call w))"
  by (simp add: calling_def Let_def split_beta)

lemmas io_defs = io_bind_def io_return_def io_raise_def io_except_def io_finally_def

lemma guard_io_none:
  "try_claim_io no_faults kv ttl j d w = (Inr (fst (try_claim (world_kv kv) ttl j d w)), snd (try_claim (world_kv kv) ttl j d w))"
  "mark_done_io no_faults kv ttl j d w = (Inr (), mark_done (world_kv kv) ttl j d w)"
  "release_claim_io no_faults kv j d w = (Inr (), release_claim (world_kv kv) j d w)"
  "acquire_io no_faults kv ttl r h w = (Inr (fst (acquire (world_kv kv) ttl r h w)), snd (acquire (world_kv kv) ttl r h w))"
  "release_io no_faults kv l w = (Inr (fst (release (world_kv kv) l w)), snd (release (world_kv kv) l w))"
  by (simp_all add: try_claim_io_def try_claim_def mark_done_io_def mark_done_def release_claim_io_def release_claim_def
      acquire_io_def acquire_def release_io_def release_def world_kv_def calling_none io_defs Let_def split_beta)

lemma record_io_none: "record_io no_faults i ev a dt ft res = awaiting (on_db (record_event i ev a dt ft res))"
  by (simp add: fun_eq_iff record_io_def calling_none io_defs)

lemma act_io_none: "act_io no_faults a w = (Inr (), msg_act a w)"
  by (simp add: act_io_def)

lemmas io_none = guard_io_none record_io_none act_io_none

lemma complete_io_none: "complete_io no_faults kv cfg i attempt delivery l result = complete_job kv cfg i attempt delivery l result"
  by (simp add: fun_eq_iff complete_io_def complete_job_def io_none io_defs Let_def split_beta split: sum.splits)

lemma try_io_none: "try_io no_faults kv rt sleep cfg i p attempt delivery l = try_job kv rt sleep cfg i p attempt delivery l"
  by (simp add: fun_eq_iff try_io_def try_job_def io_none complete_io_none io_defs Let_def split_beta split: sum.splits)

lemma except_io_none: "except_io no_faults kv cfg i attempt delivery l e = except_job kv cfg i attempt delivery l e"
  by (cases e) (simp_all add: fun_eq_iff except_io_def except_job_def io_none io_defs Let_def split_beta split: sum.splits)

lemma handle_io_none: "handle_io no_faults kv rt sleep cfg wid i payload attempt delivery = handle kv rt sleep cfg wid i payload attempt delivery"
  by (cases payload) (simp_all add: fun_eq_iff handle_io_def handle_def io_none try_io_none except_io_none uniform_io_def io_defs Let_def split_beta
      split: sum.splits claim_result.splits option.splits)

section \<open>A normal end means no fault\<close>

text \<open>\<open>io_sim Q m m0\<close>: the run of \<open>m\<close> ends with one of the exceptions \<open>Q\<close>, or it is the run of \<open>m0\<close>.\<close>

definition io_sim :: "exn set \<Rightarrow> ('s, 'a) io \<Rightarrow> ('s, 'a) io \<Rightarrow> bool" where
  "io_sim Q m m0 \<longleftrightarrow> (\<forall>w. fst (m w) \<in> Inl ` Q \<or> m w = m0 w)"

lemma sim_refl [simp]: "io_sim Q m m"
  by (simp add: io_sim_def)

lemma io_simE:
  assumes "io_sim Q m m0"
  obtains (raised) e w1 where "m w = (Inl e, w1)" "e \<in> Q" | (same) "m w = m0 w"
  using assms unfolding io_sim_def by (metis image_iff prod.collapse)

lemma sim_bind:
  assumes "io_sim Q m m0" "\<And>x. io_sim Q (f x) (f0 x)"
  shows "io_sim Q (io_bind m f) (io_bind m0 f0)"
  unfolding io_sim_def
proof
  fix w
  from assms(1) show "fst (io_bind m f w) \<in> Inl ` Q \<or> io_bind m f w = io_bind m0 f0 w"
  proof (cases rule: io_simE [where w = w])
    case same
    then show ?thesis using assms(2) by (simp add: io_bind_def io_sim_def split: prod.split sum.split)
  qed (simp add: io_bind_def)
qed

lemma sim_except:
  assumes "io_sim Q m m0" "\<And>e. io_sim Q (h e) (h0 e)" "\<And>e. e \<in> Q \<Longrightarrow> h e = io_raise e"
  shows "io_sim Q (io_except m h) (io_except m0 h0)"
  unfolding io_sim_def
proof
  fix w
  from assms(1) show "fst (io_except m h w) \<in> Inl ` Q \<or> io_except m h w = io_except m0 h0 w"
  proof (cases rule: io_simE [where w = w])
    case same
    then show ?thesis using assms(2) by (simp add: io_except_def io_sim_def split: prod.split sum.split)
  qed (simp add: io_except_def assms(3) io_raise_def)
qed

lemma sim_finally:
  assumes "io_sim Q m m0" "io_sim Q fin fin0" "\<And>w. \<exists>x w1. fin0 w = (Inr x, w1)"
  shows "io_sim Q (io_finally m fin) (io_finally m0 fin0)"
  unfolding io_sim_def
proof
  fix w
  obtain r w1 where run: "m w = (r, w1)" by fastforce
  from assms(2) show "fst (io_finally m fin w) \<in> Inl ` Q \<or> io_finally m fin w = io_finally m0 fin0 w"
  proof (cases rule: io_simE [where w = w1])
    case same
    obtain x w2 where fin: "fin0 w1 = (Inr x, w2)" using assms(3) by blast
    from assms(1) show ?thesis
    proof (cases rule: io_simE [where w = w])
      case raised
      then show ?thesis using run same fin by (simp add: io_finally_def)
    next
      case same0: same
      then have "m0 w = (r, w1)" using run by simp
      with run same fin show ?thesis by (simp add: io_finally_def)
    qed
  qed (simp add: io_finally_def run)
qed

text \<open>What a fault may raise: nothing \<^verbatim>\<open>handle\<close> catches.\<close>

definition caught :: "exn \<Rightarrow> bool" where
  "caught e = (case e of SimulatedFailure _ \<Rightarrow> True | StaleLeaseError _ _ _ \<Rightarrow> True | IllegalTransition _ _ \<Rightarrow> True | _ \<Rightarrow> False)"

definition fault_exns :: "faults \<Rightarrow> exn set" where
  "fault_exns F = {e. \<exists>n. F n = Some (Unsent e) \<or> F n = Some (Unanswered e)}"

lemma except_io_uncaught: "\<not> caught e \<Longrightarrow> except_io F kv cfg i attempt delivery l e = io_raise e"
  by (cases e) (simp_all add: except_io_def caught_def)

lemma sim_calling: "io_sim (fault_exns F) (calling F call) (calling no_faults call)"
  by (auto simp: io_sim_def calling_def fault_exns_def Let_def split_beta split: option.splits fault.splits)

lemma sim_act: "io_sim (fault_exns F) (act_io F a) (act_io no_faults a)"
  by (auto simp: io_sim_def act_io_def fault_exns_def split: option.splits fault.splits)

lemma sim_guard:
  "io_sim (fault_exns F) (try_claim_io F kv ttl j d) (try_claim_io no_faults kv ttl j d)"
  "io_sim (fault_exns F) (mark_done_io F kv ttl j d) (mark_done_io no_faults kv ttl j d)"
  "io_sim (fault_exns F) (release_claim_io F kv j d) (release_claim_io no_faults kv j d)"
  "io_sim (fault_exns F) (acquire_io F kv ttl r h) (acquire_io no_faults kv ttl r h)"
  "io_sim (fault_exns F) (release_io F kv l) (release_io no_faults kv l)"
  "io_sim (fault_exns F) (record_io F i ev a dt ft res) (record_io no_faults i ev a dt ft res)"
  unfolding try_claim_io_def mark_done_io_def release_claim_io_def acquire_io_def release_io_def record_io_def
  by (auto intro!: sim_bind sim_calling)

lemmas sims = sim_guard sim_act sim_bind sim_refl

lemma sim_complete: "io_sim (fault_exns F) (complete_io F kv cfg i a d l res) (complete_io no_faults kv cfg i a d l res)"
  unfolding complete_io_def by (intro sims)

lemma sim_try: "io_sim (fault_exns F) (try_io F kv rt sleep cfg i p a d l) (try_io no_faults kv rt sleep cfg i p a d l)"
  unfolding try_io_def by (auto intro!: sims sim_complete split: sum.split)

lemma sim_except_io: "io_sim (fault_exns F) (except_io F kv cfg i a d l e) (except_io no_faults kv cfg i a d l e)"
  unfolding except_io_def by (cases e) (auto intro!: sims)

lemma sim_handle:
  assumes "\<forall>e \<in> fault_exns F. \<not> caught e"
  shows "io_sim (fault_exns F) (handle_io F kv rt sleep cfg wid i payload a d) (handle_io no_faults kv rt sleep cfg wid i payload a d)"
  unfolding handle_io_def
  by (auto intro!: sims sim_finally sim_except sim_try sim_except_io simp: except_io_uncaught assms guard_io_none
      split: json.split claim_result.split option.split)

lemma handle_io_normal:
  assumes "\<forall>e \<in> fault_exns F. \<not> caught e" "handle_io F kv rt sleep cfg wid i payload attempt delivery w = (Inr (), w')"
  shows "handle kv rt sleep cfg wid i payload attempt delivery w = (Inr (), w')"
  using sim_handle [OF assms(1), of kv rt sleep cfg wid i payload attempt delivery]
proof (cases rule: io_simE [where w = w])
  case (raised e w1)
  then show ?thesis using assms(2) by simp
next
  case same
  then show ?thesis using assms(2) by (simp add: handle_io_none)
qed

section \<open>What holds whatever fails\<close>

text \<open>If \<open>P\<close> holds before, then \<open>Q\<close> holds of the result and the world after a normal end, \<open>E\<close> of the exception and
  the world after an exceptional one.\<close>

definition io_triple :: "('s world \<Rightarrow> bool) \<Rightarrow> ('s, 'a) io \<Rightarrow> ('a \<Rightarrow> 's world \<Rightarrow> bool) \<Rightarrow> (exn \<Rightarrow> 's world \<Rightarrow> bool) \<Rightarrow> bool" where
  "io_triple P m Q E \<longleftrightarrow>
     (\<forall>w x w'. P w \<longrightarrow> m w = (Inr x, w') \<longrightarrow> Q x w') \<and> (\<forall>w e w'. P w \<longrightarrow> m w = (Inl e, w') \<longrightarrow> E e w')"

lemma triple_conseq:
  assumes "io_triple P' m Q' E'" "\<And>w. P w \<Longrightarrow> P' w" "\<And>x w. Q' x w \<Longrightarrow> Q x w" "\<And>e w. E' e w \<Longrightarrow> E e w"
  shows "io_triple P m Q E"
  using assms unfolding io_triple_def by blast

lemma triple_bind: "io_triple P m Q E \<Longrightarrow> (\<And>x. io_triple (Q x) (f x) R E) \<Longrightarrow> io_triple P (io_bind m f) R E"
  unfolding io_triple_def io_bind_def by (auto split: prod.splits sum.splits)

lemma triple_except: "io_triple P m Q E \<Longrightarrow> (\<And>e. io_triple (E e) (h e) Q E') \<Longrightarrow> io_triple P (io_except m h) Q E'"
  unfolding io_triple_def io_except_def by (auto split: prod.splits sum.splits)

lemma triple_always: "io_triple P m (\<lambda>_. R) (\<lambda>_. R) \<longleftrightarrow> (\<forall>w. P w \<longrightarrow> R (snd (m w)))"
proof
  assume triple: "io_triple P m (\<lambda>_. R) (\<lambda>_. R)"
  show "\<forall>w. P w \<longrightarrow> R (snd (m w))"
  proof (intro allI impI)
    fix w assume "P w"
    then show "R (snd (m w))" using triple unfolding io_triple_def by (cases "m w"; cases "fst (m w)") auto
  qed
qed (auto simp: io_triple_def)

lemma triple_finally:
  "io_triple P m (\<lambda>_. Q) (\<lambda>_. Q) \<Longrightarrow> io_triple Q fin (\<lambda>_. R) (\<lambda>_. R) \<Longrightarrow> io_triple P (io_finally m fin) (\<lambda>_. R) (\<lambda>_. R)"
  unfolding triple_always by (auto simp: io_finally_def split: prod.splits sum.splits)

lemma triple_simple:
  "io_triple (Q x) (io_return x) Q E" "io_triple (E e) (io_raise e) Q E"
  by (simp_all add: io_triple_def io_return_def io_raise_def)

lemma triple_keep: "io_triple P (io_return x) (\<lambda>_. P) E"
  by (simp add: io_triple_def io_return_def)

text \<open>A call keeps what the pause before it and its effect keep.\<close>

lemma triple_calling:
  assumes "\<And>w. P w \<Longrightarrow> R (snd (awaiting call w))" "\<And>w. P w \<Longrightarrow> R (snd (awaiting (\<lambda>sh. ((), sh)) w))"
  shows "io_triple P (calling F call) (\<lambda>_. R) (\<lambda>_. R)"
  unfolding triple_always using assms by (simp add: calling_def Let_def split_beta split: option.split fault.split)

section \<open>The message and the job\<close>

definition job_done :: "uuid \<Rightarrow> 's world \<Rightarrow> bool" where
  "job_done i w \<longleftrightarrow> (\<exists>row. find_job i (world_db w) = Some row \<and> jr_state row = job_state_value S_SUCCEEDED)"

text \<open>Nothing has been said about the message yet; the same with the job already done; and: at most one
  thing has been said, and an acknowledgement only for a job that is done or was answered for (\<open>ans\<close>).\<close>

definition unsettled :: "db \<Rightarrow> msg_action list \<Rightarrow> 's world \<Rightarrow> bool" where
  "unsettled d acts w \<longleftrightarrow> following d w \<and> w_actions w = acts"

definition settled_well :: "db \<Rightarrow> msg_action list \<Rightarrow> bool \<Rightarrow> uuid \<Rightarrow> 's world \<Rightarrow> bool" where
  "settled_well d acts ans i w \<longleftrightarrow> following d w \<and>
     (\<exists>new. w_actions w = acts @ new \<and> length new \<le> 1 \<and> (Ack \<in> set new \<longrightarrow> ans \<or> job_done i w))"

lemma unsettled_well: "unsettled d acts w \<Longrightarrow> settled_well d acts ans i w"
  by (simp add: unsettled_def settled_well_def)

lemma awaiting_job_done:
  assumes "following d w" "history_inv d" "\<And>sh. db_steps (sh_db sh) (sh_db (snd (call sh)))" "job_done i w"
  shows "job_done i (snd (awaiting call w))"
proof -
  have "following (world_db w) w" using assms(1) by (simp add: following_def)
  then have "db_steps (world_db w) (world_db (snd (awaiting call w)))" using following_awaiting [OF _ assms(3)] by (auto simp: following_def)
  moreover have "history_inv (world_db w)" using assms(1,2) history_inv_steps by (auto simp: following_def)
  ultimately show ?thesis
    using terminal_row_stays [where s = S_SUCCEEDED] assms(4) by (fastforce simp: job_done_def is_terminal_def TERMINAL_STATES_def)
qed

lemma call_keeps:
  assumes "history_inv d" "\<And>sh. db_steps (sh_db sh) (sh_db (snd (call sh)))"
  shows "unsettled d acts w \<Longrightarrow> unsettled d acts (snd (awaiting call w))"
    and "unsettled d acts w \<and> job_done i w \<Longrightarrow> unsettled d acts (snd (awaiting call w)) \<and> job_done i (snd (awaiting call w))"
    and "settled_well d acts ans i w \<Longrightarrow> settled_well d acts ans i (snd (awaiting call w))"
  using following_awaiting [of d w, OF _ assms(2)] awaiting_job_done [OF _ assms, of w i]
  by (auto simp: unsettled_def settled_well_def)

lemma pause_keeps:
  assumes "history_inv d"
  shows "unsettled d acts w \<Longrightarrow> unsettled d acts (snd (awaiting (\<lambda>sh. ((), sh)) w))"
    and "unsettled d acts w \<Longrightarrow> job_done i w \<Longrightarrow> job_done i (snd (awaiting (\<lambda>sh. ((), sh)) w))"
  using call_keeps(1) [OF assms, of "\<lambda>sh. ((), sh)" acts w] call_keeps(2) [OF assms, of "\<lambda>sh. ((), sh)" acts w i] by simp_all

lemma triple_kv:
  assumes "history_inv d"
  shows "io_triple (unsettled d acts) (calling F (on_kv c)) (\<lambda>_. unsettled d acts) (\<lambda>_. unsettled d acts)"
    and "io_triple (\<lambda>w. unsettled d acts w \<and> job_done i w) (calling F (on_kv c)) (\<lambda>_ w. unsettled d acts w \<and> job_done i w)
      (\<lambda>_ w. unsettled d acts w \<and> job_done i w)"
    and "io_triple (settled_well d acts ans i) (calling F (on_kv c)) (\<lambda>_. settled_well d acts ans i) (\<lambda>_. settled_well d acts ans i)"
  by (rule triple_calling; rule call_keeps(1) [OF assms], simp_all)
    (rule triple_calling; rule call_keeps(2,3) [OF assms], simp_all)+

lemma triple_record:
  assumes "history_inv d" "ev \<in> {E_STARTED, E_COMPLETED, E_FAILED, E_REQUEUED, E_DEAD_LETTERED}"
  shows "io_triple (unsettled d acts) (record_io F i ev a dt ft res)
    (\<lambda>_ w. unsettled d acts w \<and> (ev = E_COMPLETED \<longrightarrow> job_done i w)) (\<lambda>_. unsettled d acts)"
proof -
  let ?call = "on_db (record_event i ev a dt ft res)"
  have "db_steps (sh_db sh) (sh_db (snd (?call sh)))" for sh :: "'a shared"
    using db_step.recording [OF assms(2)] by (simp add: on_db_def split_beta Let_def r_into_rtranclp)
  note keeps = call_keeps(1) [OF assms(1), of ?call, OF this] pause_keeps(1) [OF assms(1)]
  have "unsettled d acts w' \<and> (\<forall>st. out = Inr st \<longrightarrow> ev = E_COMPLETED \<longrightarrow> job_done i w')"
    if "unsettled d acts w" "record_io F i ev a dt ft res w = (out, w')" for w w' :: "'a world" and out
  proof (cases "F (w_awaits w)")
    case None
    then have run: "awaiting ?call w = (out, w')" using that(2) by (simp add: record_io_def calling_def io_bind_def Let_def split_beta)
    then have "job_done i w'" if "out = Inr st" "ev = E_COMPLETED" for st
      using recorded_row [of i ev a dt ft res w st] that by (auto simp: job_done_def)
    moreover have "unsettled d acts w'" using keeps(1) [OF that(1)] run by (metis snd_conv)
    ultimately show ?thesis by blast
  next
    case (Some f)
    then show ?thesis using that keeps by (cases f) (auto simp: record_io_def calling_def io_bind_def)
  qed
  then show ?thesis unfolding io_triple_def by blast
qed

lemma triple_act:
  assumes "history_inv d" "\<forall>e \<in> fault_exns F. \<not> caught e"
  shows "io_triple (\<lambda>w. unsettled d acts w \<and> (a = Ack \<longrightarrow> ans \<or> job_done i w)) (act_io F a) (\<lambda>_. settled_well d acts ans i)
    (\<lambda>e w. \<not> caught e \<and> settled_well d acts ans i w)"
proof -
  have said: "settled_well d acts ans i (msg_act a w)" if "unsettled d acts w \<and> (a = Ack \<longrightarrow> ans \<or> job_done i w)" for w :: "'a world"
  proof -
    have "unsettled d acts (snd (awaiting (\<lambda>sh. ((), sh)) w))" using pause_keeps(1) [OF assms(1)] that by blast
    moreover have "a = Ack \<longrightarrow> ans \<or> job_done i (snd (awaiting (\<lambda>sh. ((), sh)) w))" using pause_keeps(2) [OF assms(1)] that by blast
    ultimately show ?thesis
      by (auto simp: msg_act_def settled_well_def unsettled_def following_def rely_db_def job_done_def world_db_def Let_def split_beta)
  qed
  have kept: "settled_well d acts ans i (snd (awaiting (\<lambda>sh. ((), sh)) w))" if "unsettled d acts w" for w :: "'a world"
    using pause_keeps(1) [OF assms(1) that] by (rule unsettled_well)
  show ?thesis
    unfolding io_triple_def using said kept assms(2)
    by (auto simp: act_io_def fault_exns_def split: option.splits fault.splits)
qed

lemma triple_local:
  assumes "history_inv d"
  shows "io_triple (unsettled d acts) (uniform_io lo hi) (\<lambda>_. unsettled d acts) (\<lambda>_. unsettled d acts)"
    and "io_triple (unsettled d acts) (run_execute sleep dur rate) (\<lambda>_. unsettled d acts) (\<lambda>_. unsettled d acts)"
  using follow.local_keeps(2,3) by (auto simp: triple_always unsettled_def uniform_io_def Let_def split_beta)

section \<open>\<^verbatim>\<open>handle\<close> under faults\<close>

lemma triple_guard:
  assumes "history_inv d"
  shows "io_triple (unsettled d acts) (try_claim_io F kv ttl j dl) (\<lambda>_. unsettled d acts) (\<lambda>_. unsettled d acts)"
    "io_triple (unsettled d acts) (acquire_io F kv ttl j h) (\<lambda>_. unsettled d acts) (\<lambda>_. unsettled d acts)"
    "io_triple (unsettled d acts) (release_claim_io F kv j dl) (\<lambda>_. unsettled d acts) (\<lambda>_. unsettled d acts)"
    "io_triple (\<lambda>w. unsettled d acts w \<and> job_done i w) (mark_done_io F kv ttl j dl) (\<lambda>_ w. unsettled d acts w \<and> job_done i w)
      (\<lambda>_ w. unsettled d acts w \<and> job_done i w)"
  unfolding try_claim_io_def acquire_io_def release_claim_io_def mark_done_io_def
  by (auto intro!: triple_bind triple_kv [OF assms] triple_keep)

text \<open>After an exception: nothing has been said if \<^verbatim>\<open>handle\<close> is going to catch it.\<close>

definition raised_well :: "db \<Rightarrow> msg_action list \<Rightarrow> bool \<Rightarrow> uuid \<Rightarrow> exn \<Rightarrow> 's world \<Rightarrow> bool" where
  "raised_well d acts ans i e w \<longleftrightarrow> settled_well d acts ans i w \<and> (caught e \<longrightarrow> unsettled d acts w)"

lemma raised_unsettled: "unsettled d acts w \<Longrightarrow> raised_well d acts ans i e w"
  by (simp add: raised_well_def unsettled_well)

lemma triple_complete:
  assumes "history_inv d" "\<forall>e \<in> fault_exns F. \<not> caught e"
  shows "io_triple (unsettled d acts) (complete_io F kv cfg i attempt delivery l result) (\<lambda>_. settled_well d acts ans i) (raised_well d acts ans i)"
proof -
  have "io_triple (unsettled d acts) (record_io F i E_COMPLETED attempt None (Some (lease_token l)) (Some result))
      (\<lambda>_ w. unsettled d acts w \<and> job_done i w) (raised_well d acts ans i)"
    by (rule triple_conseq [OF triple_record [OF assms(1)]]) (auto intro: raised_unsettled)
  moreover have "io_triple (\<lambda>w. unsettled d acts w \<and> job_done i w) (mark_done_io F kv (of_int (exec_guard_ttl_s cfg)) (uuid_str i) delivery)
      (\<lambda>_ w. unsettled d acts w \<and> job_done i w) (raised_well d acts ans i)"
    by (rule triple_conseq [OF triple_guard(4) [OF assms(1)]]) (auto intro: raised_unsettled)
  moreover have "io_triple (\<lambda>w. unsettled d acts w \<and> job_done i w) (act_io F Ack) (\<lambda>_. settled_well d acts ans i) (raised_well d acts ans i)"
    by (rule triple_conseq [OF triple_act [OF assms]]) (auto simp: raised_well_def)
  moreover have "io_triple (settled_well d acts ans i) (\<lambda>w. let w4 = w\<lparr>w_jobs_completed := w_jobs_completed w + 1\<rparr> in
      case dict_item result ''elapsed_ms'' of Inl e \<Rightarrow> (Inl (Py e), w4)
      | Inr (JInt elapsed) \<Rightarrow> (Inr (), w4\<lparr>w_durations := w_durations w4 @ [elapsed]\<rparr>) | Inr _ \<Rightarrow> (Inr (), w4))
      (\<lambda>_. settled_well d acts ans i) (raised_well d acts ans i)"
    by (auto simp: io_triple_def raised_well_def caught_def settled_well_def following_def rely_db_def job_done_def world_db_def Let_def
        split: sum.splits json.splits)
  ultimately show ?thesis unfolding complete_io_def by (intro triple_bind)
qed

lemma triple_try:
  assumes "history_inv d" "\<forall>e \<in> fault_exns F. \<not> caught e"
  shows "io_triple (unsettled d acts) (try_io F kv rt sleep cfg i p attempt delivery l) (\<lambda>_. settled_well d acts ans i) (raised_well d acts ans i)"
proof -
  have "io_triple (unsettled d acts) (record_io F i E_STARTED attempt None (Some (lease_token l)) None)
      (\<lambda>_. unsettled d acts) (raised_well d acts ans i)"
    by (rule triple_conseq [OF triple_record [OF assms(1)]]) (auto intro: raised_unsettled)
  moreover have "io_triple (unsettled d acts) (run_execute sleep dur rate) (\<lambda>_. unsettled d acts) (raised_well d acts ans i)" for dur rate
    by (rule triple_conseq [OF triple_local(2) [OF assms(1)]]) (auto intro: raised_unsettled)
  moreover have "io_triple (unsettled d acts) (io_raise e) (\<lambda>_. settled_well d acts ans i) (raised_well d acts ans i)" for e
    by (simp add: io_triple_def io_raise_def raised_unsettled)
  ultimately show ?thesis
    unfolding try_io_def by (auto intro!: triple_bind triple_complete [OF assms] split: sum.split)
qed

lemma triple_except_io:
  assumes "history_inv d" "\<forall>e \<in> fault_exns F. \<not> caught e"
  shows "io_triple (raised_well d acts ans i e) (except_io F kv cfg i attempt delivery l e) (\<lambda>_. settled_well d acts ans i) (\<lambda>_. settled_well d acts ans i)"
proof (cases "caught e")
  case False
  then show ?thesis by (simp add: except_io_uncaught io_triple_def io_raise_def raised_well_def)
next
  case True
  have rec: "io_triple (unsettled d acts) (record_io F i ev attempt dt ft None) (\<lambda>_. unsettled d acts) (\<lambda>_. settled_well d acts ans i)"
    if "ev \<in> {E_STARTED, E_COMPLETED, E_FAILED, E_REQUEUED, E_DEAD_LETTERED}" for ev dt ft
    by (rule triple_conseq [OF triple_record [OF assms(1) that]]) (auto intro: unsettled_well)
  have rel: "io_triple (unsettled d acts) (release_claim_io F kv (uuid_str i) delivery) (\<lambda>_. unsettled d acts) (\<lambda>_. settled_well d acts ans i)"
    by (rule triple_conseq [OF triple_guard(3) [OF assms(1)]]) (auto intro: unsettled_well)
  have act: "io_triple (unsettled d acts) (act_io F a) (\<lambda>_. settled_well d acts ans i) (\<lambda>_. settled_well d acts ans i)" if "a \<noteq> Ack" for a
    by (rule triple_conseq [OF triple_act [OF assms]]) (use that in auto)
  have stand: "io_triple (unsettled d acts) (io_return ()) (\<lambda>_. settled_well d acts ans i) (\<lambda>_. settled_well d acts ans i)"
    by (simp add: io_triple_def io_return_def unsettled_well)
  have count: "io_triple (settled_well d acts ans i) (\<lambda>w. (Inr (), w\<lparr>w_jobs_requeued := Suc (w_jobs_requeued w)\<rparr>)) (\<lambda>_. settled_well d acts ans i) (\<lambda>_. settled_well d acts ans i)"
    "io_triple (settled_well d acts ans i) (\<lambda>w. (Inr (), w\<lparr>w_jobs_failed := Suc (w_jobs_failed w)\<rparr>)) (\<lambda>_. settled_well d acts ans i) (\<lambda>_. settled_well d acts ans i)"
    by (auto simp: triple_always settled_well_def following_def rely_db_def job_done_def world_db_def)
  have "io_triple (unsettled d acts) (except_io F kv cfg i attempt delivery l e) (\<lambda>_. settled_well d acts ans i) (\<lambda>_. settled_well d acts ans i)"
    using True by (cases e) (auto simp: except_io_def caught_def intro!: triple_bind rec rel act count stand)
  then show ?thesis by (rule triple_conseq) (use True in \<open>auto simp: raised_well_def\<close>)
qed

lemma triple_weak:
  "io_triple P m (\<lambda>_. unsettled d acts) (\<lambda>_. unsettled d acts) \<Longrightarrow> io_triple P m (\<lambda>_. unsettled d acts) (\<lambda>_. settled_well d acts ans i)"
  by (erule triple_conseq) (auto intro: unsettled_well)

lemma triple_claim:
  fixes F kv ttl j delivery
  assumes "history_inv d"
  defines "claim \<equiv> try_claim_io F kv ttl j delivery"
  shows "io_triple (\<lambda>w. unsettled d acts w \<and> w = w0) claim
    (\<lambda>c w. unsettled d acts w \<and> (c = ALREADY_DONE \<longrightarrow> fst (claim w0) = Inr ALREADY_DONE)) (\<lambda>_. settled_well d acts (fst (claim w0) = Inr ALREADY_DONE) i)"
proof -
  have kept: "unsettled d acts w0 \<Longrightarrow> unsettled d acts (snd (claim w0))"
    using triple_guard(1) [OF assms(1)] unfolding triple_always claim_def by blast
  show ?thesis
    unfolding io_triple_def
  proof (intro conjI allI impI; elim conjE)
    fix w x w' assume "unsettled d acts w" "w = w0" "claim w = (Inr x, w')"
    then show "unsettled d acts w'" "x = ALREADY_DONE \<Longrightarrow> fst (claim w0) = Inr ALREADY_DONE" using kept by simp_all
  next
    fix w e w' assume "unsettled d acts w" "w = w0" "claim w = (Inl e, w')"
    then show "settled_well d acts (fst (claim w0) = Inr ALREADY_DONE) i w'"
      using unsettled_well [OF kept, of "fst (claim w0) = Inr ALREADY_DONE" i] by simp
  qed
qed

lemma triple_handle:
  assumes "history_inv d" "\<forall>e \<in> fault_exns F. \<not> caught e"
  shows "io_triple (\<lambda>w. unsettled d (w_actions w0) w \<and> w = w0) (handle_io F kv rt sleep cfg wid i payload attempt delivery)
    (\<lambda>_. settled_well d (w_actions w0) (fst (try_claim_io F kv (of_int (lease_ttl_s cfg)) (uuid_str i) delivery w0) = Inr ALREADY_DONE) i)
    (\<lambda>_. settled_well d (w_actions w0) (fst (try_claim_io F kv (of_int (lease_ttl_s cfg)) (uuid_str i) delivery w0) = Inr ALREADY_DONE) i)"
proof -
  let ?claim = "try_claim_io F kv (of_int (lease_ttl_s cfg)) (uuid_str i) delivery" and ?acts = "w_actions w0"
  let ?U = "unsettled d ?acts" and ?S = "settled_well d ?acts (fst (?claim w0) = Inr ALREADY_DONE) i"
  have act: "io_triple (\<lambda>w. ?U w \<and> (a = Ack \<longrightarrow> fst (?claim w0) = Inr ALREADY_DONE)) (act_io F a) (\<lambda>_. ?S) (\<lambda>_. ?S)" for a
    by (rule triple_conseq [OF triple_act [OF assms]]) auto
  then have nak: "io_triple ?U (act_io F (Nak x)) (\<lambda>_. ?S) (\<lambda>_. ?S)" for x using act [of "Nak x"] by simp
  note claim = triple_claim [OF assms(1), where F = F and kv = kv and ttl = "of_int (lease_ttl_s cfg)" and j = "uuid_str i" and
      delivery = delivery and acts = ?acts and ?w0.0 = w0 and i = i]
  have run: "io_triple ?U (io_finally (io_except (try_io F kv rt sleep cfg i p attempt delivery l) (except_io F kv cfg i attempt delivery l))
      (release_io F kv l)) (\<lambda>_. ?S) (\<lambda>_. ?S)" for p l
    unfolding release_io_def
    by (rule triple_finally [OF triple_except [OF triple_try [OF assms] triple_except_io [OF assms]] triple_kv(3) [OF assms(1)]])
  have busy: "io_triple ?U (io_bind (uniform_io 4 9) (\<lambda>x. act_io F (Nak x))) (\<lambda>_. ?S) (\<lambda>_. ?S)"
    by (rule triple_bind [OF triple_weak [OF triple_local(1) [OF assms(1)]] nak])
  note acq = triple_bind [OF triple_weak [OF triple_guard(2) [OF assms(1)]]] and rel = triple_bind [OF triple_weak [OF triple_guard(3) [OF assms(1)]]]
  have "io_triple ?U m (\<lambda>_. ?S) (\<lambda>_. ?S) \<Longrightarrow> io_triple (\<lambda>w. ?U w \<and> Q w) m (\<lambda>_. ?S) (\<lambda>_. ?S)" for m :: "('a, unit) io" and Q
    by (erule triple_conseq) auto
  note only = this
  show ?thesis
  proof (cases payload)
    case (JObj p)
    show ?thesis
    proof (cases "py_truthy (dict_get_none p ''poison'')")
      case True
      then show ?thesis using only [OF nak] by (simp add: handle_io_def JObj)
    next
      case False
      have leased: "io_triple ?U (io_bind (acquire_io F kv (of_int (lease_ttl_s cfg)) (uuid_str i) wid) (\<lambda>got.
          case got of None \<Rightarrow> io_bind (release_claim_io F kv (uuid_str i) delivery) (\<lambda>_. io_bind (uniform_io 4 9) (\<lambda>delay. act_io F (Nak delay)))
          | Some l \<Rightarrow> io_finally (io_except (try_io F kv rt sleep cfg i p attempt delivery l) (except_io F kv cfg i attempt delivery l))
              (release_io F kv l))) (\<lambda>_. ?S) (\<lambda>_. ?S)"
        by (rule acq) (auto intro: run rel busy split: option.split)
      show ?thesis
        unfolding handle_io_def JObj using False
        by (auto intro!: triple_bind [OF claim] leased busy act [of Ack, simplified] split: claim_result.split)
    qed
  qed (simp_all add: handle_io_def io_triple_def io_raise_def unsettled_well)
qed

lemma handle_io_settles:
  assumes "rely_db w" "history_inv (world_db w)" "\<forall>e \<in> fault_exns F. \<not> caught e"
  shows "settled_well (world_db w) (w_actions w)
    (fst (try_claim_io F kv (of_int (lease_ttl_s cfg)) (uuid_str i) delivery w) = Inr ALREADY_DONE) i
    (snd (handle_io F kv rt sleep cfg wid i payload attempt delivery w))"
  using triple_handle [OF assms(2,3), of w] assms(1) unfolding triple_always by (simp add: unsettled_def following_def)

section \<open>Properties\<close>

text \<open>C7: Whatever fails, nothing is lost: if any calls of the store, the database and the broker raise, before or
  after they took effect, and whatever the rest of the system does, then handling a delivery moves
  the database only by legal transactions, performs at most one action on the message, and
  acknowledges only when the done marker answered or the job is \<open>succeeded\<close>; and if it ends
  normally, then it did exactly what it does when no call can fail.\<close>

theorem faults_never_lose_a_job:
  assumes "rely_db w" and "reachable (world_db w)" and "\<forall>e \<in> fault_exns F. \<not> caught e"
    and "handle_io F kv rt sleep cfg wid i payload attempt delivery w = (out, w')"
  shows "db_steps (world_db w) (world_db w') \<and> reachable (world_db w') \<and>
    (\<exists>acts. w_actions w' = w_actions w @ acts \<and> length acts \<le> 1 \<and>
      (Ack \<in> set acts \<longrightarrow> fst (try_claim_io F kv (of_int (lease_ttl_s cfg)) (uuid_str i) delivery w) = Inr ALREADY_DONE \<or>
        (\<exists>row. find_job i (world_db w') = Some row \<and> jr_state row = job_state_value S_SUCCEEDED))) \<and>
    (out = Inr () \<longrightarrow> handle kv rt sleep cfg wid i payload attempt delivery w = (out, w'))"
proof (intro conjI impI)
  note well = handle_io_settles [OF assms(1) history_inv_reachable [OF assms(2)] assms(3), of kv cfg i delivery rt sleep wid payload attempt,
      unfolded assms(4) snd_conv]
  then show steps: "db_steps (world_db w) (world_db w')" by (simp add: settled_well_def following_def)
  then show "reachable (world_db w')" using assms(2) rtranclp_trans [of db_step] by blast
  show "\<exists>acts. w_actions w' = w_actions w @ acts \<and> length acts \<le> 1 \<and>
      (Ack \<in> set acts \<longrightarrow> fst (try_claim_io F kv (of_int (lease_ttl_s cfg)) (uuid_str i) delivery w) = Inr ALREADY_DONE \<or>
        (\<exists>row. find_job i (world_db w') = Some row \<and> jr_state row = job_state_value S_SUCCEEDED))"
    using well by (simp add: settled_well_def job_done_def)
next
  assume "out = Inr ()"
  with handle_io_normal [OF assms(3)] assms(4) show "handle kv rt sleep cfg wid i payload attempt delivery w = (out, w')" by simp
qed

text \<open>The answer to the acknowledgement of a finished job gets lost.\<close>

theorem faults_never_lose_a_job_witness:
  "\<exists>out w' acts. handle_io (\<lambda>n. if n = 8 then Some (Unanswered (BrokerError ''timeout'')) else None) mem_kv demo_runtime (\<lambda>d t. t + d) Settings
      ''w1'' 1 (JObj demo_payload) 1 ''w1:1'' demo_world = (out, w') \<and> w_actions w' = acts \<and> length acts \<le> 1 \<and> reachable (world_db w')"
proof -
  let ?F = "\<lambda>n :: nat. if n = 8 then Some (Unanswered (BrokerError ''timeout'')) else None"
  obtain out w' where run: "handle_io ?F mem_kv demo_runtime (\<lambda>d t. t + d) Settings ''w1'' 1 (JObj demo_payload) 1 ''w1:1'' demo_world = (out, w')"
    by fastforce
  have "reachable (world_db demo_world)" "\<forall>e \<in> fault_exns ?F. \<not> caught e"
    using demo_reachable by (auto simp: demo_world_rely fault_exns_def caught_def split: if_splits)
  from faults_never_lose_a_job [OF demo_world_rely(1) this run] run show ?thesis by (auto simp: demo_world_def)
qed

end
