(* ===== verification/Outage.thy ===== *)
theory Outage
  imports Faults Crash
begin

text \<open>
  Recovery from services that fail. When a call of \<^verbatim>\<open>handle\<close> raises, the exception leaves the worker, after the
  \<^verbatim>\<open>finally\<close> clause has tried to give the lease back. The state this leaves is one a killed worker may
  leave, with or without the lease, so the redelivery of the message brings the job to its end.
\<close>

section \<open>Runs with faults, point by point\<close>













section \<open>Properties\<close>



end
