(* ===== verification/Fleet.thy ===== *)
theory Fleet
  imports History
begin

text \<open>
  Several relays at once. \<^verbatim>\<open>relay_once\<close> is one transaction, but its publishes go out while the transaction is
  open, so relays interleave at the broker. Here a round is taken apart into the steps others can see:
  the \<^verbatim>\<open>SELECT\<close> that locks a batch and skips the rows others have locked, each publish, and the commit that marks
  the rows; a round may also end early, by a broker that raises or by the death of its process, which
  releases its locks. Any number of relays take such steps in any order, while the other services add
  rows to the outbox. The broker is only asked for what \<open>js_stores\<close> says, so a row whose round was
  interrupted may be stored again by the next one; \<open>fl_lost\<close> counts the interrupted rounds of each row.
\<close>

section \<open>The steps of the relays\<close>

record 'b fleet =
  fl_db :: db
  fl_broker :: 'b
  fl_rounds :: "nat \<Rightarrow> (outbox_row list \<times> outbox_row list) option"
  fl_lost :: "int \<Rightarrow> nat"

text \<open>An open round of a relay: its batch, and the rows of it still to be published. When a round ends early,
  each row it had begun to publish counts as lost once more.\<close>

definition begun :: "outbox_row list \<Rightarrow> outbox_row list \<Rightarrow> outbox_row list" where
  "begun batch todo = take (length batch - length todo) batch"

definition lose :: "outbox_row list \<Rightarrow> (int \<Rightarrow> nat) \<Rightarrow> int \<Rightarrow> nat" where
  "lose rows f i = f i + (if i \<in> ob_id ` set rows then 1 else 0)"

definition locked_rows :: "'b fleet \<Rightarrow> int set" where
  "locked_rows s = {ob_id row | row r batch todo. fl_rounds s r = Some (batch, todo) \<and> row \<in> set batch}"

inductive fleet_step :: "'b jetstream \<Rightarrow> 'c otel \<Rightarrow> py_runtime \<Rightarrow> settings \<Rightarrow> 'b fleet \<Rightarrow> 'b fleet \<Rightarrow> bool"
  for js tel rt cfg where
    selecting: "fl_rounds s r = None \<Longrightarrow> rows = relay_batch (relay_batch_size cfg) (locked_rows s) (fl_db s) \<Longrightarrow>
      fleet_step js tel rt cfg s (s\<lparr>fl_rounds := (fl_rounds s)(r \<mapsto> (rows, rows))\<rparr>)"
  | publishing: "fl_rounds s r = Some (batch, row # todo) \<Longrightarrow> relay_row js tel rt row (fl_broker s) = (Inr (), b) \<Longrightarrow>
      fleet_step js tel rt cfg s (s\<lparr>fl_broker := b, fl_rounds := (fl_rounds s)(r \<mapsto> (batch, todo))\<rparr>)"
  | raising: "fl_rounds s r = Some (batch, row # todo) \<Longrightarrow> relay_row js tel rt row (fl_broker s) = (Inl e, b) \<Longrightarrow>
      fleet_step js tel rt cfg s (s\<lparr>fl_broker := b, fl_rounds := (fl_rounds s)(r := None), fl_lost := lose (begun batch todo) (fl_lost s)\<rparr>)"
  | dying: "fl_rounds s r = Some (batch, todo) \<Longrightarrow>
      fleet_step js tel rt cfg s (s\<lparr>fl_rounds := (fl_rounds s)(r := None), fl_lost := lose (begun batch todo) (fl_lost s)\<rparr>)"
  | committing: "fl_rounds s r = Some (batch, []) \<Longrightarrow>
      fleet_step js tel rt cfg s (s\<lparr>fl_db := if batch \<noteq> [] then mark_published (map ob_id batch) (fl_db s) else fl_db s,
        fl_rounds := (fl_rounds s)(r := None)\<rparr>)"
  | other: "db_step (fl_db s) d \<Longrightarrow> outbox d = outbox (fl_db s) @ new \<Longrightarrow> fleet_step js tel rt cfg s (s\<lparr>fl_db := d\<rparr>)"

abbreviation fleet_steps :: "'b jetstream \<Rightarrow> 'c otel \<Rightarrow> py_runtime \<Rightarrow> settings \<Rightarrow> 'b fleet \<Rightarrow> 'b fleet \<Rightarrow> bool" where
  "fleet_steps js tel rt cfg \<equiv> (fleet_step js tel rt cfg)\<^sup>*\<^sup>*"

text \<open>A round nobody disturbs is \<^verbatim>\<open>relay_once\<close>.\<close>

lemma publish_all:
  assumes "relay_rows js tel rt todo b = (Inr (), b')"
  shows "fleet_steps js tel rt cfg \<lparr>fl_db = d, fl_broker = b, fl_rounds = f(r \<mapsto> (batch, todo)), fl_lost = l\<rparr>
    \<lparr>fl_db = d, fl_broker = b', fl_rounds = f(r \<mapsto> (batch, [])), fl_lost = l\<rparr>"
  using assms
proof (induction todo arbitrary: b)
  case (Cons row todo)
  then obtain b1 where b1: "relay_row js tel rt row b = (Inr (), b1)" "relay_rows js tel rt todo b1 = (Inr (), b')"
    by (auto split: prod.splits sum.splits)
  have "fleet_step js tel rt cfg \<lparr>fl_db = d, fl_broker = b, fl_rounds = f(r \<mapsto> (batch, row # todo)), fl_lost = l\<rparr>
      \<lparr>fl_db = d, fl_broker = b1, fl_rounds = f(r \<mapsto> (batch, todo)), fl_lost = l\<rparr>"
    using fleet_step.publishing [of "\<lparr>fl_db = d, fl_broker = b, fl_rounds = f(r \<mapsto> (batch, row # todo)), fl_lost = l\<rparr>" r batch row todo js tel rt b1 cfg] b1(1) by simp
  then show ?case using Cons.IH [OF b1(2)] by (rule converse_rtranclp_into_rtranclp)
qed simp

lemma relay_once_is_a_round:
  assumes "relay_once js tel rt cfg (locked_rows s) (fl_db s) (fl_broker s) = (Inr n, d, b)" "fl_rounds s r = None"
  shows "fleet_steps js tel rt cfg s (s\<lparr>fl_db := d, fl_broker := b\<rparr>)"
proof -
  define rows where "rows = relay_batch (relay_batch_size cfg) (locked_rows s) (fl_db s)"
  let ?on = "\<lambda>d b x. \<lparr>fl_db = d, fl_broker = b, fl_rounds = (fl_rounds s)(r \<mapsto> x), fl_lost = fl_lost s\<rparr>"
  have idle: "(fl_rounds s)(r := None) = fl_rounds s" using assms(2) by (simp add: fun_upd_idem)
  have run: "relay_rows js tel rt rows (fl_broker s) = (Inr (), b)" "d = (if rows \<noteq> [] then mark_published (map ob_id rows) (fl_db s) else fl_db s)"
    using assms(1) by (auto simp: relay_once_def rows_def Let_def split: if_splits prod.splits sum.splits)
  have "fleet_step js tel rt cfg s (?on (fl_db s) (fl_broker s) (rows, rows))"
    using fleet_step.selecting [OF assms(2) rows_def, of js tel rt] by (cases s) simp
  moreover have "fleet_steps js tel rt cfg (?on (fl_db s) (fl_broker s) (rows, rows)) (?on (fl_db s) b (rows, []))"
    by (rule publish_all [OF run(1)])
  moreover have "fleet_step js tel rt cfg (?on (fl_db s) b (rows, [])) \<lparr>fl_db = d, fl_broker = b, fl_rounds = fl_rounds s, fl_lost = fl_lost s\<rparr>"
    using fleet_step.committing [of "?on (fl_db s) b (rows, [])" r rows js tel rt cfg]
    by (cases "rows = []") (simp_all add: run(2) idle)
  moreover have "\<lparr>fl_db = d, fl_broker = b, fl_rounds = fl_rounds s, fl_lost = fl_lost s\<rparr> = s\<lparr>fl_db := d, fl_broker := b\<rparr>" by (cases s) simp
  ultimately show ?thesis by (metis converse_rtranclp_into_rtranclp rtranclp.rtrancl_into_rtrancl)
qed

section \<open>The invariant of the fleet\<close>

definition round_ok :: "db \<Rightarrow> stored_msg list \<Rightarrow> outbox_row list \<times> outbox_row list \<Rightarrow> bool" where
  "round_ok d ms = (\<lambda>(batch, todo). (\<exists>sent. batch = sent @ todo \<and> row_msg ` set sent \<subseteq> set ms) \<and>
     set batch \<subseteq> set (outbox d) \<and> distinct (map ob_id batch) \<and> (\<forall>row \<in> set batch. ob_published row = None))"

definition stream_ok :: "db \<Rightarrow> stored_msg list \<Rightarrow> bool" where
  "stream_ok d ms \<longleftrightarrow> set ms \<subseteq> row_msg ` set (outbox d) \<and>
     (\<forall>row \<in> set (outbox d). ob_published row \<noteq> None \<longrightarrow> row_msg row \<in> set ms)"

definition rounds_apart :: "(nat \<Rightarrow> (outbox_row list \<times> outbox_row list) option) \<Rightarrow> bool" where
  "rounds_apart f \<longleftrightarrow> (\<forall>r r' x x'. f r = Some x \<longrightarrow> f r' = Some x' \<longrightarrow> r \<noteq> r' \<longrightarrow> ob_id ` set (fst x) \<inter> ob_id ` set (fst x') = {})"

text \<open>How often a row's message is in the stream: once if it is marked or an open round has sent it, and
  once for each interrupted round.\<close>

definition row_count :: "int \<Rightarrow> stored_msg list \<Rightarrow> nat" where
  "row_count i ms = length (filter (\<lambda>m. sm_id m = ''outbox-'' @ int_str i) ms)"

definition sent_ids :: "(nat \<Rightarrow> (outbox_row list \<times> outbox_row list) option) \<Rightarrow> int set" where
  "sent_ids f = {ob_id row | row r batch todo. f r = Some (batch, todo) \<and> row \<in> set (begun batch todo)}"

definition marked_ids :: "db \<Rightarrow> int set" where
  "marked_ids d = ob_id ` {row \<in> set (outbox d). ob_published row \<noteq> None}"

definition counts_ok :: "db \<Rightarrow> stored_msg list \<Rightarrow> (nat \<Rightarrow> (outbox_row list \<times> outbox_row list) option) \<Rightarrow> (int \<Rightarrow> nat) \<Rightarrow> bool" where
  "counts_ok d ms f l \<longleftrightarrow> (\<forall>i. row_count i ms \<le> l i + (if i \<in> marked_ids d \<union> sent_ids f then 1 else 0))"

definition fleet_base :: "('b \<Rightarrow> stored_msg list) \<Rightarrow> 'b fleet \<Rightarrow> bool" where
  "fleet_base stored s \<longleftrightarrow> history_inv (fl_db s) \<and> stream_ok (fl_db s) (stored (fl_broker s)) \<and>
     (\<forall>r x. fl_rounds s r = Some x \<longrightarrow> round_ok (fl_db s) (stored (fl_broker s)) x) \<and> rounds_apart (fl_rounds s)"

definition fleet_ok :: "('b \<Rightarrow> stored_msg list) \<Rightarrow> 'b fleet \<Rightarrow> bool" where
  "fleet_ok stored s \<longleftrightarrow> fleet_base stored s \<and> counts_ok (fl_db s) (stored (fl_broker s)) (fl_rounds s) (fl_lost s)"

lemma outbox_row_unique:
  assumes "history_inv d" "row \<in> set (outbox d)" "row' \<in> set (outbox d)" "ob_id row = ob_id row'"
  shows "row = row'"
proof -
  have "distinct (map ob_id (outbox d))" using assms(1) by (simp add: history_inv_def db_inv_def ids_ok_def strict_sorted_iff)
  then show ?thesis using assms(2-4) by (auto simp: distinct_map dest: inj_onD)
qed

text \<open>Publishing a row of the outbox keeps the stream in order; a message with the row's id is the row's.\<close>

lemma stream_ok_there:
  assumes "history_inv d" "stream_ok d ms" "row \<in> set (outbox d)" "m \<in> set ms" "sm_id m = relay_msg_id row"
  shows "m = row_msg row"
proof -
  have "set ms \<subseteq> row_msg ` set (outbox d)" using assms(2) by (simp add: stream_ok_def)
  with assms(4) obtain row' where row': "row' \<in> set (outbox d)" "m = row_msg row'" by blast
  then have "row = row'" using assms(5) by (intro outbox_row_unique [OF assms(1,3)]) simp_all
  with row'(2) show ?thesis by simp
qed

text \<open>Rows come into the outbox unpublished.\<close>

lemma new_rows_unpublished:
  assumes "db_step d d'" "outbox d' = outbox d @ new" "row \<in> set new"
  shows "ob_published row = None"
  using assms(1)
proof (cases rule: db_step.cases)
  case (submitting i carrier key payload subject)
  then obtain out where "submit_job i carrier key payload subject d = (out, d')" by (metis prod.collapse)
  then show ?thesis using assms(2,3) by (cases rule: submit_job_cases) (auto simp: submitted_db_def insert_outbox_def)
next
  case (recording ev i a dt ft res)
  then obtain out where "record_event i ev a dt ft res d = (out, d')" by (metis prod.collapse)
  then show ?thesis using assms(2,3) by (cases rule: record_event_cases) auto
next
  case (replaying i subject)
  then obtain out where "replay_job i subject d = (out, d')" by (metis prod.collapse)
  then show ?thesis using assms(2,3) by (cases rule: replay_job_cases) (auto simp: insert_outbox_def)
next
  case (publishing ids)
  then have "length (outbox d') = length (outbox d)" by simp
  then show ?thesis using assms(2,3) by simp
next
  case (ticking t)
  then show ?thesis using assms(2,3) by simp
qed

lemma fleet_base_other:
  assumes "fleet_base stored s" "db_step (fl_db s) d" "outbox d = outbox (fl_db s) @ new"
  shows "fleet_base stored (s\<lparr>fl_db := d\<rparr>)"
proof -
  have "history_inv d" using history_inv_step [OF assms(2)] assms(1) by (simp add: fleet_base_def)
  moreover have "stream_ok d (stored (fl_broker s))"
    using assms(1) new_rows_unpublished [OF assms(2,3)] by (auto simp: fleet_base_def stream_ok_def assms(3))
  moreover have "round_ok d ms x" if "round_ok (fl_db s) ms x" for ms x
    using that by (auto simp: round_ok_def assms(3))
  ultimately show ?thesis using assms(1) by (simp add: fleet_base_def)
qed

lemma rounds_apart_drop: "rounds_apart f \<Longrightarrow> rounds_apart (f(r := None))"
  by (auto simp: rounds_apart_def)

lemma rounds_apart_add:
  assumes "rounds_apart f" "\<And>r' x. f r' = Some x \<Longrightarrow> r' \<noteq> r \<Longrightarrow> ob_id ` set batch \<inter> ob_id ` set (fst x) = {}"
  shows "rounds_apart (f(r \<mapsto> (batch, todo)))"
  unfolding rounds_apart_def
proof (intro allI impI)
  fix r1 r2 x1 x2
  assume "(f(r \<mapsto> (batch, todo))) r1 = Some x1" "(f(r \<mapsto> (batch, todo))) r2 = Some x2" "r1 \<noteq> r2"
  then consider "r1 = r" "x1 = (batch, todo)" "r2 \<noteq> r" "f r2 = Some x2" | "r2 = r" "x2 = (batch, todo)" "r1 \<noteq> r" "f r1 = Some x1"
    | "f r1 = Some x1" "f r2 = Some x2" by (cases "r1 = r"; cases "r2 = r") simp_all
  then show "ob_id ` set (fst x1) \<inter> ob_id ` set (fst x2) = {}"
  proof cases
    case 1
    then show ?thesis using assms(2) [of r2 x2] by simp
  next
    case 2
    then show ?thesis using assms(2) [of r1 x1] by (simp add: Int_commute)
  next
    case 3
    then show ?thesis using assms(1) \<open>r1 \<noteq> r2\<close> unfolding rounds_apart_def by blast
  qed
qed

lemma fleet_base_drop: "fleet_base stored s \<Longrightarrow> fleet_base stored (s\<lparr>fl_rounds := (fl_rounds s)(r := None), fl_lost := l\<rparr>)"
  by (auto simp: fleet_base_def rounds_apart_drop)

lemma relay_batch_distinct:
  assumes "history_inv d"
  shows "distinct (map ob_id (relay_batch n locked d))"
proof -
  have "distinct (map ob_id (outbox d))" using assms by (simp add: history_inv_def db_inv_def ids_ok_def strict_sorted_iff)
  then show ?thesis using relay_batch_selects(2) [OF _ refl] by (simp add: strict_sorted_iff)
qed

lemma fleet_base_select:
  assumes "fleet_base stored s" "rows = relay_batch n (locked_rows s) (fl_db s)"
  shows "fleet_base stored (s\<lparr>fl_rounds := (fl_rounds s)(r \<mapsto> (rows, rows))\<rparr>)"
proof -
  have "distinct (map ob_id rows)" using assms relay_batch_distinct by (simp add: fleet_base_def)
  then have "round_ok (fl_db s) ms (rows, rows)" for ms
    using set_relay_batch [of n "locked_rows s" "fl_db s"] relay_batch_unpublished [of _ n "locked_rows s" "fl_db s"] by (auto simp: round_ok_def assms(2))
  moreover have "ob_id ` set rows \<inter> ob_id ` set (fst x) = {}" if "fl_rounds s r' = Some x" for r' x
    using that relay_batch_unpublished [of _ n "locked_rows s" "fl_db s"] by (cases x) (fastforce simp: assms(2) locked_rows_def)
  then have "rounds_apart ((fl_rounds s)(r \<mapsto> (rows, rows)))"
    using assms(1) by (intro rounds_apart_add) (simp_all add: fleet_base_def)
  ultimately show ?thesis using assms(1) by (auto simp: fleet_base_def)
qed

lemma round_ok_more: "round_ok d ms x \<Longrightarrow> set ms \<subseteq> set ms' \<Longrightarrow> round_ok d ms' x"
  by (auto simp: round_ok_def)

lemma fleet_base_stream:
  assumes "fleet_base stored s" "stream_ok (fl_db s) (stored b)" "set (stored (fl_broker s)) \<subseteq> set (stored b)"
  shows "fleet_base stored (s\<lparr>fl_broker := b\<rparr>)"
  using assms round_ok_more by (fastforce simp: fleet_base_def)

lemma fleet_base_advance:
  assumes "fleet_base stored s" "fl_rounds s r = Some (batch, row # todo)" "row_msg row \<in> set (stored (fl_broker s))"
  shows "fleet_base stored (s\<lparr>fl_rounds := (fl_rounds s)(r \<mapsto> (batch, todo))\<rparr>)"
proof -
  have "round_ok (fl_db s) (stored (fl_broker s)) (batch, row # todo)" using assms(1,2) by (simp add: fleet_base_def)
  then obtain sent where "batch = (sent @ [row]) @ todo" "row_msg ` set (sent @ [row]) \<subseteq> set (stored (fl_broker s))"
      "set batch \<subseteq> set (outbox (fl_db s))" "distinct (map ob_id batch)" "\<forall>row \<in> set batch. ob_published row = None"
    using assms(3) by (auto simp: round_ok_def)
  then have "round_ok (fl_db s) (stored (fl_broker s)) (batch, todo)" unfolding round_ok_def by blast
  moreover have "ob_id ` set batch \<inter> ob_id ` set (fst x) = {}" if "fl_rounds s r' = Some x" "r' \<noteq> r" for r' x
    using that assms(1,2) unfolding fleet_base_def rounds_apart_def by (metis fst_conv)
  then have "rounds_apart ((fl_rounds s)(r \<mapsto> (batch, todo)))" using assms(1) by (intro rounds_apart_add) (simp_all add: fleet_base_def)
  ultimately show ?thesis using assms(1) by (auto simp: fleet_base_def)
qed

lemma fleet_base_commit:
  assumes "fleet_base stored s" "fl_rounds s r = Some (batch, [])"
  shows "fleet_base stored (s\<lparr>fl_db := mark_published (map ob_id batch) (fl_db s), fl_rounds := (fl_rounds s)(r := None)\<rparr>)"
proof -
  let ?d = "fl_db s" and ?ms = "stored (fl_broker s)"
  let ?d' = "mark_published (map ob_id batch) ?d"
  have rd: "row_msg ` set batch \<subseteq> set ?ms" "set batch \<subseteq> set (outbox ?d)"
    using assms by (fastforce simp: fleet_base_def round_ok_def)+
  have inv: "history_inv ?d" "stream_ok ?d ?ms" using assms(1) by (simp_all add: fleet_base_def)
  have rows: "set (outbox ?d') = (\<lambda>x. if ob_id x \<in> ob_id ` set batch then x\<lparr>ob_published := Some (db_now ?d)\<rparr> else x) ` set (outbox ?d)"
    by (simp add: mark_published_def set_update_where)
  have "history_inv ?d'" using history_inv_step [OF db_step.publishing inv(1)] .
  moreover have "stream_ok ?d' ?ms"
  proof -
    have "row_msg ` set (outbox ?d') = row_msg ` set (outbox ?d)" unfolding rows image_image by (rule image_cong) auto
    moreover have "row_msg row \<in> set ?ms" if row: "row \<in> set (outbox ?d)" "ob_id row \<in> ob_id ` set batch" for row
    proof -
      obtain row' where "row' \<in> set batch" "ob_id row = ob_id row'" using row(2) by auto
      moreover from this rd(2) have "row = row'" by (intro outbox_row_unique [OF inv(1) row(1)]) auto
      ultimately show ?thesis using rd(1) by auto
    qed
    ultimately show ?thesis using inv(2) unfolding stream_ok_def rows by auto
  qed
  moreover have "round_ok ?d' ?ms x" if x: "fl_rounds s r' = Some x" "r' \<noteq> r" for r' x
  proof -
    have apart: "ob_id ` set (fst x) \<inter> ob_id ` set batch = {}"
      using assms x unfolding fleet_base_def rounds_apart_def by (metis fst_conv)
    have ok: "round_ok ?d ?ms x" using assms(1) x unfolding fleet_base_def by blast
    have "row \<in> set (outbox ?d')" if row: "row \<in> set (fst x)" for row
    proof -
      have "ob_id row \<notin> ob_id ` set batch" using apart row by blast
      moreover have "row \<in> set (outbox ?d)" using ok row by (auto simp: round_ok_def)
      ultimately show ?thesis unfolding rows by (intro image_eqI [of _ _ row]) simp_all
    qed
    then have "set (fst x) \<subseteq> set (outbox ?d')" by blast
    with ok show ?thesis unfolding round_ok_def by (simp add: case_prod_beta)
  qed
  ultimately show ?thesis using assms(1) by (auto simp: fleet_base_def rounds_apart_drop)
qed

section \<open>Counting the messages of a row\<close>

lemma begun_simps [simp]: "begun (sent @ todo) todo = sent" "begun batch batch = []" "begun batch [] = batch"
  "begun (sent @ row # todo) todo = sent @ [row]"
  by (simp_all add: begun_def Suc_diff_le)

lemma row_count_append: "row_count i (ms @ [row_msg row]) = row_count i ms + (if i = ob_id row then 1 else 0)"
  by (auto simp: row_count_def row_msg_def relay_msg_id_def)

lemma sent_idsI: "f r = Some (batch, todo) \<Longrightarrow> row \<in> set (begun batch todo) \<Longrightarrow> ob_id row \<in> sent_ids f"
  by (auto simp: sent_ids_def)

lemma sent_idsE:
  assumes "i \<in> sent_ids f"
  obtains r batch todo row where "f r = Some (batch, todo)" "row \<in> set (begun batch todo)" "i = ob_id row"
  using assms unfolding sent_ids_def by blast

lemma sent_ids_close:
  assumes "f r = Some (batch, todo)"
  shows "sent_ids f \<subseteq> sent_ids (f(r := None)) \<union> ob_id ` set (begun batch todo)"
proof
  fix i
  assume "i \<in> sent_ids f"
  then show "i \<in> sent_ids (f(r := None)) \<union> ob_id ` set (begun batch todo)"
  proof (cases rule: sent_idsE)
    case (1 r' batch' todo' row)
    then show ?thesis using assms sent_idsI [of "f(r := None)" r' batch' todo' row] by (cases "r' = r") auto
  qed
qed

lemma sent_ids_open:
  assumes "f r = None"
  shows "sent_ids f \<subseteq> sent_ids (f(r \<mapsto> x))"
proof
  fix i
  assume "i \<in> sent_ids f"
  then show "i \<in> sent_ids (f(r \<mapsto> x))"
  proof (cases rule: sent_idsE)
    case (1 r' batch' todo' row)
    then show ?thesis using assms sent_idsI [of "f(r \<mapsto> x)" r' batch' todo' row] by (cases "r' = r") auto
  qed
qed

lemma counts_ok_mono:
  assumes "counts_ok d ms f l" "marked_ids d \<union> sent_ids f \<subseteq> marked_ids d' \<union> sent_ids f'"
  shows "counts_ok d' ms f' l"
  unfolding counts_ok_def
proof
  fix i
  have "row_count i ms \<le> l i + (if i \<in> marked_ids d \<union> sent_ids f then 1 else 0)" using assms(1) by (simp add: counts_ok_def)
  also have "\<dots> \<le> l i + (if i \<in> marked_ids d' \<union> sent_ids f' then 1 else 0)" using subsetD [OF assms(2), of i] by (auto simp del: Un_iff)
  finally show "row_count i ms \<le> l i + (if i \<in> marked_ids d' \<union> sent_ids f' then 1 else 0)" .
qed

text \<open>A row an open round is about to publish is neither marked nor sent by any open round.\<close>

lemma next_row_new:
  assumes "fleet_base stored s" "fl_rounds s r = Some (batch, row # todo)"
  shows "ob_id row \<notin> marked_ids (fl_db s) \<union> sent_ids (fl_rounds s)"
proof -
  have ok: "history_inv (fl_db s)" "round_ok (fl_db s) (stored (fl_broker s)) (batch, row # todo)" "rounds_apart (fl_rounds s)"
    using assms by (simp_all add: fleet_base_def)
  then obtain sent where sent: "batch = sent @ row # todo" by (auto simp: round_ok_def)
  have row: "row \<in> set (outbox (fl_db s))" "ob_published row = None" "ob_id row \<notin> ob_id ` set sent"
    using ok(2) sent by (auto simp: round_ok_def)
  have "ob_id row \<notin> marked_ids (fl_db s)"
  proof
    assume "ob_id row \<in> marked_ids (fl_db s)"
    then obtain row' where "row' \<in> set (outbox (fl_db s))" "ob_published row' \<noteq> None" "ob_id row = ob_id row'" by (auto simp: marked_ids_def)
    with outbox_row_unique [OF ok(1) row(1)] row(2) show False by metis
  qed
  moreover have "ob_id row \<noteq> ob_id row'" if other: "fl_rounds s r' = Some (batch', todo')" "row' \<in> set (begun batch' todo')" for r' batch' todo' row'
  proof (cases "r' = r")
    case True
    then show ?thesis using other assms(2) row(3) sent by auto
  next
    case False
    have "row' \<in> set batch'" using other(2) by (auto simp: begun_def dest: in_set_takeD)
    moreover have "ob_id ` set batch \<inter> ob_id ` set batch' = {}"
      using ok(3) assms(2) other(1) False unfolding rounds_apart_def by (metis fst_conv)
    ultimately show ?thesis using sent by auto
  qed
  ultimately show ?thesis by (auto simp: sent_ids_def)
qed

lemma counts_publish:
  assumes "fleet_base stored s" "fl_rounds s r = Some (batch, row # todo)"
    "counts_ok (fl_db s) (stored (fl_broker s)) (fl_rounds s) l" "ms \<in> {stored (fl_broker s), stored (fl_broker s) @ [row_msg row]}"
  shows "counts_ok (fl_db s) ms ((fl_rounds s)(r \<mapsto> (batch, todo))) l"
proof -
  let ?f = "fl_rounds s" and ?f' = "(fl_rounds s)(r \<mapsto> (batch, todo))"
  have "round_ok (fl_db s) (stored (fl_broker s)) (batch, row # todo)" using assms(1,2) by (simp add: fleet_base_def)
  then obtain sent where sent: "batch = sent @ row # todo" by (auto simp: round_ok_def)
  have now: "ob_id row \<in> sent_ids ?f'" using sent by (intro sent_idsI [of _ r batch todo]) simp_all
  have more: "sent_ids ?f \<subseteq> sent_ids ?f'"
  proof
    fix i
    assume "i \<in> sent_ids ?f"
    then show "i \<in> sent_ids ?f'"
    proof (cases rule: sent_idsE)
      case (1 r' batch' todo' row')
      then show ?thesis using assms(2) sent sent_idsI [of ?f' r' batch' todo' row'] sent_idsI [of ?f' r batch todo row'] by (cases "r' = r") auto
    qed
  qed
  show ?thesis unfolding counts_ok_def
  proof
    fix i
    have old: "row_count i (stored (fl_broker s)) \<le> l i + (if i \<in> marked_ids (fl_db s) \<union> sent_ids ?f then 1 else 0)"
      using assms(3) by (simp add: counts_ok_def)
    show "row_count i ms \<le> l i + (if i \<in> marked_ids (fl_db s) \<union> sent_ids ?f' then 1 else 0)"
    proof (cases "i = ob_id row")
      case True
      then have "row_count i ms \<le> row_count i (stored (fl_broker s)) + 1" using assms(4) by (auto simp: row_count_append)
      then show ?thesis using old next_row_new [OF assms(1,2)] now True by simp
    next
      case False
      then have "row_count i ms = row_count i (stored (fl_broker s))" using assms(4) by (auto simp: row_count_append)
      with old more show ?thesis by (auto split: if_splits)
    qed
  qed
qed

lemma counts_lose:
  assumes "counts_ok d ms f l" "f r = Some (batch, todo)"
  shows "counts_ok d ms (f(r := None)) (lose (begun batch todo) l)"
  unfolding counts_ok_def
proof
  fix i
  have "row_count i ms \<le> l i + (if i \<in> marked_ids d \<union> sent_ids f then 1 else 0)" using assms(1) by (simp add: counts_ok_def)
  with sent_ids_close [of f r batch todo, OF assms(2)]
  show "row_count i ms \<le> lose (begun batch todo) l i + (if i \<in> marked_ids d \<union> sent_ids (f(r := None)) then 1 else 0)"
    by (auto simp: lose_def split: if_splits)
qed

lemma counts_commit:
  assumes "counts_ok d ms f l" "f r = Some (batch, [])" "set batch \<subseteq> set (outbox d)"
  shows "counts_ok (mark_published (map ob_id batch) d) ms (f(r := None)) l"
proof -
  have "sent_ids f \<subseteq> sent_ids (f(r := None)) \<union> ob_id ` set batch" using sent_ids_close [of f r batch "[]", OF assms(2)] by simp
  moreover have "marked_ids d \<union> ob_id ` set batch \<subseteq> marked_ids (mark_published (map ob_id batch) d)"
  proof
    fix i
    assume "i \<in> marked_ids d \<union> ob_id ` set batch"
    then obtain row where row: "row \<in> set (outbox d)" "i = ob_id row" "ob_published row \<noteq> None \<or> ob_id row \<in> ob_id ` set batch"
      using assms(3) by (auto simp: marked_ids_def)
    let ?row = "if ob_id row \<in> ob_id ` set batch then row\<lparr>ob_published := Some (db_now d)\<rparr> else row"
    have "?row \<in> set (outbox (mark_published (map ob_id batch) d))" using row(1) by (auto simp: mark_published_def set_update_where)
    moreover have "ob_published ?row \<noteq> None" "ob_id ?row = i" using row(2,3) by auto
    ultimately show "i \<in> marked_ids (mark_published (map ob_id batch) d)" unfolding marked_ids_def by blast
  qed
  ultimately show ?thesis by (intro counts_ok_mono [OF assms(1)]) blast
qed

context js_stores
begin

lemma fleet_base_send:
  assumes "carrier_keeps_id tel" "fleet_base stored s" "fl_rounds s r = Some (batch, row # todo)" "relay_row js tel rt row (fl_broker s) = (out, b)"
  shows "fleet_base stored (s\<lparr>fl_broker := b\<rparr>)" "out = Inr () \<Longrightarrow> row_msg row \<in> set (stored b)"
    "stored b \<in> {stored (fl_broker s), stored (fl_broker s) @ [row_msg row]}"
proof -
  have "round_ok (fl_db s) (stored (fl_broker s)) (batch, row # todo)" using assms(2,3) by (simp add: fleet_base_def)
  then have row: "row \<in> set (outbox (fl_db s))" by (auto simp: round_ok_def)
  have ok: "history_inv (fl_db s)" "stream_ok (fl_db s) (stored (fl_broker s))" using assms(2) by (simp_all add: fleet_base_def)
  note sent = relay_row_stores [OF assms(1,4)]
  then show new: "stored b \<in> {stored (fl_broker s), stored (fl_broker s) @ [row_msg row]}" by blast
  then have "stream_ok (fl_db s) (stored b)" using ok(2) row by (auto simp: stream_ok_def)
  then show "fleet_base stored (s\<lparr>fl_broker := b\<rparr>)" using new by (intro fleet_base_stream [OF assms(2)]) auto
  show "row_msg row \<in> set (stored b)" if "out = Inr ()"
    using sent that stream_ok_there [OF ok row] by fastforce
qed

lemma fleet_base_step:
  assumes "fleet_step js tel rt cfg s s'" "carrier_keeps_id tel" "fleet_base stored s"
  shows "fleet_base stored s'"
  using assms(1)
proof (cases rule: fleet_step.cases)
  case (selecting r rows)
  then show ?thesis using fleet_base_select [OF assms(3)] by simp
next
  case (publishing r batch row todo b)
  have "fleet_base stored (s\<lparr>fl_broker := b\<rparr>)" "row_msg row \<in> set (stored b)"
    using fleet_base_send [OF assms(2,3) publishing(2,3)] by simp_all
  then show ?thesis using fleet_base_advance [of stored "s\<lparr>fl_broker := b\<rparr>" r batch row todo] publishing by simp
next
  case (raising r batch row todo e b)
  show ?thesis using fleet_base_drop [OF fleet_base_send(1) [OF assms(2,3) raising(2,3)], of _ r] raising(1) by simp
next
  case (dying r batch todo)
  then show ?thesis using fleet_base_drop [OF assms(3)] by simp
next
  case (committing r batch)
  then show ?thesis using fleet_base_commit [OF assms(3) committing(2)] fleet_base_drop [OF assms(3), of "fl_lost s" r] by simp
next
  case (other d new)
  then show ?thesis using fleet_base_other [OF assms(3)] by simp
qed

lemma counts_step:
  assumes "fleet_step js tel rt cfg s s'" "carrier_keeps_id tel" "fleet_base stored s"
    "counts_ok (fl_db s) (stored (fl_broker s)) (fl_rounds s) (fl_lost s)"
  shows "counts_ok (fl_db s') (stored (fl_broker s')) (fl_rounds s') (fl_lost s')"
  using assms(1)
proof (cases rule: fleet_step.cases)
  case (selecting r rows)
  have "counts_ok (fl_db s) (stored (fl_broker s)) ((fl_rounds s)(r \<mapsto> (rows, rows))) (fl_lost s)"
    using sent_ids_open [of "fl_rounds s" r "(rows, rows)", OF selecting(2)] by (intro counts_ok_mono [OF assms(4)]) blast
  then show ?thesis using selecting(1) by simp
next
  case (publishing r batch row todo b)
  then show ?thesis using counts_publish [OF assms(3) publishing(2) assms(4) fleet_base_send(3) [OF assms(2,3) publishing(2,3)]] by simp
next
  case (raising r batch row todo e b)
  note sent = counts_publish [OF assms(3) raising(2) assms(4) fleet_base_send(3) [OF assms(2,3) raising(2,3)]]
  show ?thesis using counts_lose [OF sent, of r batch todo] raising(1) by simp
next
  case (dying r batch todo)
  then show ?thesis using counts_lose [OF assms(4) dying(2)] by simp
next
  case (committing r batch)
  have "round_ok (fl_db s) (stored (fl_broker s)) (batch, [])" using assms(3) committing(2) by (simp add: fleet_base_def)
  then have "set batch \<subseteq> set (outbox (fl_db s))" by (simp add: round_ok_def)
  moreover have "mark_published [] (fl_db s) = fl_db s" by (simp add: mark_published_def update_where_none)
  ultimately show ?thesis using counts_commit [OF assms(4) committing(2)] committing(1) by (cases "batch = []") simp_all
next
  case (other d new)
  have "marked_ids d = marked_ids (fl_db s)" using new_rows_unpublished [OF other(2,3)] by (auto simp: marked_ids_def other(3))
  then show ?thesis using assms(4) other(1) by (simp add: counts_ok_def)
qed

lemma fleet_ok_steps: "fleet_steps js tel rt cfg s s' \<Longrightarrow> carrier_keeps_id tel \<Longrightarrow> fleet_ok stored s \<Longrightarrow> fleet_ok stored s'"
  by (induction rule: rtranclp_induct) (auto simp: fleet_ok_def intro: fleet_base_step counts_step)

end

section \<open>Properties\<close>

text \<open>C23: A fleet of relays publishes every row, and more than once only after an interruption: starting
  with an outbox nothing of which has been published and an empty stream, however many relays
  interleave their selects, publishes and commits, die or are refused by the broker in between, and
  whatever rows arrive meanwhile, the stream holds only messages of rows; a row is in it at most once
  more than rounds that had begun to publish it were interrupted before their commit, and at least once
  if it is marked as published; and no two open rounds share a row. Nothing is assumed of how long the
  broker remembers a message id.\<close>

theorem relay_fleet_publishes_every_row:
  assumes "carrier_keeps_id tel" and "js_stores js stored" and "reachable (fl_db s)" and "fl_rounds s = (\<lambda>_. None)"
    and "\<forall>row \<in> set (outbox (fl_db s)). ob_published row = None" and "stored (fl_broker s) = []" and "fl_lost s = (\<lambda>_. 0)"
    and "fleet_steps js tel rt cfg s s'"
  shows "set (stored (fl_broker s')) \<subseteq> row_msg ` set (outbox (fl_db s')) \<and>
    (\<forall>row \<in> set (outbox (fl_db s')). \<exists>n. filter (\<lambda>m. sm_id m = relay_msg_id row) (stored (fl_broker s')) = replicate n (row_msg row) \<and>
      n \<le> fl_lost s' (ob_id row) + 1 \<and> (ob_published row \<noteq> None \<longrightarrow> 1 \<le> n)) \<and>
    (\<forall>r r' batch todo batch' todo'. fl_rounds s' r = Some (batch, todo) \<longrightarrow> fl_rounds s' r' = Some (batch', todo') \<longrightarrow> r \<noteq> r' \<longrightarrow>
      ob_id ` set batch \<inter> ob_id ` set batch' = {})"
proof -
  let ?ms = "stored (fl_broker s')" and ?d = "fl_db s'"
  have "row_count i [] = 0" for i by (simp add: row_count_def)
  then have "fleet_ok stored s" using assms(4-7) history_inv_reachable [OF assms(3)]
    by (simp add: fleet_ok_def fleet_base_def stream_ok_def rounds_apart_def counts_ok_def)
  from js_stores.fleet_ok_steps [OF assms(2,8,1) this] have ok: "history_inv ?d" "stream_ok ?d ?ms" "rounds_apart (fl_rounds s')"
      "counts_ok ?d ?ms (fl_rounds s') (fl_lost s')"
    by (simp_all add: fleet_ok_def fleet_base_def)
  have "\<exists>n. filter (\<lambda>m. sm_id m = relay_msg_id row) ?ms = replicate n (row_msg row) \<and> n \<le> fl_lost s' (ob_id row) + 1 \<and>
      (ob_published row \<noteq> None \<longrightarrow> 1 \<le> n)" if row: "row \<in> set (outbox ?d)" for row
  proof -
    let ?xs = "filter (\<lambda>m. sm_id m = relay_msg_id row) ?ms"
    have "?xs = replicate (length ?xs) (row_msg row)"
      using stream_ok_there [OF ok(1,2) row] by (intro replicate_length_same [symmetric]) auto
    moreover have "length ?xs = row_count (ob_id row) ?ms" by (simp add: row_count_def relay_msg_id_def)
    then have "length ?xs \<le> fl_lost s' (ob_id row) + 1"
      using spec [OF ok(4) [unfolded counts_ok_def], of "ob_id row"] by (auto split: if_splits)
    moreover have "row_msg row \<in> set ?xs" if "ob_published row \<noteq> None" using that ok(2) row by (auto simp: stream_ok_def)
    then have "ob_published row \<noteq> None \<longrightarrow> ?xs \<noteq> []" by (metis empty_iff empty_set)
    then have "ob_published row \<noteq> None \<longrightarrow> 1 \<le> length ?xs" by (simp add: Suc_le_eq)
    ultimately show ?thesis by blast
  qed
  with ok(2,3) show ?thesis by (auto simp: stream_ok_def rounds_apart_def)
qed

definition demo_fleet :: "ref_broker fleet" where
  "demo_fleet = \<lparr>fl_db = demo_db, fl_broker = ref_broker0 0, fl_rounds = (\<lambda>_. None), fl_lost = (\<lambda>_. 0)\<rparr>"

theorem relay_fleet_publishes_every_row_witness:
  "\<exists>s' row. fleet_steps ref_js demo_otel demo_runtime Settings demo_fleet s' \<and> outbox (fl_db s') = [row] \<and>
     ob_published row \<noteq> None \<and> rb_msgs (fl_broker s') = [row_msg row]"
proof -
  have free: "locked_rows demo_fleet = {}" by (simp add: locked_rows_def demo_fleet_def)
  obtain b where run: "relay_once ref_js demo_otel demo_runtime Settings {} demo_db (ref_broker0 0) = (Inr 1, mark_published [1] demo_db, b)"
    by (rule demo_relay_once)
  let ?s' = "demo_fleet\<lparr>fl_db := mark_published [1] demo_db, fl_broker := b\<rparr>"
  have steps: "fleet_steps ref_js demo_otel demo_runtime Settings demo_fleet ?s'"
    using relay_once_is_a_round [of ref_js demo_otel demo_runtime Settings demo_fleet 1 "mark_published [1] demo_db" b 0] run free
    by (simp add: demo_fleet_def)
  define row where "row = (hd (outbox demo_db))\<lparr>ob_published := Some (db_now demo_db)\<rparr>"
  have rows: "outbox (fl_db ?s') = [row]" "ob_published row \<noteq> None"
    by (simp_all add: mark_published_def demo_db_outbox row_def update_where_def)
  have start: "reachable (fl_db demo_fleet)" "fl_rounds demo_fleet = (\<lambda>_. None)"
      "\<forall>row \<in> set (outbox (fl_db demo_fleet)). ob_published row = None" "rb_msgs (fl_broker demo_fleet) = []" "fl_lost demo_fleet = (\<lambda>_. 0)"
    using demo_reachable by (simp_all add: demo_fleet_def demo_db_outbox ref_broker0_def)
  note once = relay_fleet_publishes_every_row [OF demo_otel_keeps ref_js_stores start steps]
  have "fl_lost ?s' (ob_id row) = 0" by (simp add: demo_fleet_def)
  then have sent: "filter (\<lambda>m. sm_id m = relay_msg_id row) (rb_msgs b) = [row_msg row]" using once rows by (auto simp: le_Suc_eq)
  have "set (rb_msgs b) \<subseteq> {row_msg row}" using once rows by simp
  then have "filter (\<lambda>m. sm_id m = relay_msg_id row) (rb_msgs b) = rb_msgs b" by (intro filter_True) auto
  with sent have "rb_msgs (fl_broker ?s') = [row_msg row]" by simp
  with steps rows show ?thesis by blast
qed

end
