(* ===== verification/Requests.thy ===== *)
theory Requests
  imports Api
begin

text \<open>
  Concurrent submissions. The handler of \<^verbatim>\<open>POST /jobs\<close> gives up control at one point, the transaction it
  awaits. Here a request is taken apart there: it is admitted or refused, and later its transaction ends,
  or fails before or after its commit, and the \<^verbatim>\<open>finally\<close> clause gives the place back. Any number of
  requests, with any keys, take such steps in any order, while the rest of the system works on the
  database.
\<close>

section \<open>The steps of the requests\<close>

text \<open>What the handler does once the awaited transaction has ended, with its result or its exception.\<close>

definition submit_tail :: "exn + uuid \<times> bool \<Rightarrow> 'n app_state \<Rightarrow> (exn + int \<times> submit_response) \<times> 'n app_state" where
  "submit_tail submitted a =
     (let (released, adm) = adm_release (app_admission a); a1 = a\<lparr>app_admission := adm\<rparr> in
      case released of
        Inl e \<Rightarrow> (Inl e, a1)
      | Inr _ \<Rightarrow>
          (case submitted of
             Inl e \<Rightarrow> (Inl e, a1)
           | Inr (job_id, created) \<Rightarrow>
               (Inr (if created then 201 else 200, \<lparr>rs_id = uuid_str job_id, rs_state = ''queued'', rs_created = created\<rparr>),
                a1\<lparr>app_submitted := app_submitted a1 @ [created]\<rparr>)))"

definition refusal :: "admission \<Rightarrow> exn" where
  "refusal adm = HTTPException 429 ''submission capacity exceeded; retry later'' [(''Retry-After'', int_str (retry_after_s adm))]"

record 'n server =
  sv_app :: "'n app_state"
  sv_open :: "nat \<rightharpoonup> string \<times> submit_request"
  sv_answers :: "(string \<times> (exn + int \<times> submit_response)) list"

inductive server_step :: "settings \<Rightarrow> 'n server \<Rightarrow> 'n server \<Rightarrow> bool" for cfg where
    refusing: "try_acquire (app_admission (sv_app s)) = (False, adm) \<Longrightarrow>
      server_step cfg s (s\<lparr>sv_app := (sv_app s)\<lparr>app_admission := adm, app_rejected := app_rejected (sv_app s) + 1\<rparr>,
        sv_answers := sv_answers s @ [(key, Inl (refusal adm))]\<rparr>)"
  | admitting: "sv_open s r = None \<Longrightarrow> try_acquire (app_admission (sv_app s)) = (True, adm) \<Longrightarrow>
      server_step cfg s (s\<lparr>sv_app := (sv_app s)\<lparr>app_admission := adm\<rparr>, sv_open := (sv_open s)(r \<mapsto> (key, body))\<rparr>)"
  | answering: "sv_open s r = Some (key, body) \<Longrightarrow>
      submit_job fresh carrier key (model_dump body) (subject_jobs cfg) (app_db (sv_app s)) = (submitted, d) \<Longrightarrow>
      submit_tail submitted ((sv_app s)\<lparr>app_db := d\<rparr>) = (out, a) \<Longrightarrow>
      server_step cfg s (s\<lparr>sv_app := a, sv_open := (sv_open s)(r := None), sv_answers := sv_answers s @ [(key, out)]\<rparr>)"
  | failing: "sv_open s r = Some (key, body) \<Longrightarrow>
      d \<in> {app_db (sv_app s), snd (submit_job fresh carrier key (model_dump body) (subject_jobs cfg) (app_db (sv_app s)))} \<Longrightarrow>
      submit_tail (Inl e) ((sv_app s)\<lparr>app_db := d\<rparr>) = (out, a) \<Longrightarrow>
      server_step cfg s (s\<lparr>sv_app := a, sv_open := (sv_open s)(r := None), sv_answers := sv_answers s @ [(key, out)]\<rparr>)"
  | other: "db_step (app_db (sv_app s)) d \<Longrightarrow> server_step cfg s (s\<lparr>sv_app := (sv_app s)\<lparr>app_db := d\<rparr>\<rparr>)"

abbreviation server_steps :: "settings \<Rightarrow> 'n server \<Rightarrow> 'n server \<Rightarrow> bool" where
  "server_steps cfg \<equiv> (server_step cfg)\<^sup>*\<^sup>*"

text \<open>The handler is an admission, what the others do meanwhile, and the transaction with its tail.\<close>

lemma api_submit_split:
  "api_submit cfg fresh carrier others body key a =
     (case try_acquire (app_admission a) of
        (False, adm) \<Rightarrow> (Inl (refusal adm), a\<lparr>app_admission := adm, app_rejected := app_rejected a + 1\<rparr>)
      | (True, adm) \<Rightarrow>
          (let a1 = others (a\<lparr>app_admission := adm\<rparr>);
               (submitted, d) = submit_job fresh carrier key (model_dump body) (subject_jobs cfg) (app_db a1)
           in submit_tail submitted (a1\<lparr>app_db := d\<rparr>)))"
  by (simp add: api_submit_def submit_tail_def refusal_def Let_def split: prod.splits bool.splits sum.splits)

lemma api_submit_is_a_request:
  assumes "api_submit cfg fresh carrier others body key (sv_app s) = (out, a)" "sv_open s r = None"
    and "\<And>adm. try_acquire (app_admission (sv_app s)) = (True, adm) \<Longrightarrow>
      server_steps cfg (s\<lparr>sv_app := (sv_app s)\<lparr>app_admission := adm\<rparr>, sv_open := (sv_open s)(r \<mapsto> (key, body))\<rparr>)
        (s\<lparr>sv_app := others ((sv_app s)\<lparr>app_admission := adm\<rparr>), sv_open := (sv_open s)(r \<mapsto> (key, body))\<rparr>)"
  shows "server_steps cfg s (s\<lparr>sv_app := a, sv_answers := sv_answers s @ [(key, out)]\<rparr>)"
proof -
  obtain ok adm where adm: "try_acquire (app_admission (sv_app s)) = (ok, adm)" by fastforce
  show ?thesis
  proof (cases ok)
    case False
    then show ?thesis
      using assms(1) adm server_step.refusing [of s adm cfg key] by (auto simp: api_submit_split)
  next
    case True
    let ?a1 = "others ((sv_app s)\<lparr>app_admission := adm\<rparr>)"
    let ?s1 = "s\<lparr>sv_app := ?a1, sv_open := (sv_open s)(r \<mapsto> (key, body))\<rparr>"
    obtain submitted d where sub: "submit_job fresh carrier key (model_dump body) (subject_jobs cfg) (app_db ?a1) = (submitted, d)"
      by fastforce
    then have tail: "submit_tail submitted (?a1\<lparr>app_db := d\<rparr>) = (out, a)" using assms(1) adm True by (simp add: api_submit_split)
    have idle: "(sv_open s)(r := None) = sv_open s" using assms(2) by (simp add: fun_upd_idem)
    have "server_step cfg ?s1 (s\<lparr>sv_app := a, sv_answers := sv_answers s @ [(key, out)]\<rparr>)"
      using server_step.answering [of ?s1 r key body fresh carrier cfg submitted d out a] sub tail by (simp add: idle)
    moreover have "server_steps cfg s ?s1"
      using server_step.admitting [OF assms(2), of adm cfg key body] adm True assms(3) by (auto intro: converse_rtranclp_into_rtranclp)
    ultimately show ?thesis by (rule rtranclp.rtrancl_into_rtrancl [rotated])
  qed
qed

section \<open>The invariant of the server\<close>

definition key_job :: "db \<Rightarrow> string \<Rightarrow> uuid option" where
  "key_job d key = map_option jr_id (find (\<lambda>r. jr_key r = key) (jobs d))"

text \<open>The place of every open request is counted, and only theirs.\<close>

definition places_ok :: "'n server \<Rightarrow> bool" where
  "places_ok s \<longleftrightarrow> finite (dom (sv_open s)) \<and> adm_inv (app_admission (sv_app s)) \<and>
     in_flight (app_admission (sv_app s)) = int (card (dom (sv_open s)))"

text \<open>An answer names the job of its key, and says 201 if it created it.\<close>

fun answer_ok :: "db \<Rightarrow> string \<times> (exn + int \<times> submit_response) \<Rightarrow> bool" where
  "answer_ok d (key, Inr (code, r)) \<longleftrightarrow> code = (if rs_created r then 201 else 200) \<and> map_option uuid_str (key_job d key) = Some (rs_id r)"
| "answer_ok d (key, Inl e) \<longleftrightarrow> True"

fun announces :: "string \<Rightarrow> string \<times> (exn + int \<times> submit_response) \<Rightarrow> bool" where
  "announces key (k, Inr (code, r)) \<longleftrightarrow> k = key \<and> code = 201"
| "announces key (k, Inl e) \<longleftrightarrow> False"

definition answers_ok :: "db \<Rightarrow> (string \<times> (exn + int \<times> submit_response)) list \<Rightarrow> bool" where
  "answers_ok d xs \<longleftrightarrow> (\<forall>x \<in> set xs. answer_ok d x) \<and> (\<forall>key. length (filter (announces key) xs) \<le> 1)"

definition server_ok :: "'n server \<Rightarrow> bool" where
  "server_ok s \<longleftrightarrow> history_inv (app_db (sv_app s)) \<and> places_ok s \<and> answers_ok (app_db (sv_app s)) (sv_answers s)"

lemma key_job_steps: "db_steps d d' \<Longrightarrow> history_inv d \<Longrightarrow> key_job d key = Some i \<Longrightarrow> key_job d' key = Some i"
  using steps_keep_key [of d d' key] by (auto simp: key_job_def)

lemma answers_ok_steps:
  assumes "db_steps d d'" "history_inv d" "answers_ok d xs"
  shows "answers_ok d' xs"
proof -
  have "answer_ok d' x" if "answer_ok d x" for x
    using that key_job_steps [OF assms(1,2)] by (cases "(d, x)" rule: answer_ok.cases) auto
  with assms(3) show ?thesis by (simp add: answers_ok_def)
qed

lemma answers_ok_error: "answers_ok d xs \<Longrightarrow> answers_ok d (xs @ [(key, Inl e)])"
  by (simp add: answers_ok_def)

text \<open>A key without a job has not been answered yet, so the answer that announces its job is the first.\<close>

lemma answers_ok_submit:
  assumes "history_inv d" "answers_ok d xs" "submit_job i carrier key payload subject d = (Inr (job, created), d')"
    and "code = (if created then 201 else 200)" "r = \<lparr>rs_id = uuid_str job, rs_state = st, rs_created = created\<rparr>"
  shows "answers_ok d' (xs @ [(key, Inr (code, r))])"
proof -
  have "db_step d d'" using db_step.submitting [of d i carrier key payload subject] assms(3) by simp
  then have old: "answers_ok d' xs" using answers_ok_steps [OF r_into_rtranclp assms(1,2)] by blast
  have new: "key_job d' key = Some job \<and> (created \<longrightarrow> key_job d key = None)" using assms(3)
    by (cases rule: submit_job_cases) (auto simp: key_job_def find_append submitted_row_def)
  have "length (filter (announces key) xs) = 0" if created
  proof -
    have "\<not> announces key x" if "x \<in> set xs" for x
      using that assms(2) new \<open>created\<close> by (cases "(key, x)" rule: announces.cases) (fastforce simp: answers_ok_def)+
    then show ?thesis by (simp add: filter_empty_conv)
  qed
  with old new assms(4,5) show ?thesis by (auto simp: answers_ok_def)
qed

section \<open>Places\<close>

lemma places_free:
  assumes "places_ok s"
  shows "fst (try_acquire (app_admission (sv_app s))) \<longleftrightarrow> int (card (dom (sv_open s))) < capacity (app_admission (sv_app s))"
  using assms by (auto simp: places_ok_def try_acquire_def in_flight_def)

lemma places_release:
  assumes "places_ok s" "sv_open s r = Some x"
  obtains adm where "adm_release (app_admission (sv_app s)) = (Inr (), adm)" "capacity adm = capacity (app_admission (sv_app s))"
    "\<forall>a. app_admission a = adm \<longrightarrow> places_ok (s\<lparr>sv_app := a, sv_open := (sv_open s)(r := None), sv_answers := xs\<rparr>)"
proof -
  let ?adm = "app_admission (sv_app s)"
  have fin: "finite (dom (sv_open s))" and r: "r \<in> dom (sv_open s)" using assms by (auto simp: places_ok_def)
  then have card: "card (dom (sv_open s)) = Suc (card (dom (sv_open s) - {r}))" by (metis card_Suc_Diff1)
  then have "0 < adm_in_flight ?adm" using assms(1) by (simp add: places_ok_def in_flight_def)
  then show ?thesis using assms(1) fin card
    by (intro that [of "?adm\<lparr>adm_in_flight := adm_in_flight ?adm - 1\<rparr>"])
      (auto simp: adm_release_def places_ok_def in_flight_def adm_inv_def dom_fun_upd)
qed

lemma places_admit:
  assumes "places_ok s" "sv_open s r = None" "try_acquire (app_admission (sv_app s)) = (True, adm)"
  shows "places_ok (s\<lparr>sv_app := (sv_app s)\<lparr>app_admission := adm\<rparr>, sv_open := (sv_open s)(r \<mapsto> x)\<rparr>)"
proof -
  have "r \<notin> dom (sv_open s)" using assms(2) by auto
  then show ?thesis using assms(1,3) try_acquire_inv [of "app_admission (sv_app s)"]
    by (auto simp: places_ok_def in_flight_def try_acquire_def split: if_splits)
qed

section \<open>Preservation\<close>

text \<open>The tail gives the place back whatever became of the transaction, and adds an answer in order.\<close>

lemma server_ok_tail:
  assumes "server_ok s" "sv_open s r = Some x" "history_inv d" "submit_tail submitted ((sv_app s)\<lparr>app_db := d\<rparr>) = (out, a)"
    and "\<And>e. answers_ok d (sv_answers s @ [(key, Inl e)])"
    and "\<And>job created. submitted = Inr (job, created) \<Longrightarrow> answers_ok d (sv_answers s @ [(key,
      Inr (if created then 201 else 200, \<lparr>rs_id = uuid_str job, rs_state = ''queued'', rs_created = created\<rparr>))])"
  shows "server_ok (s\<lparr>sv_app := a, sv_open := (sv_open s)(r := None), sv_answers := sv_answers s @ [(key, out)]\<rparr>)"
    and "capacity (app_admission a) = capacity (app_admission (sv_app s))"
proof -
  have "places_ok s" using assms(1) by (simp add: server_ok_def)
  then obtain adm where adm: "adm_release (app_admission (sv_app s)) = (Inr (), adm)" "capacity adm = capacity (app_admission (sv_app s))"
      "\<forall>a. app_admission a = adm \<longrightarrow> places_ok (s\<lparr>sv_app := a, sv_open := (sv_open s)(r := None), sv_answers := sv_answers s @ [(key, out)]\<rparr>)"
    using assms(2) by (rule places_release [where xs = "sv_answers s @ [(key, out)]"])
  have a: "app_admission a = adm" "app_db a = d" using assms(4) adm(1) by (auto simp: submit_tail_def Let_def split: sum.splits prod.splits)
  have "answers_ok d (sv_answers s @ [(key, out)])"
    using assms(4-6) adm(1) by (auto simp: submit_tail_def Let_def split: sum.splits prod.splits)
  with adm(3) a assms(3) show "server_ok (s\<lparr>sv_app := a, sv_open := (sv_open s)(r := None), sv_answers := sv_answers s @ [(key, out)]\<rparr>)"
    by (simp add: server_ok_def)
  show "capacity (app_admission a) = capacity (app_admission (sv_app s))" using a(1) adm(2) by simp
qed

lemma server_ok_db:
  assumes "server_ok s" "db_steps (app_db (sv_app s)) d"
  shows "history_inv d" "answers_ok d (sv_answers s)"
  using assms history_inv_steps answers_ok_steps unfolding server_ok_def by blast+

lemma try_acquire_capacity: "capacity (snd (try_acquire a)) = capacity a"
  by (simp add: try_acquire_def)

lemma server_ok_step:
  assumes "server_step cfg s s'" "server_ok s"
  shows "server_ok s' \<and> capacity (app_admission (sv_app s')) = capacity (app_admission (sv_app s))"
  using assms(1)
proof (cases rule: server_step.cases)
  case (refusing adm key)
  then have "adm = app_admission (sv_app s)" by (auto simp: try_acquire_def split: if_splits)
  then show ?thesis using assms(2) refusing(1) by (simp add: server_ok_def places_ok_def answers_ok_error)
next
  case (admitting r adm key body)
  then show ?thesis
    using assms(2) places_admit [of s r adm "(key, body)"] try_acquire_capacity [of "app_admission (sv_app s)"] by (simp add: server_ok_def)
next
  case (answering r key body fresh carrier submitted d out a)
  have ok: "history_inv (app_db (sv_app s))" "answers_ok (app_db (sv_app s)) (sv_answers s)" using assms(2) by (simp_all add: server_ok_def)
  have "db_step (app_db (sv_app s)) d" using db_step.submitting answering(3) by (metis snd_conv)
  then have d: "history_inv d" "answers_ok d (sv_answers s)" using server_ok_db [OF assms(2) r_into_rtranclp] by simp_all
  have new: "answers_ok d (sv_answers s @ [(key, Inr (if created then 201 else 200, \<lparr>rs_id = uuid_str job, rs_state = ''queued'', rs_created = created\<rparr>))])"
    if "submitted = Inr (job, created)" for job created
    using answers_ok_submit [OF ok answering(3) [unfolded that] refl refl] .
  show ?thesis using server_ok_tail [OF assms(2) answering(2) d(1) answering(4) answers_ok_error [OF d(2)] new] answering(1) by simp
next
  case (failing r key body d fresh carrier e out a)
  then have "db_steps (app_db (sv_app s)) d" by (auto intro: db_step.submitting)
  note d = server_ok_db [OF assms(2) this]
  show ?thesis using server_ok_tail [OF assms(2) failing(2) d(1) failing(4) answers_ok_error [OF d(2)]] failing(1) by simp
next
  case (other d)
  then show ?thesis using server_ok_db [OF assms(2) r_into_rtranclp [of db_step, OF other(2)]] assms(2) by (simp add: server_ok_def places_ok_def)
qed

lemma server_ok_steps:
  assumes "server_steps cfg s s'" "server_ok s"
  shows "server_ok s' \<and> capacity (app_admission (sv_app s')) = capacity (app_admission (sv_app s))"
  using assms(1)
proof (induction rule: rtranclp_induct)
  case (step s1 s2)
  then show ?case using server_ok_step [OF step(2)] by simp
qed (simp add: assms(2))

section \<open>Properties\<close>

text \<open>C24: However many submissions run at once, with whatever keys, and whichever of their transactions fail
  before or after the commit: the requests being served are exactly the places taken and never more
  than the capacity; a request is refused exactly when they are as many; the release in the
  \<open>finally\<close> clause of an open request never raises; two answers for one key name the same job, which is in
  the database under that key; and at most one answer for a key says 201.\<close>

theorem concurrent_submissions_share_one_job:
  assumes "reachable (app_db (sv_app s))" and "AdmissionController cap retry = Inr (app_admission (sv_app s))"
    and "sv_open s = Map.empty" and "sv_answers s = []" and "server_steps cfg s s'"
  shows "int (card (dom (sv_open s'))) = in_flight (app_admission (sv_app s')) \<and> in_flight (app_admission (sv_app s')) \<le> cap \<and>
    (fst (try_acquire (app_admission (sv_app s'))) \<longleftrightarrow> int (card (dom (sv_open s'))) < cap) \<and>
    (\<forall>r x. sv_open s' r = Some x \<longrightarrow> fst (adm_release (app_admission (sv_app s'))) = Inr ()) \<and>
    (\<forall>key code r. (key, Inr (code, r)) \<in> set (sv_answers s') \<longrightarrow> code = (if rs_created r then 201 else 200) \<and>
      (\<exists>row. find (\<lambda>x. jr_key x = key) (jobs (app_db (sv_app s'))) = Some row \<and> rs_id r = uuid_str (jr_id row))) \<and>
    (\<forall>key. length (filter (\<lambda>(k, out). k = key \<and> (\<exists>r. out = Inr (201, r))) (sv_answers s')) \<le> 1)"
proof -
  have "app_admission (sv_app s) = \<lparr>capacity = cap, retry_after_s = retry, adm_in_flight = 0\<rparr>"
    using assms(2) by (auto simp: AdmissionController_def split: if_splits)
  then have adm: "adm_inv (app_admission (sv_app s))" "in_flight (app_admission (sv_app s)) = 0" "capacity (app_admission (sv_app s)) = cap"
    using AdmissionController_inv [OF assms(2)] by simp_all
  then have "server_ok s" using history_inv_reachable [OF assms(1)] assms(3,4) by (simp add: server_ok_def places_ok_def answers_ok_def)
  from server_ok_steps [OF assms(5) this] adm(3)
  have ok: "places_ok s'" "answers_ok (app_db (sv_app s')) (sv_answers s')" "capacity (app_admission (sv_app s')) = cap"
    by (simp_all add: server_ok_def)
  have "announces key x \<longleftrightarrow> (\<lambda>(k, out). k = key \<and> (\<exists>r. out = Inr (201, r))) x" for key x
    by (cases "(key, x)" rule: announces.cases) auto
  then have "announces key = (\<lambda>(k, out). k = key \<and> (\<exists>r. out = Inr (201, r)))" for key by (rule ext)
  then have once: "\<forall>key. length (filter (\<lambda>(k, out). k = key \<and> (\<exists>r. out = Inr (201, r))) (sv_answers s')) \<le> 1"
    using ok(2) by (simp add: answers_ok_def)
  have named: "code = (if rs_created r then 201 else 200) \<and>
      (\<exists>row. find (\<lambda>x. jr_key x = key) (jobs (app_db (sv_app s'))) = Some row \<and> rs_id r = uuid_str (jr_id row))"
    if "(key, Inr (code, r)) \<in> set (sv_answers s')" for key code r
    using ok(2) that unfolding answers_ok_def by (fastforce simp: key_job_def)
  have freed: "fst (adm_release (app_admission (sv_app s'))) = Inr ()" if "sv_open s' r = Some x" for r x
    using ok(1) that by (rule places_release) simp
  from ok(1,3) have "int (card (dom (sv_open s'))) = in_flight (app_admission (sv_app s'))" "in_flight (app_admission (sv_app s')) \<le> cap"
    by (simp_all add: places_ok_def adm_inv_def in_flight_def)
  with places_free [OF ok(1)] ok(3) named once freed show ?thesis by blast
qed

text \<open>Two requests with one key are admitted before either is answered.\<close>

definition demo_server :: "unit server" where
  "demo_server = \<lparr>sv_app = \<lparr>app_db = empty_db 0, app_admission = \<lparr>capacity = 2, retry_after_s = 1, adm_in_flight = 0\<rparr>, app_nats = None,
     app_submitted = [], app_rejected = 0\<rparr>, sv_open = Map.empty, sv_answers = []\<rparr>"

definition demo_body :: submit_request where
  "demo_body = \<lparr>rq_duration_ms = 10, rq_failure_rate = Fin 0, rq_poison = False\<rparr>"

definition demo_busy :: "unit server" where
  "demo_busy = demo_server\<lparr>sv_app := (sv_app demo_server)\<lparr>app_admission := \<lparr>capacity = 2, retry_after_s = 1, adm_in_flight = 2\<rparr>\<rparr>,
     sv_open := [0 \<mapsto> (''key-1'', demo_body), 1 \<mapsto> (''key-1'', demo_body)]\<rparr>"

lemma demo_busy_steps: "server_steps Settings demo_server demo_busy"
proof -
  let ?s1 = "demo_server\<lparr>sv_app := (sv_app demo_server)\<lparr>app_admission := \<lparr>capacity = 2, retry_after_s = 1, adm_in_flight = 1\<rparr>\<rparr>,
     sv_open := [0 \<mapsto> (''key-1'', demo_body)]\<rparr>"
  have "server_step Settings demo_server ?s1"
    using server_step.admitting [of demo_server 0 "\<lparr>capacity = 2, retry_after_s = 1, adm_in_flight = 1\<rparr>" Settings "''key-1''" demo_body]
    by (simp add: demo_server_def try_acquire_def)
  moreover have "server_step Settings ?s1 demo_busy"
    using server_step.admitting [of ?s1 1 "\<lparr>capacity = 2, retry_after_s = 1, adm_in_flight = 2\<rparr>" Settings "''key-1''" demo_body]
    by (simp add: demo_server_def demo_busy_def try_acquire_def)
  ultimately show ?thesis by (rule converse_rtranclp_into_rtranclp [OF _ r_into_rtranclp])
qed

lemma demo_busy_answers:
  "\<exists>s' r r'. server_steps Settings demo_busy s' \<and> sv_answers s' = [(''key-1'', Inr (201, r)), (''key-1'', Inr (200, r'))]"
proof -
  have payload: "model_dump demo_body = demo_payload" by (simp add: model_dump_def demo_payload_def demo_body_def)
  have new: "submit_job 1 [] ''key-1'' (model_dump demo_body) (subject_jobs Settings) (app_db (sv_app demo_busy)) = (Inr (1, True), demo_db)"
    unfolding payload by (simp add: demo_db_def submit_job_def transaction_def empty_db_def Let_def find_job_def demo_busy_def demo_server_def Settings_def)
  have again: "submit_job 2 [] ''key-1'' (model_dump demo_body) (subject_jobs Settings) demo_db = (Inr (1, False), demo_db)"
    by (simp add: submit_job_def transaction_def demo_db_jobs) (simp add: submitted_row_def)
  obtain r a where one: "submit_tail (Inr (1, True)) ((sv_app demo_busy)\<lparr>app_db := demo_db\<rparr>) = (Inr (201, r), a)" "app_db a = demo_db"
      "app_admission a = \<lparr>capacity = 2, retry_after_s = 1, adm_in_flight = 1\<rparr>"
    by (simp add: submit_tail_def adm_release_def demo_busy_def demo_server_def)
  let ?s1 = "demo_busy\<lparr>sv_app := a, sv_open := (sv_open demo_busy)(0 := None), sv_answers := sv_answers demo_busy @ [(''key-1'', Inr (201, r))]\<rparr>"
  have "server_step Settings demo_busy ?s1"
    by (rule server_step.answering [OF _ new one(1)]) (simp add: demo_busy_def)
  moreover obtain r' a' where two: "submit_tail (Inr (1, False)) ((sv_app ?s1)\<lparr>app_db := demo_db\<rparr>) = (Inr (200, r'), a')"
    using one(3) by (simp add: submit_tail_def adm_release_def)
  have "server_step Settings ?s1 (?s1\<lparr>sv_app := a', sv_open := (sv_open ?s1)(1 := None), sv_answers := sv_answers ?s1 @ [(''key-1'', Inr (200, r'))]\<rparr>)"
    by (rule server_step.answering [where fresh = 2 and carrier = "[]" and d = demo_db, OF _ _ two]) (use again one(2) in \<open>simp_all add: demo_busy_def\<close>)
  moreover have "sv_answers demo_busy = []" by (simp add: demo_busy_def demo_server_def)
  ultimately show ?thesis
    by (intro exI [of _ "?s1\<lparr>sv_app := a', sv_open := (sv_open ?s1)(1 := None), sv_answers := sv_answers ?s1 @ [(''key-1'', Inr (200, r'))]\<rparr>"]
        exI [of _ r] exI [of _ r'] conjI converse_rtranclp_into_rtranclp [OF _ r_into_rtranclp]) simp_all
qed

theorem concurrent_submissions_share_one_job_witness:
  "\<exists>s' r r'. server_steps Settings demo_server s' \<and> sv_answers s' = [(''key-1'', Inr (201, r)), (''key-1'', Inr (200, r'))] \<and> rs_id r = rs_id r'"
proof -
  obtain s' r r' where s': "server_steps Settings demo_busy s'" "sv_answers s' = [(''key-1'', Inr (201, r)), (''key-1'', Inr (200, r'))]"
    using demo_busy_answers by blast
  have steps: "server_steps Settings demo_server s'" using demo_busy_steps s'(1) by (rule rtranclp_trans)
  have start: "reachable (app_db (sv_app demo_server))" "AdmissionController 2 1 = Inr (app_admission (sv_app demo_server))"
      "sv_open demo_server = Map.empty" "sv_answers demo_server = []"
    by (auto simp: demo_server_def AdmissionController_def)
  have "\<exists>row. find (\<lambda>x. jr_key x = ''key-1'') (jobs (app_db (sv_app s'))) = Some row \<and> rs_id x = uuid_str (jr_id row)"
    if "(''key-1'', Inr (code, x)) \<in> set (sv_answers s')" for code x
    using concurrent_submissions_share_one_job [OF start steps] that by blast
  from this [of 201 r] this [of 200 r'] have "rs_id r = rs_id r'" by (auto simp: s'(2))
  with steps s'(2) show ?thesis by blast
qed

end
