(* ===== verification/Quarantine.thy ===== *)
theory Quarantine
  imports Dlq History
begin

text \<open>
  Quarantines that are interrupted. The listener handles an advisory in five calls: it fetches the
  message, copies it, records \<^verbatim>\<open>DEAD_LETTERED\<close>, deletes the original and acknowledges the advisory. Here a
  handling is taken apart at these calls. The listener may die between any two of them, each call may
  fail before or after it took effect, the broker delivers the advisory again, several listeners may
  work on it at once, and the rest of the system goes on meanwhile. \<^verbatim>\<open>quarantine\<close> and
  \<^verbatim>\<open>handle_advisory\<close> are the handlings nothing of this disturbs.
\<close>

section \<open>The broker the listener relies on\<close>

text \<open>What the listener relies on beyond \<open>js_stores\<close>, for the work stream: sequence numbers only grow, a
  fetched message is the one held at its number, a publish changes nothing at the numbers already given
  out, a deletion at most takes away the message named, and the acknowledgement of an advisory changes
  nothing of this. \<open>stored\<close> lists what has been accepted.\<close>

locale js_work_stream = js_stores js stored for js :: "'b jetstream" and stored :: "'b \<Rightarrow> stored_msg list" +
  fixes work :: string and holds :: "'b \<Rightarrow> int \<Rightarrow> json_text option" and last_seq :: "'b \<Rightarrow> int"
  assumes held_seq: "holds b sq = Some raw \<Longrightarrow> sq \<le> last_seq b"
    and get_msg: "js_get_msg js work sq b = (got, b') \<Longrightarrow> stored b' = stored b \<and> holds b' = holds b \<and> last_seq b' = last_seq b \<and>
      (\<forall>raw. got = Inr raw \<longrightarrow> holds b sq = Some raw)"
    and publish_keeps: "js_publish js subject data hs b = (out, b') \<Longrightarrow> last_seq b \<le> last_seq b' \<and>
      (\<forall>sq. sq \<le> last_seq b \<longrightarrow> holds b' sq = holds b sq)"
    and delete_msg: "js_delete_msg js work sq b = (out, b') \<Longrightarrow> stored b' = stored b \<and> last_seq b' = last_seq b \<and>
      (holds b' = (holds b)(sq := None) \<or> (\<exists>e. out = Inl e) \<and> holds b' = holds b)"
    and ack_keeps: "js_ack js data b = (out, b') \<Longrightarrow> stored b' = stored b \<and> holds b' = holds b \<and> last_seq b' = last_seq b"

definition ref_holds :: "ref_broker \<Rightarrow> int \<Rightarrow> json_text option" where
  "ref_holds b sq = (if 1 \<le> sq \<and> nat sq \<le> length (rb_msgs b) \<and> sq \<notin> set (rb_deleted b) then Some (sm_data (rb_msgs b ! (nat sq - 1))) else None)"

interpretation ref_work: js_work_stream ref_js rb_msgs work ref_holds "\<lambda>b. int (length (rb_msgs b))" for work
proof unfold_locales
  fix b b' :: ref_broker and sq out
  assume "js_delete_msg ref_js work sq b = (out, b')"
  then show "rb_msgs b' = rb_msgs b \<and> int (length (rb_msgs b')) = int (length (rb_msgs b)) \<and>
      (ref_holds b' = (ref_holds b)(sq := None) \<or> (\<exists>e. out = Inl e) \<and> ref_holds b' = ref_holds b)"
    by (auto simp: ref_js_def ref_delete_msg_def ref_holds_def fun_eq_iff split: if_splits)
qed (auto simp: ref_js_def ref_holds_def ref_get_msg_def ref_publish_def window_store_def Let_def nth_append split: if_splits)

section \<open>The steps of a handling\<close>

text \<open>The job a fetched message names: the part of \<^verbatim>\<open>quarantine\<close> between the fetch and the copy.\<close>

definition message_job :: "'c otel \<Rightarrow> py_runtime \<Rightarrow> json_text \<Rightarrow> exn + uuid" where
  "message_job tel rt raw =
     (case json_loads raw of
        Inl e \<Rightarrow> Inl (Py e)
      | Inr body \<Rightarrow>
          (case rbind (json_item body ''job_id'') uuid_of_json of
             Inl e \<Rightarrow> Inl (Py e)
           | Inr i \<Rightarrow>
               (case context_from tel rt (case body of JObj kvs \<Rightarrow> dict_get_none kvs ''traceparent'' | _ \<Rightarrow> JNull) of
                  Inl e \<Rightarrow> Inl e
                | Inr ctx \<Rightarrow> Inr i)))"

definition dead_letter :: "advisory \<Rightarrow> uuid \<Rightarrow> db \<Rightarrow> (exn + job_state) \<times> db" where
  "dead_letter adv i = record_event i E_DEAD_LETTERED (adv_deliveries adv)
     (Some [(''stream_seq'', JInt (adv_stream_seq adv)), (''deliveries'', JInt (adv_deliveries adv))]) None None"

fun cleans_up :: "exn + job_state \<Rightarrow> bool" where
  "cleans_up (Inl (IllegalTransition st ev)) = True"
| "cleans_up (Inl e) = False"
| "cleans_up (Inr st) = True"

text \<open>Where a handling stands, by the call it makes next.\<close>

datatype phase = Fetching | Copying json_text uuid | Recording uuid | Deleting | Acking

record 'b desk =
  dk_db :: db
  dk_broker :: 'b
  dk_open :: "nat \<rightharpoonup> phase"
  dk_acked :: nat

inductive desk_step :: "'b jetstream \<Rightarrow> ('b \<Rightarrow> 'b \<Rightarrow> bool) \<Rightarrow> 'c otel \<Rightarrow> py_runtime \<Rightarrow> settings \<Rightarrow> advisory \<Rightarrow> 'b desk \<Rightarrow> 'b desk \<Rightarrow> bool"
  for js others tel rt cfg adv where
    receiving: "dk_open s r = None \<Longrightarrow> desk_step js others tel rt cfg adv s (s\<lparr>dk_open := (dk_open s)(r \<mapsto> Fetching)\<rparr>)"
  | fetching: "dk_open s r = Some Fetching \<Longrightarrow> js_get_msg js (stream_name cfg) (adv_stream_seq adv) (dk_broker s) = (out, b) \<Longrightarrow>
      ph = (case rbind out (message_job tel rt) of Inl e \<Rightarrow> Acking | Inr i \<Rightarrow> Copying (projr out) i) \<Longrightarrow>
      desk_step js others tel rt cfg adv s (s\<lparr>dk_broker := b, dk_open := (dk_open s)(r \<mapsto> ph)\<rparr>)"
  | copying: "dk_open s r = Some (Copying raw i) \<Longrightarrow> js_publish js (subject_dlq cfg) raw (dlq_headers cfg adv) (dk_broker s) = (out, b) \<Longrightarrow>
      ph = (case out of Inl e \<Rightarrow> Acking | Inr u \<Rightarrow> Recording i) \<Longrightarrow>
      desk_step js others tel rt cfg adv s (s\<lparr>dk_broker := b, dk_open := (dk_open s)(r \<mapsto> ph)\<rparr>)"
  | recording: "dk_open s r = Some (Recording i) \<Longrightarrow> dead_letter adv i (dk_db s) = (out, d) \<Longrightarrow>
      desk_step js others tel rt cfg adv s (s\<lparr>dk_db := d, dk_open := (dk_open s)(r \<mapsto> if cleans_up out then Deleting else Acking)\<rparr>)"
  | disconnected: "dk_open s r = Some (Recording i) \<Longrightarrow> d \<in> {dk_db s, snd (dead_letter adv i (dk_db s))} \<Longrightarrow>
      desk_step js others tel rt cfg adv s (s\<lparr>dk_db := d, dk_open := (dk_open s)(r \<mapsto> Acking)\<rparr>)"
  | deleting: "dk_open s r = Some Deleting \<Longrightarrow> js_delete_msg js (stream_name cfg) (adv_stream_seq adv) (dk_broker s) = (out, b) \<Longrightarrow>
      desk_step js others tel rt cfg adv s (s\<lparr>dk_broker := b, dk_open := (dk_open s)(r \<mapsto> Acking)\<rparr>)"
  | acking: "dk_open s r = Some Acking \<Longrightarrow> js_ack js data (dk_broker s) = (out, b) \<Longrightarrow>
      desk_step js others tel rt cfg adv s (s\<lparr>dk_broker := b, dk_open := (dk_open s)(r := None), dk_acked := dk_acked s + of_bool (is_ok out)\<rparr>)"
  | dying: "dk_open s r = Some ph \<Longrightarrow> desk_step js others tel rt cfg adv s (s\<lparr>dk_open := (dk_open s)(r := None)\<rparr>)"
  | elsewhere: "db_steps (dk_db s) d \<Longrightarrow> others (dk_broker s) b \<Longrightarrow>
      desk_step js others tel rt cfg adv s (s\<lparr>dk_db := d, dk_broker := b\<rparr>)"

abbreviation desk_steps :: "'b jetstream \<Rightarrow> ('b \<Rightarrow> 'b \<Rightarrow> bool) \<Rightarrow> 'c otel \<Rightarrow> py_runtime \<Rightarrow> settings \<Rightarrow> advisory \<Rightarrow> 'b desk \<Rightarrow> 'b desk \<Rightarrow> bool" where
  "desk_steps js others tel rt cfg adv \<equiv> (desk_step js others tel rt cfg adv)\<^sup>*\<^sup>*"

text \<open>An undisturbed handling is \<^verbatim>\<open>handle_advisory\<close>.\<close>

lemma quarantine_inner_calls:
  "quarantine_inner js cfg adv raw i d b =
     (case js_publish js (subject_dlq cfg) raw (dlq_headers cfg adv) b of
        (Inl e, b1) \<Rightarrow> (Inl e, d, b1)
      | (Inr _, b1) \<Rightarrow>
          (case dead_letter adv i d of (out, d1) \<Rightarrow>
             if cleans_up out
             then (case js_delete_msg js (stream_name cfg) (adv_stream_seq adv) b1 of
                     (Inl e, b2) \<Rightarrow> (Inl e, d1, b2) | (Inr _, b2) \<Rightarrow> (Inr (), d1, b2))
             else (Inl (projl out), d1, b1)))"
  by (auto simp: quarantine_inner_def dead_letter_def Let_def split: prod.splits sum.splits exn.splits)

lemma quarantine_calls:
  "quarantine js tel rt cfg adv w =
     (case js_get_msg js (stream_name cfg) (adv_stream_seq adv) (ls_broker w) of (got, b1) \<Rightarrow>
        (case rbind got (message_job tel rt) of
           Inl e \<Rightarrow> (Inl e, w\<lparr>ls_broker := b1\<rparr>)
         | Inr i \<Rightarrow>
             (case quarantine_inner js cfg adv (projr got) i (ls_db w) b1 of
                (Inl e, d2, b2) \<Rightarrow> (Inl e, w\<lparr>ls_db := d2, ls_broker := b2\<rparr>)
              | (Inr _, d2, b2) \<Rightarrow> (Inr (), w\<lparr>ls_db := d2, ls_broker := b2, ls_quarantined := ls_quarantined w + 1\<rparr>))))"
  by (auto simp: quarantine_def message_job_def Let_def split: prod.splits sum.splits)

definition desk_at :: "'b desk \<Rightarrow> nat \<Rightarrow> db \<Rightarrow> 'b \<Rightarrow> phase \<Rightarrow> 'b desk" where
  "desk_at s r d b ph = s\<lparr>dk_db := d, dk_broker := b, dk_open := (dk_open s)(r \<mapsto> ph)\<rparr>"

lemma desk_at_sel [simp]:
  "dk_db (desk_at s r d b ph) = d" "dk_broker (desk_at s r d b ph) = b" "dk_open (desk_at s r d b ph) = (dk_open s)(r \<mapsto> ph)"
  "dk_acked (desk_at s r d b ph) = dk_acked s" "desk_at (desk_at s r d b ph) r d' b' ph' = desk_at s r d' b' ph'"
  by (simp_all add: desk_at_def)

lemma desk_at_moves:
  "js_get_msg js (stream_name cfg) (adv_stream_seq adv) b = (got, b') \<Longrightarrow>
     desk_step js others tel rt cfg adv (desk_at s r d b Fetching)
       (desk_at s r d b' (case rbind got (message_job tel rt) of Inl e \<Rightarrow> Acking | Inr i \<Rightarrow> Copying (projr got) i))"
  "js_publish js (subject_dlq cfg) raw (dlq_headers cfg adv) b = (out, b') \<Longrightarrow>
     desk_step js others tel rt cfg adv (desk_at s r d b (Copying raw i))
       (desk_at s r d b' (case out of Inl e \<Rightarrow> Acking | Inr u \<Rightarrow> Recording i))"
  "dead_letter adv i d = (verdict, d') \<Longrightarrow>
     desk_step js others tel rt cfg adv (desk_at s r d b (Recording i)) (desk_at s r d' b (if cleans_up verdict then Deleting else Acking))"
  "js_delete_msg js (stream_name cfg) (adv_stream_seq adv) b = (out, b') \<Longrightarrow>
     desk_step js others tel rt cfg adv (desk_at s r d b Deleting) (desk_at s r d b' Acking)"
proof -
  show "js_get_msg js (stream_name cfg) (adv_stream_seq adv) b = (got, b') \<Longrightarrow>
     desk_step js others tel rt cfg adv (desk_at s r d b Fetching)
       (desk_at s r d b' (case rbind got (message_job tel rt) of Inl e \<Rightarrow> Acking | Inr i \<Rightarrow> Copying (projr got) i))"
    using desk_step.fetching [of "desk_at s r d b Fetching" r js cfg adv got b', OF _ _ refl] by (cases s) (simp add: desk_at_def)
  show "js_publish js (subject_dlq cfg) raw (dlq_headers cfg adv) b = (out, b') \<Longrightarrow>
     desk_step js others tel rt cfg adv (desk_at s r d b (Copying raw i)) (desk_at s r d b' (case out of Inl e \<Rightarrow> Acking | Inr u \<Rightarrow> Recording i))"
    using desk_step.copying [of "desk_at s r d b (Copying raw i)" r raw i js cfg adv out b', OF _ _ refl] by (cases s) (simp add: desk_at_def)
  show "dead_letter adv i d = (verdict, d') \<Longrightarrow>
     desk_step js others tel rt cfg adv (desk_at s r d b (Recording i)) (desk_at s r d' b (if cleans_up verdict then Deleting else Acking))"
    using desk_step.recording [of "desk_at s r d b (Recording i)" r i adv verdict d'] by (cases s) (simp add: desk_at_def split del: if_split)
  show "js_delete_msg js (stream_name cfg) (adv_stream_seq adv) b = (out, b') \<Longrightarrow>
     desk_step js others tel rt cfg adv (desk_at s r d b Deleting) (desk_at s r d b' Acking)"
    using desk_step.deleting [of "desk_at s r d b Deleting" r js cfg adv out b'] by (cases s) (simp add: desk_at_def)
qed

lemma desk_at_acked:
  assumes "dk_open s r = None" "js_ack js data b = (out, b')"
  shows "desk_step js others tel rt cfg adv (desk_at s r d b Acking) (s\<lparr>dk_db := d, dk_broker := b', dk_acked := dk_acked s + of_bool (is_ok out)\<rparr>)"
  using desk_step.acking [of "desk_at s r d b Acking" r js data out b' others tel rt cfg adv] assms
  by (cases s) (simp add: desk_at_def fun_upd_idem)

lemma inner_is_steps:
  assumes "quarantine_inner js cfg adv raw i d b = (out, d', b')"
  shows "desk_steps js others tel rt cfg adv (desk_at s r d b (Copying raw i)) (desk_at s r d' b' Acking)"
proof -
  obtain sent b1 where sent: "js_publish js (subject_dlq cfg) raw (dlq_headers cfg adv) b = (sent, b1)" by fastforce
  obtain verdict d1 where rec: "dead_letter adv i d = (verdict, d1)" by fastforce
  obtain gone b2 where del: "js_delete_msg js (stream_name cfg) (adv_stream_seq adv) b1 = (gone, b2)" by fastforce
  note moves = desk_at_moves(2) [OF sent, of others tel rt s r d i] desk_at_moves(3) [OF rec, of js others tel rt cfg s r b1]
    desk_at_moves(4) [OF del, of others tel rt s r d1]
  show ?thesis
  proof (cases sent)
    case (Inl e)
    then show ?thesis using moves(1) assms sent by (auto simp: quarantine_inner_calls)
  next
    case (Inr u)
    show ?thesis
    proof (cases "cleans_up verdict")
      case True
      with Inr assms sent rec del have "d' = d1" "b' = b2" by (auto simp: quarantine_inner_calls split: sum.splits)
      then show ?thesis using moves Inr True by (auto intro: converse_rtranclp_into_rtranclp)
    next
      case False
      with Inr assms sent rec have "d' = d1" "b' = b1" by (auto simp: quarantine_inner_calls)
      then show ?thesis using moves(1,2) Inr False by (auto intro: converse_rtranclp_into_rtranclp)
    qed
  qed
qed

lemma handling_is_steps:
  assumes "parse_advisory rt data = Inr (Some adv)" "handle_advisory js tel rt cfg data w = (out, w')"
    and "dk_db s = ls_db w" "dk_broker s = ls_broker w" "dk_open s r = None"
  shows "desk_steps js others tel rt cfg adv s (s\<lparr>dk_db := ls_db w', dk_broker := ls_broker w', dk_acked := dk_acked s + of_bool (is_ok out)\<rparr>)"
proof -
  obtain got b1 where got: "js_get_msg js (stream_name cfg) (adv_stream_seq adv) (dk_broker s) = (got, b1)" by fastforce
  let ?d = "dk_db s"
  define q where "q = snd (quarantine js tel rt cfg adv w)"
  obtain answer where ack: "js_ack js data (ls_broker q) = (answer, ls_broker w')" "ls_db w' = ls_db q" "is_ok answer = is_ok out"
    using assms(1,2) by (auto simp: handle_advisory_def Let_def q_def split: prod.splits sum.splits)
  have "desk_step js others tel rt cfg adv s (desk_at s r ?d (dk_broker s) Fetching)"
    using desk_step.receiving [OF assms(5)] by (simp add: desk_at_def)
  moreover note desk_at_moves(1) [OF got, of others tel rt s r ?d]
  moreover have "desk_steps js others tel rt cfg adv
      (desk_at s r ?d b1 (case rbind got (message_job tel rt) of Inl e \<Rightarrow> Acking | Inr i \<Rightarrow> Copying (projr got) i)) (desk_at s r (ls_db q) (ls_broker q) Acking)"
  proof (cases "rbind got (message_job tel rt)")
    case (Inl e)
    then show ?thesis using q_def got assms(3,4) by (simp add: quarantine_calls)
  next
    case (Inr i)
    obtain out2 d2 b2 where inner: "quarantine_inner js cfg adv (projr got) i ?d b1 = (out2, d2, b2)" by (metis prod.collapse)
    with Inr have "ls_db q = d2" "ls_broker q = b2" using q_def got assms(3,4) by (auto simp: quarantine_calls split: sum.splits)
    moreover have "(case rbind got (message_job tel rt) of Inl e \<Rightarrow> Acking | Inr i \<Rightarrow> Copying (projr got) i) = Copying (projr got) i"
      unfolding Inr by simp
    ultimately show ?thesis using inner_is_steps [OF inner] by simp
  qed
  moreover note desk_at_acked [OF assms(5) ack(1), of others tel rt cfg adv "ls_db q", unfolded ack(3)]
  ultimately show ?thesis unfolding ack(2) by (meson converse_rtranclp_into_rtranclp rtranclp.rtrancl_into_rtrancl)
qed

section \<open>Settled jobs\<close>

text \<open>The audit trail tells why a message left the work stream: its job has been dead-lettered, or was
  finished before.\<close>

definition settled :: "uuid \<Rightarrow> db \<Rightarrow> bool" where
  "settled i d \<longleftrightarrow> (\<exists>row evs s. find_job i d = Some row \<and> replay_events i d = Inr evs \<and> jr_state row = job_state_value s \<and>
     (E_DEAD_LETTERED \<in> ev_type ` set evs \<or> is_terminal s))"

lemma settled_steps:
  assumes "db_steps d d'" "history_inv d" "settled i d"
  shows "settled i d'"
proof -
  obtain row evs s where i: "find_job i d = Some row" "replay_events i d = Inr evs" "jr_state row = job_state_value s"
      "E_DEAD_LETTERED \<in> ev_type ` set evs \<or> is_terminal s" using assms(3) by (auto simp: settled_def)
  from i(4) show ?thesis
  proof
    assume dead: "E_DEAD_LETTERED \<in> ev_type ` set evs"
    obtain row' more where row': "find_job i d' = Some row'" "replay_events i d' = Inr (evs @ more)"
      using steps_keep_job [OF assms(1,2) i(1)] i(2) by (metis sum.inject(2))
    moreover obtain s' where "jr_state row' = job_state_value s'"
      using job_log [OF _ row'(1)] history_inv_steps [OF assms(1,2)] by (metis history_inv_def)
    ultimately show ?thesis using dead unfolding settled_def by (metis image_Un set_append UnI1)
  next
    assume "is_terminal s"
    with terminal_row_stays [OF assms(1,2) i(1,3)] i(2,3) show ?thesis unfolding settled_def by metis
  qed
qed

text \<open>No row at rest says \<open>submitted\<close>: the submission writes the first two events at once.\<close>

lemma step_not_submitted:
  assumes "db_step d d'" "\<forall>r \<in> set (jobs d). jr_state r \<noteq> job_state_value S_SUBMITTED"
  shows "\<forall>r \<in> set (jobs d'). jr_state r \<noteq> job_state_value S_SUBMITTED"
  using assms(1)
proof (cases rule: db_step.cases)
  case (submitting i carrier key payload subject)
  then obtain out where "submit_job i carrier key payload subject d = (out, d')" by (metis prod.collapse)
  then show ?thesis using assms(2) by (cases rule: submit_job_cases) (auto simp: submitted_row_def)
next
  case (recording ev i a dt ft res)
  then obtain out where "record_event i ev a dt ft res d = (out, d')" by (metis prod.collapse)
  then show ?thesis using assms(2) recording(2)
    by (cases rule: record_event_cases) (auto simp: set_update_where upd_row_def lifecycle_simps)
next
  case (replaying i subject)
  then obtain out where "replay_job i subject d = (out, d')" by (metis prod.collapse)
  then show ?thesis using assms(2) by (cases rule: replay_job_cases) (auto simp: insert_outbox_def set_update_where upd_row_def)
qed (use assms(2) in auto)

lemma reachable_not_submitted:
  assumes "reachable d" "find_job i d = Some row"
  shows "jr_state row \<noteq> job_state_value S_SUBMITTED"
proof -
  obtain t where "db_steps (empty_db t) d" using assms(1) by blast
  then have "\<forall>r \<in> set (jobs d). jr_state r \<noteq> job_state_value S_SUBMITTED"
    by (induction rule: rtranclp_induct) (simp add: empty_db_def, rule step_not_submitted)
  with assms(2) show ?thesis by (auto simp: find_job_def dest: find_SomeD)
qed

lemma dead_letter_step: "db_steps d (snd (dead_letter adv i d))"
  unfolding dead_letter_def by (rule r_into_rtranclp) (rule db_step.recording, simp)

lemma dead_letter_settles:
  assumes "reachable d" "dead_letter adv i d = (out, d')" "cleans_up out"
  shows "settled i d'"
proof -
  have inv: "history_inv d" by (rule history_inv_reachable [OF assms(1)])
  let ?dt = "[(''stream_seq'', JInt (adv_stream_seq adv)), (''deliveries'', JInt (adv_deliveries adv))]"
  show ?thesis using assms(2) unfolding dead_letter_def
  proof (cases rule: record_event_cases)
    case (error e)
    then obtain st ev where e: "e = IllegalTransition st ev" using assms(3) by (cases e) auto
    obtain row where row: "find_job i d = Some row"
      using error(3) e by (cases "find_job i d") (simp_all add: repo_apply_event_def)
    obtain evs s where log: "replay_events i d = Inr evs" "replay evs = Inr s" "jr_state row = job_state_value s"
      using job_log [OF _ row] inv by (metis history_inv_def)
    have "s \<notin> {S_QUEUED, S_RUNNING}" using error(3) row log(3) e
      by (auto simp: repo_apply_event_def job_state_of_Inr Let_def split: if_splits)
    moreover have "s \<noteq> S_SUBMITTED" using reachable_not_submitted [OF assms(1) row] log(3) by auto
    ultimately have "E_DEAD_LETTERED \<in> ev_type ` set evs \<or> is_terminal s"
      using replay_last [OF log(2)] by (cases "ev_type (last evs)") (auto simp: is_terminal_def TERMINAL_STATES_def image_iff intro!: bexI [of _ "last evs"])
    with row log error(2) show ?thesis unfolding settled_def by metis
  next
    case (ok row s st)
    obtain evs where "replay_events i d = Inr evs" using job_log [OF _ ok(1)] inv by (metis history_inv_def)
    moreover have "st = S_DEAD_LETTER" using ok(3) by (auto simp: lifecycle_simps)
    ultimately show ?thesis
      using find_job_written [OF ok(1,4), of E_DEAD_LETTERED "adv_deliveries adv" ?dt None st] inv ok(8)
      by (auto simp: settled_def replay_events_write db_inv_ids history_inv_def upd_row_def simp flip: job_state_value.simps)
  qed
qed

section \<open>The invariant of the desk\<close>

definition dlq_id :: "settings \<Rightarrow> advisory \<Rightarrow> string" where
  "dlq_id cfg adv = ''dlq-'' @ stream_name cfg @ ''-'' @ int_str (adv_stream_seq adv)"

definition dlq_copy :: "settings \<Rightarrow> advisory \<Rightarrow> json_text \<Rightarrow> stored_msg" where
  "dlq_copy cfg adv raw = \<lparr>sm_id = dlq_id cfg adv, sm_subject = subject_dlq cfg, sm_data = raw\<rparr>"

definition copies :: "settings \<Rightarrow> advisory \<Rightarrow> stored_msg list \<Rightarrow> stored_msg list" where
  "copies cfg adv ms = filter (\<lambda>m. sm_id m = dlq_id cfg adv) ms"

lemma dlq_headers_id [simp]: "map_of (dlq_headers cfg adv) ''Nats-Msg-Id'' = Some (dlq_id cfg adv)"
  by (simp add: dlq_headers_def dlq_id_def)

lemma copies_simps [simp]:
  "dlq_copy cfg adv raw \<in> set (copies cfg adv ms) \<longleftrightarrow> dlq_copy cfg adv raw \<in> set ms"
  "copies cfg adv (ms @ [dlq_copy cfg adv raw]) = copies cfg adv ms @ [dlq_copy cfg adv raw]"
  by (simp_all add: copies_def dlq_copy_def)

lemma copies_mono:
  assumes "set (copies cfg adv ms) \<subseteq> set (copies cfg adv ms')" "dlq_copy cfg adv raw \<in> set ms"
  shows "dlq_copy cfg adv raw \<in> set ms'"
  using subsetD [OF assms(1), of "dlq_copy cfg adv raw"] assms(2) by simp

lemma copies_there:
  assumes "set (copies cfg adv ms) \<subseteq> {dlq_copy cfg adv raw}" "dlq_id cfg adv \<in> sm_id ` set ms"
  shows "dlq_copy cfg adv raw \<in> set ms"
  using assms by (auto simp: copies_def)

text \<open>What the rest of the system does at the broker: it may publish, but not under the listener's id, and
  it leaves the message in question where it is.\<close>

definition leaves_alone :: "('b \<Rightarrow> stored_msg list) \<Rightarrow> ('b \<Rightarrow> int \<Rightarrow> json_text option) \<Rightarrow> ('b \<Rightarrow> int) \<Rightarrow> settings \<Rightarrow> advisory \<Rightarrow> 'b \<Rightarrow> 'b \<Rightarrow> bool" where
  "leaves_alone stored holds last_seq cfg adv b b' \<longleftrightarrow> last_seq b \<le> last_seq b' \<and>
     holds b' (adv_stream_seq adv) = holds b (adv_stream_seq adv) \<and> copies cfg adv (stored b') = copies cfg adv (stored b)"

text \<open>\<open>filed\<close>: the message has its copy and its job is settled.\<close>

definition filed :: "(json_text \<Rightarrow> exn + uuid) \<Rightarrow> settings \<Rightarrow> advisory \<Rightarrow> json_text \<Rightarrow> db \<Rightarrow> stored_msg list \<Rightarrow> bool" where
  "filed job cfg adv raw d ms \<longleftrightarrow> dlq_copy cfg adv raw \<in> set ms \<and> (\<exists>i. job raw = Inr i \<and> settled i d)"

fun phase_ok :: "(json_text \<Rightarrow> exn + uuid) \<Rightarrow> settings \<Rightarrow> advisory \<Rightarrow> json_text \<Rightarrow> db \<Rightarrow> stored_msg list \<Rightarrow> phase \<Rightarrow> bool" where
  "phase_ok job cfg adv raw d ms (Copying raw' i) \<longleftrightarrow> raw' = raw \<and> job raw = Inr i"
| "phase_ok job cfg adv raw d ms (Recording i) \<longleftrightarrow> dlq_copy cfg adv raw \<in> set ms \<and> job raw = Inr i"
| "phase_ok job cfg adv raw d ms Deleting \<longleftrightarrow> filed job cfg adv raw d ms"
| "phase_ok job cfg adv raw d ms _ \<longleftrightarrow> True"

definition message_ok :: "(json_text \<Rightarrow> exn + uuid) \<Rightarrow> settings \<Rightarrow> advisory \<Rightarrow> json_text \<Rightarrow> db \<Rightarrow> stored_msg list \<Rightarrow> json_text option \<Rightarrow> bool" where
  "message_ok job cfg adv raw d ms held \<longleftrightarrow> reachable d \<and> set (copies cfg adv ms) \<subseteq> {dlq_copy cfg adv raw} \<and>
     (held = Some raw \<or> held = None \<and> filed job cfg adv raw d ms)"

lemma filed_mono:
  assumes "filed job cfg adv raw d ms" "reachable d" "db_steps d d'" "set (copies cfg adv ms) \<subseteq> set (copies cfg adv ms')"
  shows "filed job cfg adv raw d' ms'"
  using assms(1) settled_steps [OF assms(3) history_inv_reachable [OF assms(2)]] copies_mono [OF assms(4)] by (auto simp: filed_def)

lemma phase_ok_mono:
  assumes "phase_ok job cfg adv raw d ms ph" "reachable d" "db_steps d d'" "set (copies cfg adv ms) \<subseteq> set (copies cfg adv ms')"
  shows "phase_ok job cfg adv raw d' ms' ph"
  using assms(1) filed_mono [OF _ assms(2-4)] copies_mono [OF assms(4)] by (cases ph) auto

lemma message_ok_mono:
  assumes "message_ok job cfg adv raw d ms held" "db_steps d d'" "copies cfg adv ms' = copies cfg adv ms"
  shows "message_ok job cfg adv raw d' ms' held"
proof -
  have "reachable d'" using assms(1,2) rtranclp_trans [of db_step] by (auto simp: message_ok_def)
  with assms filed_mono [of job cfg adv raw d ms d' ms'] show ?thesis by (simp add: message_ok_def) blast
qed

definition desk_ok :: "('b \<Rightarrow> stored_msg list) \<Rightarrow> ('b \<Rightarrow> int \<Rightarrow> json_text option) \<Rightarrow> ('b \<Rightarrow> int) \<Rightarrow> (json_text \<Rightarrow> exn + uuid) \<Rightarrow>
    settings \<Rightarrow> advisory \<Rightarrow> json_text \<Rightarrow> 'b desk \<Rightarrow> bool" where
  "desk_ok stored holds last_seq job cfg adv raw s \<longleftrightarrow> adv_stream_seq adv \<le> last_seq (dk_broker s) \<and>
     message_ok job cfg adv raw (dk_db s) (stored (dk_broker s)) (holds (dk_broker s) (adv_stream_seq adv)) \<and>
     (\<forall>r ph. dk_open s r = Some ph \<longrightarrow> phase_ok job cfg adv raw (dk_db s) (stored (dk_broker s)) ph)"

lemma desk_okD:
  assumes "desk_ok stored holds last_seq job cfg adv raw s"
  shows "reachable (dk_db s)" "dk_open s r = Some ph \<Longrightarrow> phase_ok job cfg adv raw (dk_db s) (stored (dk_broker s)) ph"
  using assms by (simp_all add: desk_ok_def message_ok_def)

text \<open>A step moves the database and the broker, and one handling; the others keep their place.\<close>

lemma desk_ok_move:
  assumes "desk_ok stored holds last_seq job cfg adv raw s" "db_steps (dk_db s) d" "last_seq (dk_broker s) \<le> last_seq b"
    and "message_ok job cfg adv raw d (stored b) (holds b (adv_stream_seq adv))"
    and "set (copies cfg adv (stored (dk_broker s))) \<subseteq> set (copies cfg adv (stored b))"
    and "\<And>ph. next_phase = Some ph \<Longrightarrow> phase_ok job cfg adv raw d (stored b) ph"
  shows "desk_ok stored holds last_seq job cfg adv raw (s\<lparr>dk_db := d, dk_broker := b, dk_open := (dk_open s)(r := next_phase), dk_acked := n\<rparr>)"
proof -
  have "reachable (dk_db s)" using assms(1) by (simp add: desk_ok_def message_ok_def)
  then have "phase_ok job cfg adv raw d (stored b) ph" if "dk_open s r' = Some ph" for r' ph
    using phase_ok_mono [OF _ _ assms(2,5)] assms(1) that unfolding desk_ok_def by blast
  with assms(1,3,4,6) show ?thesis by (auto simp: desk_ok_def)
qed

text \<open>A step that touches only the database.\<close>

lemma desk_ok_db:
  assumes "desk_ok stored holds last_seq job cfg adv raw s" "db_steps (dk_db s) d" "phase_ok job cfg adv raw d (stored (dk_broker s)) ph"
  shows "desk_ok stored holds last_seq job cfg adv raw (s\<lparr>dk_db := d, dk_open := (dk_open s)(r \<mapsto> ph)\<rparr>)"
proof -
  have "message_ok job cfg adv raw d (stored (dk_broker s)) (holds (dk_broker s) (adv_stream_seq adv))"
    using message_ok_mono [OF _ assms(2) refl] assms(1) by (simp add: desk_ok_def)
  then show ?thesis using desk_ok_move [OF assms(1,2) order_refl, of "Some ph" "dk_acked s" r] assms(3) by simp
qed

context js_work_stream
begin

lemma fetch_ok:
  assumes "desk_ok stored holds last_seq job cfg adv raw s" "js_get_msg js work (adv_stream_seq adv) (dk_broker s) = (got, b)"
  shows "message_ok job cfg adv raw (dk_db s) (stored b) (holds b (adv_stream_seq adv))" "last_seq b = last_seq (dk_broker s)"
    "stored b = stored (dk_broker s)" "\<forall>raw'. got = Inr raw' \<longrightarrow> raw' = raw"
  using assms(1) get_msg [OF assms(2)] by (auto simp: desk_ok_def message_ok_def)

lemma copy_ok:
  assumes "desk_ok stored holds last_seq job cfg adv raw s" "js_publish js (subject_dlq cfg) raw (dlq_headers cfg adv) (dk_broker s) = (out, b)"
  shows "message_ok job cfg adv raw (dk_db s) (stored b) (holds b (adv_stream_seq adv))" "last_seq (dk_broker s) \<le> last_seq b"
    "set (copies cfg adv (stored (dk_broker s))) \<subseteq> set (copies cfg adv (stored b))"
    "\<forall>u. out = Inr u \<longrightarrow> dlq_copy cfg adv raw \<in> set (stored b)"
proof -
  let ?b = "dk_broker s"
  have ok: "adv_stream_seq adv \<le> last_seq ?b" "message_ok job cfg adv raw (dk_db s) (stored ?b) (holds ?b (adv_stream_seq adv))"
    using assms(1) by (simp_all add: desk_ok_def)
  then have kept: "last_seq ?b \<le> last_seq b" "holds b (adv_stream_seq adv) = holds ?b (adv_stream_seq adv)"
    using publish_keeps [OF assms(2)] by auto
  have same: "set (copies cfg adv (stored ?b)) \<subseteq> {dlq_copy cfg adv raw}" using ok(2) by (simp add: message_ok_def)
  have sent: "stored b = stored ?b @ [dlq_copy cfg adv raw] \<or>
      stored b = stored ?b \<and> (dlq_copy cfg adv raw \<in> set (stored ?b) \<or> (\<exists>e. out = Inl e))"
    using publish_stores [OF dlq_headers_id assms(2)] copies_there [OF same] unfolding dlq_copy_def by blast
  show "\<forall>u. out = Inr u \<longrightarrow> dlq_copy cfg adv raw \<in> set (stored b)" using sent by auto
  show more: "set (copies cfg adv (stored ?b)) \<subseteq> set (copies cfg adv (stored b))" using sent by auto
  show "last_seq ?b \<le> last_seq b" by (rule kept(1))
  have "set (copies cfg adv (stored b)) \<subseteq> {dlq_copy cfg adv raw}" using sent same by auto
  then show "message_ok job cfg adv raw (dk_db s) (stored b) (holds b (adv_stream_seq adv))"
    using ok(2) kept(2) filed_mono [OF _ _ rtranclp.rtrancl_refl more] unfolding message_ok_def by metis
qed

lemma delete_ok:
  assumes "desk_ok stored holds last_seq job cfg adv raw s" "js_delete_msg js work (adv_stream_seq adv) (dk_broker s) = (out, b)"
    and "filed job cfg adv raw (dk_db s) (stored (dk_broker s))"
  shows "message_ok job cfg adv raw (dk_db s) (stored b) (holds b (adv_stream_seq adv))" "last_seq b = last_seq (dk_broker s)"
    "stored b = stored (dk_broker s)"
  using assms(1,3) delete_msg [OF assms(2)] by (auto simp: desk_ok_def message_ok_def)

lemma desk_ok_step:
  assumes "desk_step js (leaves_alone stored holds last_seq cfg adv) tel rt cfg adv s s'" "work = stream_name cfg"
    and "desk_ok stored holds last_seq (message_job tel rt) cfg adv raw s"
  shows "desk_ok stored holds last_seq (message_job tel rt) cfg adv raw s'"
  using assms(1)
proof (cases rule: desk_step.cases)
  case (receiving r)
  then show ?thesis using assms(3) by (auto simp: desk_ok_def)
next
  case (fetching r got b ph)
  note ok = fetch_ok [OF assms(3) fetching(3) [folded assms(2)]]
  have "phase_ok (message_job tel rt) cfg adv raw (dk_db s) (stored b) ph"
    using fetching(4) ok(4) by (cases got) (auto split: sum.splits)
  then show ?thesis using desk_ok_move [OF assms(3) rtranclp.rtrancl_refl _ ok(1), of "Some ph" "dk_acked s" r] fetching(1) ok(2,3) by simp
next
  case (copying r raw' i out b ph)
  have cp: "raw' = raw" "message_job tel rt raw = Inr i" using desk_okD(2) [OF assms(3) copying(2)] by simp_all
  note ok = copy_ok [OF assms(3) copying(3) [unfolded cp]]
  have "phase_ok (message_job tel rt) cfg adv raw (dk_db s) (stored b) ph"
    using copying(4) ok(4) cp(2) by (auto split: sum.splits)
  then show ?thesis using desk_ok_move [OF assms(3) rtranclp.rtrancl_refl ok(2,1,3), of "Some ph" "dk_acked s" r] copying(1) by simp
next
  case (recording r i out d)
  note here = desk_okD(2) [OF assms(3) recording(2)] desk_okD(1) [OF assms(3)]
  have steps: "db_steps (dk_db s) d" using dead_letter_step [of "dk_db s" adv i] recording(3) by simp
  have "filed (message_job tel rt) cfg adv raw d (stored (dk_broker s))" if "cleans_up out"
    using dead_letter_settles [OF here(2) recording(3) that] here(1) by (simp add: filed_def)
  then show ?thesis using desk_ok_db [OF assms(3) steps, of "if cleans_up out then Deleting else Acking"] recording(1) by simp
next
  case (disconnected r i d)
  then have "db_steps (dk_db s) d" using dead_letter_step [of "dk_db s" adv i] by auto
  from desk_ok_db [OF assms(3) this, of Acking] show ?thesis using disconnected(1) by simp
next
  case (deleting r out b)
  have "filed (message_job tel rt) cfg adv raw (dk_db s) (stored (dk_broker s))" using desk_okD(2) [OF assms(3) deleting(2)] by simp
  note ok = delete_ok [OF assms(3) deleting(3) [folded assms(2)] this]
  show ?thesis using desk_ok_move [OF assms(3) rtranclp.rtrancl_refl _ ok(1), of "Some Acking" "dk_acked s" r] deleting(1) ok(2,3) by simp
next
  case (acking r data out b)
  then show ?thesis using assms(3) ack_keeps [OF acking(3)] by (auto simp: desk_ok_def)
next
  case (dying r ph)
  then show ?thesis using assms(3) by (auto simp: desk_ok_def)
next
  case (elsewhere d b)
  have rely: "last_seq (dk_broker s) \<le> last_seq b" "holds b (adv_stream_seq adv) = holds (dk_broker s) (adv_stream_seq adv)"
      "copies cfg adv (stored b) = copies cfg adv (stored (dk_broker s))" using elsewhere(3) by (simp_all add: leaves_alone_def)
  have "message_ok (message_job tel rt) cfg adv raw d (stored b) (holds b (adv_stream_seq adv))"
    using message_ok_mono [OF _ elsewhere(2) rely(3)] assms(3) rely(2) by (simp add: desk_ok_def)
  moreover have "phase_ok (message_job tel rt) cfg adv raw d (stored b) ph" if "dk_open s r = Some ph" for r ph
    using phase_ok_mono [OF _ _ elsewhere(2) eq_refl] rely(3) assms(3) that unfolding desk_ok_def message_ok_def by metis
  ultimately show ?thesis using assms(3) rely(1) elsewhere(1) by (auto simp: desk_ok_def)
qed

lemma desk_ok_steps:
  assumes "desk_steps js (leaves_alone stored holds last_seq cfg adv) tel rt cfg adv s s'" "work = stream_name cfg"
    and "desk_ok stored holds last_seq (message_job tel rt) cfg adv raw s"
  shows "desk_ok stored holds last_seq (message_job tel rt) cfg adv raw s'"
  using assms(1) by (induction rule: rtranclp_induct) (use assms(2,3) desk_ok_step in blast)+

end

section \<open>Handling an advisory again\<close>

lemma dead_letter_cleans_up:
  assumes "history_inv d" "find_job i d = Some row" "int4_ok (adv_deliveries adv)"
  shows "cleans_up (fst (dead_letter adv i d))"
proof -
  obtain s where s: "jr_state row = job_state_value s" using job_log [OF _ assms(2)] assms(1) by (metis history_inv_def)
  have fence: "int8_ok (jr_fence row)"
    using assms(1) find_job_inv [OF _ assms(2)] by (auto simp: history_inv_def fences_ok_def)
  show ?thesis
  proof (cases "\<exists>st. lifecycle (Some s) E_DEAD_LETTERED st")
    case True
    then obtain st where st: "lifecycle (Some s) E_DEAD_LETTERED st" by blast
    show ?thesis using record_event_ok [OF assms(2) s st assms(3), of None] fence by (simp add: dead_letter_def fence_of_def)
  next
    case False
    then show ?thesis using record_event_illegal [OF assms(2) s] by (simp add: dead_letter_def)
  qed
qed

lemma handle_advisory_parsed:
  assumes "parse_advisory rt data = Inr (Some adv)"
    and "js_ack js data (ls_broker (snd (quarantine js tel rt cfg adv w))) = (Inr (), b)"
  shows "handle_advisory js tel rt cfg data w =
    (Inr (), (snd (quarantine js tel rt cfg adv w))\<lparr>ls_broker := b, ls_acked := ls_acked w + 1\<rparr>)"
  using assms by (simp add: handle_advisory_def Let_def)

text \<open>The run in which every call is answered.\<close>

lemma quarantine_answered:
  assumes "js_get_msg js (stream_name cfg) (adv_stream_seq adv) (ls_broker w) = (Inr raw, b0)" "message_job tel rt raw = Inr i"
    and "js_publish js (subject_dlq cfg) raw (dlq_headers cfg adv) b0 = (Inr (), b1)" "cleans_up (fst (dead_letter adv i (ls_db w)))"
    and "js_delete_msg js (stream_name cfg) (adv_stream_seq adv) b1 = (Inr (), b2)"
  shows "quarantine js tel rt cfg adv w =
    (Inr (), w\<lparr>ls_db := snd (dead_letter adv i (ls_db w)), ls_broker := b2, ls_quarantined := ls_quarantined w + 1\<rparr>)"
  using assms by (cases "dead_letter adv i (ls_db w)") (simp add: quarantine_calls quarantine_inner_calls)

context js_work_stream
begin

lemma handled_again:
  assumes "work = stream_name cfg" "desk_ok stored holds last_seq (message_job tel rt) cfg adv raw s" "dk_open s r = None"
    and "parse_advisory rt data = Inr (Some adv)" "message_job tel rt raw = Inr i" "find_job i (dk_db s) = Some row" "int4_ok (adv_deliveries adv)"
    and "ls_db w = dk_db s" "ls_broker w = dk_broker s"
    and "holds (dk_broker s) (adv_stream_seq adv) = Some raw \<longrightarrow> (\<exists>b0 b1 b2.
      js_get_msg js work (adv_stream_seq adv) (dk_broker s) = (Inr raw, b0) \<and>
      js_publish js (subject_dlq cfg) raw (dlq_headers cfg adv) b0 = (Inr (), b1) \<and> js_delete_msg js work (adv_stream_seq adv) b1 = (Inr (), b2))"
    and "\<forall>b. is_ok (fst (js_ack js data b))"
  shows "\<exists>w'. handle_advisory js tel rt cfg data w = (Inr (), w') \<and> ls_acked w' = ls_acked w + 1 \<and>
    holds (ls_broker w') (adv_stream_seq adv) = None \<and> filed (message_job tel rt) cfg adv raw (ls_db w') (stored (ls_broker w')) \<and>
    set (copies cfg adv (stored (ls_broker w'))) \<subseteq> {dlq_copy cfg adv raw}"
proof -
  let ?q = "snd (quarantine js tel rt cfg adv w)"
  obtain b where ack: "js_ack js data (ls_broker ?q) = (Inr (), b)"
    using assms(11) by (metis is_ok.elims(2) old.unit.exhaust prod.collapse)
  note kept = ack_keeps [OF ack] and run = handle_advisory_parsed [OF assms(4) ack]
  let ?w' = "?q\<lparr>ls_broker := b, ls_acked := ls_acked w + 1\<rparr>"
  have "desk_ok stored holds last_seq (message_job tel rt) cfg adv raw (s\<lparr>dk_db := ls_db ?w', dk_broker := ls_broker ?w', dk_acked := dk_acked s + of_bool (is_ok (Inr () :: exn + unit))\<rparr>)"
    by (rule desk_ok_steps [OF handling_is_steps [OF assms(4) run _ _ assms(3)] assms(1,2)]) (simp_all add: assms(8,9))
  then have ok: "message_ok (message_job tel rt) cfg adv raw (ls_db ?w') (stored (ls_broker ?w')) (holds (ls_broker ?w') (adv_stream_seq adv))"
    by (simp add: desk_ok_def)
  have "holds (ls_broker ?w') (adv_stream_seq adv) = None"
  proof (cases "holds (dk_broker s) (adv_stream_seq adv) = Some raw")
    case True
    then obtain b0 b1 b2 where calls: "js_get_msg js work (adv_stream_seq adv) (dk_broker s) = (Inr raw, b0)"
        "js_publish js (subject_dlq cfg) raw (dlq_headers cfg adv) b0 = (Inr (), b1)" "js_delete_msg js work (adv_stream_seq adv) b1 = (Inr (), b2)"
      using assms(10) by blast
    have "cleans_up (fst (dead_letter adv i (dk_db s)))"
      by (rule dead_letter_cleans_up [OF history_inv_reachable [OF desk_okD(1) [OF assms(2)]] assms(6,7)])
    then show ?thesis
      using quarantine_answered [of js cfg adv w raw b0 tel rt i b1 b2] calls assms(1,5,8,9) delete_msg [OF calls(3)] kept by auto
  next
    case False
    then have none: "holds (dk_broker s) (adv_stream_seq adv) = None" using assms(2) by (auto simp: desk_ok_def message_ok_def)
    obtain got b where got: "js_get_msg js work (adv_stream_seq adv) (dk_broker s) = (got, b)" by fastforce
    then obtain e where "got = Inl e" using get_msg [OF got] none by (cases got) auto
    then show ?thesis using got get_msg [OF got] none assms(1,9) kept by (simp add: quarantine_calls)
  qed
  then show ?thesis using ok run by (auto simp: message_ok_def)
qed

end

section \<open>Properties\<close>

lemma desk_ok_start:
  assumes "js_work_stream js stored (stream_name cfg) holds last_seq" "reachable (dk_db s)" "dk_open s = Map.empty"
    and "holds (dk_broker s) (adv_stream_seq adv) = Some raw" "copies cfg adv (stored (dk_broker s)) = []"
  shows "desk_ok stored holds last_seq job cfg adv raw s"
  using assms(2-5) js_work_stream.held_seq [OF assms(1,4)] by (simp add: desk_ok_def message_ok_def)

text \<open>C13: A poison message is never lost, whatever happens to its quarantine: however often the advisory is
  delivered, however many listeners handle it at once, whichever of their calls fail, before or after
  taking effect, and at whichever call they die, as long as nobody else deletes the message or publishes
  under the listener's message id, the message is still in the work stream, or it has been copied to the
  dead-letter subject and the job it names has been dead-lettered or was finished. Whatever stands under
  the listener's message id is a copy of the very message. A repeated handling may copy it again:
  nothing is assumed of how long the broker remembers an id.\<close>

theorem poison_message_is_never_lost:
  assumes "js_work_stream js stored (stream_name cfg) holds last_seq" and "reachable (dk_db s)" and "dk_open s = Map.empty"
    and "holds (dk_broker s) (adv_stream_seq adv) = Some raw" and "copies cfg adv (stored (dk_broker s)) = []"
    and "desk_steps js (leaves_alone stored holds last_seq cfg adv) tel rt cfg adv s s'"
  shows "set (copies cfg adv (stored (dk_broker s'))) \<subseteq> {dlq_copy cfg adv raw} \<and>
    (holds (dk_broker s') (adv_stream_seq adv) = Some raw \<or>
     holds (dk_broker s') (adv_stream_seq adv) = None \<and> dlq_copy cfg adv raw \<in> set (stored (dk_broker s')) \<and>
       (\<exists>i. message_job tel rt raw = Inr i \<and> settled i (dk_db s')))"
  using js_work_stream.desk_ok_steps [OF assms(1,6) refl desk_ok_start [OF assms(1-5)]]
  by (auto simp: desk_ok_def message_ok_def filed_def)

text \<open>C14: A quarantine may be late, and a listener that died catches up: whatever state interrupted handlings
  have left behind, one more delivery of the advisory that nothing disturbs, with a broker that answers
  its calls, acknowledges the advisory and leaves the message deleted from the work stream, copied
  to the dead-letter subject, every copy the very message, and its job dead-lettered or finished.\<close>

theorem interrupted_quarantine_is_completed:
  assumes "js_work_stream js stored (stream_name cfg) holds last_seq" and "reachable (dk_db s)" and "dk_open s = Map.empty"
    and "holds (dk_broker s) (adv_stream_seq adv) = Some raw" and "copies cfg adv (stored (dk_broker s)) = []"
    and "desk_steps js (leaves_alone stored holds last_seq cfg adv) tel rt cfg adv s s'" and "dk_open s' r = None"
    and "parse_advisory rt data = Inr (Some adv)" and "message_job tel rt raw = Inr i"
    and "find_job i (dk_db s') = Some row" and "int4_ok (adv_deliveries adv)"
    and "ls_db w = dk_db s'" and "ls_broker w = dk_broker s'"
    and "holds (dk_broker s') (adv_stream_seq adv) = Some raw \<longrightarrow> (\<exists>b0 b1 b2.
      js_get_msg js (stream_name cfg) (adv_stream_seq adv) (dk_broker s') = (Inr raw, b0) \<and>
      js_publish js (subject_dlq cfg) raw (dlq_headers cfg adv) b0 = (Inr (), b1) \<and>
      js_delete_msg js (stream_name cfg) (adv_stream_seq adv) b1 = (Inr (), b2))"
    and "\<forall>b. is_ok (fst (js_ack js data b))"
  shows "\<exists>w'. handle_advisory js tel rt cfg data w = (Inr (), w') \<and> ls_acked w' = ls_acked w + 1 \<and>
    holds (ls_broker w') (adv_stream_seq adv) = None \<and> dlq_copy cfg adv raw \<in> set (stored (ls_broker w')) \<and>
    set (copies cfg adv (stored (ls_broker w'))) \<subseteq> {dlq_copy cfg adv raw} \<and> settled i (ls_db w')"
proof -
  note ok = js_work_stream.desk_ok_steps [OF assms(1,6) refl desk_ok_start [OF assms(1-5)]]
  from js_work_stream.handled_again [OF assms(1) refl ok assms(7-15)] assms(9) show ?thesis by (auto simp: filed_def)
qed

text \<open>A listener that dies when it has recorded the dead letter, and what a replay and a second handling make of
  the job.\<close>

lemma interrupted_before_delete:
  assumes "dk_open s r = None" "js_get_msg js (stream_name cfg) (adv_stream_seq adv) (dk_broker s) = (Inr raw, b0)" "message_job tel rt raw = Inr i"
    and "js_publish js (subject_dlq cfg) raw (dlq_headers cfg adv) b0 = (Inr (), b1)" "dead_letter adv i (dk_db s) = (out, d)" "cleans_up out"
  shows "desk_steps js others tel rt cfg adv s (s\<lparr>dk_db := d, dk_broker := b1\<rparr>)"
proof -
  let ?at = "desk_at s r"
  have "desk_step js others tel rt cfg adv s (?at (dk_db s) (dk_broker s) Fetching)"
    using desk_step.receiving [OF assms(1)] by (simp add: desk_at_def)
  moreover have "desk_step js others tel rt cfg adv (?at (dk_db s) (dk_broker s) Fetching) (?at (dk_db s) b0 (Copying raw i))"
    using desk_at_moves(1) [OF assms(2), of others tel rt s r "dk_db s"] assms(3) by simp
  moreover have "desk_step js others tel rt cfg adv (?at (dk_db s) b0 (Copying raw i)) (?at (dk_db s) b1 (Recording i))"
    using desk_at_moves(2) [OF assms(4), of others tel rt s r "dk_db s" i] by simp
  moreover have "desk_step js others tel rt cfg adv (?at (dk_db s) b1 (Recording i)) (?at d b1 Deleting)"
    using desk_at_moves(3) [OF assms(5), of js others tel rt cfg s r b1] assms(6) by simp
  moreover have "desk_step js others tel rt cfg adv (?at d b1 Deleting) (s\<lparr>dk_db := d, dk_broker := b1\<rparr>)"
    using desk_step.dying [of "?at d b1 Deleting" r Deleting js others tel rt cfg adv] assms(1) by (simp add: desk_at_def fun_upd_idem)
  ultimately show ?thesis by (meson converse_rtranclp_into_rtranclp r_into_rtranclp)
qed

lemma dead_replayed_dead:
  assumes "history_inv d" "find_job i d = Some row" "jr_state row = job_state_value s" "s \<in> {S_QUEUED, S_RUNNING}" "int4_ok (adv_deliveries adv)"
  obtains d1 d2 d3 row' evs evs' ob where "dead_letter adv i d = (Inr S_DEAD_LETTER, d1)"
    "replay_job i sub d1 = (Inr (Some S_QUEUED), d2)" "dead_letter adv i d2 = (Inr S_DEAD_LETTER, d3)"
    "find_job i d3 = Some row'" "jr_state row' = job_state_value S_DEAD_LETTER" "replay_events i d = Inr evs" "replay_events i d3 = Inr evs'"
    "map ev_type evs' = map ev_type evs @ [E_DEAD_LETTERED, E_REPLAYED, E_DEAD_LETTERED]" "ob \<in> set (outbox d3)" "ob_job ob = i" "ob_published ob = None"
proof -
  let ?dt = "[(''stream_seq'', JInt (adv_stream_seq adv)), (''deliveries'', JInt (adv_deliveries adv))]"
  let ?dead = "write_event i E_DEAD_LETTERED (adv_deliveries adv) ?dt (jr_fence row) None S_DEAD_LETTER"
  let ?msg = "JObj [(''job_id'', JStr (uuid_str i)), (''payload'', jr_payload row)]"
  let ?requeued = "write_event i E_REPLAYED 0 [] (jr_fence row) None S_QUEUED (?dead d)"
  let ?d2 = "insert_outbox i sub ?msg ?requeued"
  have fence: "int8_ok (jr_fence row)" using assms(1) find_job_inv [OF _ assms(2)] by (auto simp: history_inv_def fences_ok_def)
  have dead: "dead_letter adv i d' = (Inr S_DEAD_LETTER, ?dead d')"
    if "find_job i d' = Some r'" "jr_state r' = job_state_value s'" "s' \<in> {S_QUEUED, S_RUNNING}" "jr_fence r' = jr_fence row" for d' r' s'
    using record_event_ok [OF that(1,2) lifecycle.quarantine [OF that(3)] assms(5), of None] fence that(4)
    by (simp add: dead_letter_def fence_of_def)
  have row1: "find_job i (?dead d) = Some (upd_row S_DEAD_LETTER (adv_deliveries adv) (jr_fence row) None (db_now d) row)"
    by (rule find_job_written [OF assms(2) order_refl])
  obtain r2 where row2: "find_job i ?d2 = Some r2" "jr_state r2 = job_state_value S_QUEUED" "jr_fence r2 = jr_fence row"
    using find_job_written [OF row1, of "jr_fence row" E_REPLAYED 0 "[]" None S_QUEUED] by (simp add: upd_row_def insert_outbox_def find_job_def)
  have replayed: "replay_job i sub (?dead d) = (Inr (Some S_QUEUED), ?d2)"
    using replay_dead_letter [OF row1, of sub] fence by (simp add: upd_row_def)
  have again: "dead_letter adv i ?d2 = (Inr S_DEAD_LETTER, ?dead ?d2)" by (rule dead [OF row2(1,2) _ row2(3)]) simp
  obtain evs where evs: "replay_events i d = Inr evs" using job_log [OF _ assms(2)] assms(1) by (metis history_inv_def)
  have "history_inv (?dead d)" using history_inv_record [OF assms(1), of E_DEAD_LETTERED i "adv_deliveries adv" "Some ?dt" None None] dead [OF assms(2-4) refl]
    by (simp add: dead_letter_def)
  moreover from this have "history_inv ?d2" using history_inv_replay [of "?dead d" i sub] unfolding replayed snd_conv by blast
  ultimately have "db_inv d" "db_inv (?dead d)" "db_inv ?d2" using assms(1) by (simp_all add: history_inv_def)
  note ids = this [THEN db_inv_ids]
  have "replay_events i ?d2 = replay_events i ?requeued" by (rule replay_events_cong) (simp add: insert_outbox_def)
  then obtain evs' where evs': "replay_events i (?dead ?d2) = Inr evs'" "map ev_type evs' = map ev_type evs @ [E_DEAD_LETTERED, E_REPLAYED, E_DEAD_LETTERED]"
    using evs by (simp add: replay_events_write [OF ids(1)] replay_events_write [OF ids(2)] replay_events_write [OF ids(3)])
  have ob: "last (outbox ?d2) \<in> set (outbox (?dead ?d2))" "ob_job (last (outbox ?d2)) = i" "ob_published (last (outbox ?d2)) = None"
    by (simp_all add: insert_outbox_def)
  note found = find_job_written [OF row2(1) eq_refl [OF row2(3)], of E_DEAD_LETTERED "adv_deliveries adv" ?dt None S_DEAD_LETTER]
  show ?thesis by (rule that [OF dead [OF assms(2-4) refl] replayed again found _ evs evs' ob]) (simp add: upd_row_def)
qed

text \<open>C15: A replay that comes between a listener's death and the next delivery of its advisory is undone:
  the listener has recorded the dead letter and dies before it deletes the message; the operator's
  replay is accepted and puts the job back to \<open>queued\<close>; the advisory is delivered again, and the job is
  dead-lettered a second time although nothing has run it, while the message of the replay is on its
  way.\<close>

theorem replay_during_quarantine_is_undone:
  assumes "reachable d" and "find_job i d = Some row" and "jr_state row = job_state_value s" and "s \<in> {S_QUEUED, S_RUNNING}"
    and "int4_ok (adv_deliveries adv)" and "parse_advisory rt data = Inr (Some adv)" and "message_job tel rt raw = Inr i"
    and "js_get_msg js (stream_name cfg) (adv_stream_seq adv) b = (Inr raw, b0)"
    and "js_publish js (subject_dlq cfg) raw (dlq_headers cfg adv) b0 = (Inr (), b1)"
    and "js_get_msg js (stream_name cfg) (adv_stream_seq adv) b1 = (Inr raw, b2)"
    and "js_publish js (subject_dlq cfg) raw (dlq_headers cfg adv) b2 = (Inr (), b3)"
    and "js_delete_msg js (stream_name cfg) (adv_stream_seq adv) b3 = (Inr (), b4)" and "js_ack js data b4 = (Inr (), b5)"
  shows "\<exists>d1 d2 w' row' evs evs' ob. desk_steps js others tel rt cfg adv
      \<lparr>dk_db = d, dk_broker = b, dk_open = Map.empty, dk_acked = 0\<rparr> \<lparr>dk_db = d1, dk_broker = b1, dk_open = Map.empty, dk_acked = 0\<rparr> \<and>
    replay_job i (subject_jobs cfg) d1 = (Inr (Some S_QUEUED), d2) \<and>
    handle_advisory js tel rt cfg data \<lparr>ls_db = d2, ls_broker = b1, ls_quarantined = 0, ls_acked = 0\<rparr> = (Inr (), w') \<and>
    find_job i (ls_db w') = Some row' \<and> jr_state row' = job_state_value S_DEAD_LETTER \<and>
    replay_events i d = Inr evs \<and> replay_events i (ls_db w') = Inr evs' \<and>
    map ev_type evs' = map ev_type evs @ [E_DEAD_LETTERED, E_REPLAYED, E_DEAD_LETTERED] \<and>
    ob \<in> set (outbox (ls_db w')) \<and> ob_job ob = i \<and> ob_published ob = None"
proof -
  obtain d1 d2 d3 row' evs evs' ob where story: "dead_letter adv i d = (Inr S_DEAD_LETTER, d1)"
      "replay_job i (subject_jobs cfg) d1 = (Inr (Some S_QUEUED), d2)" "dead_letter adv i d2 = (Inr S_DEAD_LETTER, d3)"
      "find_job i d3 = Some row'" "jr_state row' = job_state_value S_DEAD_LETTER" "replay_events i d = Inr evs" "replay_events i d3 = Inr evs'"
      "map ev_type evs' = map ev_type evs @ [E_DEAD_LETTERED, E_REPLAYED, E_DEAD_LETTERED]" "ob \<in> set (outbox d3)" "ob_job ob = i" "ob_published ob = None"
    using history_inv_reachable [OF assms(1)] assms(2-5) by (rule dead_replayed_dead)
  let ?s = "\<lparr>dk_db = d, dk_broker = b, dk_open = Map.empty, dk_acked = 0\<rparr>" and ?w = "\<lparr>ls_db = d2, ls_broker = b1, ls_quarantined = 0, ls_acked = 0\<rparr>"
  have "desk_steps js others tel rt cfg adv ?s (?s\<lparr>dk_db := d1, dk_broker := b1\<rparr>)"
    using interrupted_before_delete [of ?s 0 js cfg adv raw b0 tel rt i b1] assms(7-9) story(1) by simp
  moreover have "handle_advisory js tel rt cfg data ?w =
      (Inr (), \<lparr>ls_db = d3, ls_broker = b5, ls_quarantined = 1, ls_acked = 1\<rparr>)"
    using quarantine_answered [of js cfg adv ?w raw b2 tel rt i b3 b4] assms(7,10-13) story(3)
    by (simp add: handle_advisory_parsed [OF assms(6)])
  ultimately show ?thesis using story
    by (intro exI [of _ d1] exI [of _ d2] exI [of _ "\<lparr>ls_db = d3, ls_broker = b5, ls_quarantined = 1, ls_acked = 1\<rparr>"]
        exI [of _ row'] exI [of _ evs] exI [of _ evs'] exI [of _ ob]) simp
qed

section \<open>Examples\<close>

definition demo_desk :: "ref_broker desk" where
  "demo_desk = \<lparr>dk_db = demo_db, dk_broker = ls_broker demo_listener, dk_open = Map.empty, dk_acked = 0\<rparr>"

lemma demo_message_job: "message_job demo_quiet_otel demo_runtime demo_raw = Inr 1"
proof -
  let ?body = "[(''job_id'', JStr (uuid_str 1)), (''payload'', JObj demo_payload), (''traceparent'', JObj [])]"
  have "is_ok (context_from demo_quiet_otel demo_runtime (dict_get_none ?body ''traceparent''))" by (rule demo_listener_services(4))
  then obtain ctx where "context_from demo_quiet_otel demo_runtime (dict_get_none ?body ''traceparent'') = Inr ctx"
    by (cases "context_from demo_quiet_otel demo_runtime (dict_get_none ?body ''traceparent'')") auto
  then show ?thesis by (simp add: message_job_def demo_listener_services(2) dict_item_def dict_get_def uuid_of_str_str)
qed

lemma demo_desk_start:
  "js_work_stream ref_js rb_msgs (stream_name Settings) ref_holds (\<lambda>b. int (length (rb_msgs b)))"
  "reachable (dk_db demo_desk)" "dk_open demo_desk = Map.empty" "ref_holds (dk_broker demo_desk) (adv_stream_seq demo_adv) = Some demo_raw"
  "copies Settings demo_adv (rb_msgs (dk_broker demo_desk)) = []"
proof -
  show "reachable (dk_db demo_desk)" using demo_reachable by (simp add: demo_desk_def)
qed (rule ref_work.js_work_stream_axioms,
  simp_all add: demo_desk_def demo_listener_def ref_holds_def demo_adv_def ref_broker0_def copies_def dlq_id_def Settings_def)

lemma demo_calls:
  obtains b3 b4 where "js_get_msg ref_js (stream_name Settings) (adv_stream_seq demo_adv) demo_copied = (Inr demo_raw, demo_copied)"
    "js_publish ref_js (subject_dlq Settings) demo_raw (dlq_headers Settings demo_adv) demo_copied = (Inr (), b3)"
    "js_delete_msg ref_js (stream_name Settings) (adv_stream_seq demo_adv) b3 = (Inr (), b4)"
proof -
  have msgs: "rb_msgs demo_copied = [\<lparr>sm_id = ''outbox-1'', sm_subject = ''orbiter.jobs'', sm_data = demo_raw\<rparr>,
      \<lparr>sm_id = ''dlq-ORBITER_JOBS-1'', sm_subject = ''orbiter.dlq'', sm_data = demo_raw\<rparr>]"
    by (simp add: demo_copied_msgs) (simp add: demo_listener_def)
  have rest: "rb_deleted demo_copied = []" "rb_drop_acks demo_copied = 0"
    by (simp_all add: demo_copied_def ref_publish_def Let_def demo_listener_def ref_broker0_def)
  let ?b3 = "snd (ref_publish (subject_dlq Settings) demo_raw (dlq_headers Settings demo_adv) demo_copied)"
  have b3: "rb_deleted ?b3 = []" "rb_msgs ?b3 \<noteq> []" using rest(1) by (simp_all add: ref_publish_def Let_def window_store_def msgs)
  show ?thesis
  proof (rule that)
    show "js_get_msg ref_js (stream_name Settings) (adv_stream_seq demo_adv) demo_copied = (Inr demo_raw, demo_copied)"
      using msgs rest(1) by (simp add: ref_js_def ref_get_msg_def demo_adv_def)
    show "js_publish ref_js (subject_dlq Settings) demo_raw (dlq_headers Settings demo_adv) demo_copied = (Inr (), ?b3)"
      using rest(2) by (simp add: ref_js_def ref_publish_def Let_def)
    show "js_delete_msg ref_js (stream_name Settings) (adv_stream_seq demo_adv) ?b3 = (Inr (), ?b3\<lparr>rb_deleted := [1]\<rparr>)"
      using b3 by (cases "rb_msgs ?b3") (simp_all add: ref_js_def ref_delete_msg_def demo_adv_def)
  qed
qed

text \<open>The listener dies when it has recorded the dead letter, before it deletes the message.\<close>

definition demo_killed :: "ref_broker desk" where
  "demo_killed = demo_desk\<lparr>dk_db := snd (dead_letter demo_adv 1 demo_db), dk_broker := demo_copied\<rparr>"

lemma demo_killed_steps: "desk_steps ref_js others demo_quiet_otel demo_runtime Settings demo_adv demo_desk demo_killed"
proof -
  have "cleans_up (fst (dead_letter demo_adv 1 demo_db))"
    by (rule dead_letter_cleans_up [OF history_inv_reachable [OF demo_reachable] demo_db_row demo_row_queued(3)])
  then show ?thesis
    using interrupted_before_delete [of demo_desk 0 ref_js Settings demo_adv demo_raw _ demo_quiet_otel demo_runtime 1 demo_copied
        "fst (dead_letter demo_adv 1 demo_db)" "snd (dead_letter demo_adv 1 demo_db)"] demo_listener_services(1,5) demo_message_job
    by (simp add: demo_killed_def demo_desk_def)
qed

theorem poison_message_is_never_lost_witness:
  "\<exists>s'. desk_steps ref_js (leaves_alone rb_msgs ref_holds (\<lambda>b. int (length (rb_msgs b))) Settings demo_adv)
       demo_quiet_otel demo_runtime Settings demo_adv demo_desk s' \<and> dk_broker s' \<noteq> dk_broker demo_desk \<and>
     set (copies Settings demo_adv (rb_msgs (dk_broker s'))) \<subseteq> {dlq_copy Settings demo_adv demo_raw} \<and>
     (ref_holds (dk_broker s') 1 = Some demo_raw \<or> dlq_copy Settings demo_adv demo_raw \<in> set (rb_msgs (dk_broker s')))"
proof -
  have "rb_msgs (dk_broker demo_killed) \<noteq> rb_msgs (dk_broker demo_desk)"
    by (simp add: demo_killed_def demo_copied_msgs demo_desk_def)
  then have "dk_broker demo_killed \<noteq> dk_broker demo_desk" by metis
  moreover have "adv_stream_seq demo_adv = 1" by (simp add: demo_adv_def)
  ultimately show ?thesis
    using poison_message_is_never_lost [OF demo_desk_start demo_killed_steps] demo_killed_steps by metis
qed

theorem interrupted_quarantine_is_completed_witness:
  "\<exists>w'. handle_advisory ref_js demo_quiet_otel demo_runtime Settings demo_advisory
       \<lparr>ls_db = dk_db demo_killed, ls_broker = dk_broker demo_killed, ls_quarantined = 0, ls_acked = 0\<rparr> = (Inr (), w') \<and>
     ls_acked w' = 1 \<and> ref_holds (ls_broker w') 1 = None \<and> dlq_copy Settings demo_adv demo_raw \<in> set (rb_msgs (ls_broker w')) \<and> settled 1 (ls_db w')"
proof -
  let ?w = "\<lparr>ls_db = dk_db demo_killed, ls_broker = dk_broker demo_killed, ls_quarantined = 0, ls_acked = 0\<rparr>"
  have idle: "dk_open demo_killed 0 = None" by (simp add: demo_killed_def demo_desk_def)
  have "db_steps demo_db (dk_db demo_killed)" using dead_letter_step by (simp add: demo_killed_def)
  then obtain row where row: "find_job 1 (dk_db demo_killed) = Some row"
    using steps_keep_job [OF _ history_inv_reachable [OF demo_reachable] demo_db_row] by metis
  obtain b3 b4 where "js_get_msg ref_js (stream_name Settings) (adv_stream_seq demo_adv) (dk_broker demo_killed) = (Inr demo_raw, demo_copied)"
    "js_publish ref_js (subject_dlq Settings) demo_raw (dlq_headers Settings demo_adv) demo_copied = (Inr (), b3)"
    "js_delete_msg ref_js (stream_name Settings) (adv_stream_seq demo_adv) b3 = (Inr (), b4)"
    using demo_calls by (auto simp: demo_killed_def)
  then have calls: "ref_holds (dk_broker demo_killed) (adv_stream_seq demo_adv) = Some demo_raw \<longrightarrow> (\<exists>b0 b1 b2.
      js_get_msg ref_js (stream_name Settings) (adv_stream_seq demo_adv) (dk_broker demo_killed) = (Inr demo_raw, b0) \<and>
      js_publish ref_js (subject_dlq Settings) demo_raw (dlq_headers Settings demo_adv) b0 = (Inr (), b1) \<and>
      js_delete_msg ref_js (stream_name Settings) (adv_stream_seq demo_adv) b1 = (Inr (), b2))" by blast
  have acks: "\<forall>b. is_ok (fst (js_ack ref_js demo_advisory b))" and seq: "adv_stream_seq demo_adv = 1" by (simp_all add: ref_js_def demo_adv_def)
  have w: "ls_db ?w = dk_db demo_killed" "ls_broker ?w = dk_broker demo_killed" "ls_acked ?w = 0" by simp_all
  from interrupted_quarantine_is_completed [OF demo_desk_start demo_killed_steps idle demo_advisory_parsed demo_message_job row
      demo_row_queued(3) w(1,2) calls acks] w(3) seq show ?thesis by auto
qed

theorem replay_during_quarantine_is_undone_witness:
  "\<exists>d1 d2 w' row'. desk_steps ref_js (\<lambda>b b'. False) demo_quiet_otel demo_runtime Settings demo_adv demo_desk
       (demo_desk\<lparr>dk_db := d1, dk_broker := demo_copied\<rparr>) \<and>
     replay_job 1 (subject_jobs Settings) d1 = (Inr (Some S_QUEUED), d2) \<and>
     handle_advisory ref_js demo_quiet_otel demo_runtime Settings demo_advisory
       \<lparr>ls_db = d2, ls_broker = demo_copied, ls_quarantined = 0, ls_acked = 0\<rparr> = (Inr (), w') \<and>
     find_job 1 (ls_db w') = Some row' \<and> jr_state row' = ''dead_letter''"
proof -
  obtain b3 b4 where calls: "js_get_msg ref_js (stream_name Settings) (adv_stream_seq demo_adv) demo_copied = (Inr demo_raw, demo_copied)"
    "js_publish ref_js (subject_dlq Settings) demo_raw (dlq_headers Settings demo_adv) demo_copied = (Inr (), b3)"
    "js_delete_msg ref_js (stream_name Settings) (adv_stream_seq demo_adv) b3 = (Inr (), b4)"
    by (rule demo_calls)
  have ack: "js_ack ref_js demo_advisory b4 = (Inr (), b4\<lparr>rb_acked := rb_acked b4 + 1\<rparr>)" by (simp add: ref_js_def)
  have "demo_desk\<lparr>dk_db := d, dk_broker := b\<rparr> = \<lparr>dk_db = d, dk_broker = b, dk_open = Map.empty, dk_acked = 0\<rparr>" for d b
    by (simp add: demo_desk_def)
  then show ?thesis
    using replay_during_quarantine_is_undone [OF demo_reachable demo_db_row demo_row_queued(1-3) demo_advisory_parsed demo_message_job
        demo_listener_services(1,5) calls ack, of "\<lambda>b b'. False"]
    by (auto simp: demo_desk_def)
qed

end
