(* ===== verification/Services.thy ===== *)
theory Services
  imports Platform
begin

text \<open>
  The life of a service process: \<^verbatim>\<open>run\<close> and \<^verbatim>\<open>amain\<close> of \<^verbatim>\<open>src/orbiter/worker/main.py\<close>,
  \<^verbatim>\<open>src/orbiter/relay/outbox_relay.py\<close> and \<^verbatim>\<open>src/orbiter/dlq/listener.py\<close>, and \<^verbatim>\<open>create_app\<close> with its \<^verbatim>\<open>lifespan\<close> of
  \<^verbatim>\<open>src/orbiter/api/app.py\<close>. Each opens its connections in turn, prepares what it needs of the broker, runs its
  loop inside \<^verbatim>\<open>try\<close>, and closes the connections in the \<^verbatim>\<open>finally\<close>. What the calls of the client libraries give is
  an argument; the connections open at the end are part of the result. The locale \<open>service\<close> states what the four
  have in common.
\<close>

section \<open>Connections\<close>

datatype connection = Pool | Valkey | Nats

record client_calls =
  on_create_pool :: "exn + unit"
  on_apply_schema :: "exn + unit"
  on_connect :: "exn + unit"
  on_pull_subscribe :: "exn + unit"
  on_subscribe :: "exn + unit"
  on_close :: "connection \<Rightarrow> exn + unit"

text \<open>The closing calls of a \<^verbatim>\<open>finally\<close>, in order; one that raises replaces the outcome and skips the rest.\<close>

fun closing :: "(connection \<Rightarrow> exn + unit) \<Rightarrow> connection list \<Rightarrow> connection list \<Rightarrow> (exn + unit) \<Rightarrow> (exn + unit) \<times> connection list" where
  "closing close [] opened out = (out, opened)"
| "closing close (c # cs) opened out =
     (case close c of Inl e \<Rightarrow> (Inl e, opened) | Inr _ \<Rightarrow> closing close cs (remove1 c opened) out)"

definition finally_close ::
    "client_calls \<Rightarrow> connection list \<Rightarrow> connection list \<Rightarrow> (exn + unit) \<times> 'st \<Rightarrow> (exn + unit) \<times> connection list \<times> 'st" where
  "finally_close calls cs opened result =
     (case closing (on_close calls) cs opened (fst result) of (out, left) \<Rightarrow> (out, left, snd result))"

section \<open>The services\<close>

definition worker_service ::
    "client_calls \<Rightarrow> 'b jetstream \<Rightarrow> 's kv_ops \<Rightarrow> 'c otel \<Rightarrow> py_runtime \<Rightarrow> (real \<Rightarrow> real \<Rightarrow> real) \<Rightarrow> settings \<Rightarrow> string \<Rightarrow> real \<Rightarrow> bool \<Rightarrow>
       (bool \<times> (exn + js_msg list option)) list \<Rightarrow> 'b \<times> 's world \<Rightarrow> (exn + unit) \<times> connection list \<times> ('b \<times> 's world)" where
  "worker_service calls js kv tel rt sleep cfg worker_id t has_tables rounds bw =
     (case bw of (b, w) \<Rightarrow>
      case on_create_pool calls of
        Inl e \<Rightarrow> (Inl e, [], b, w)
      | Inr _ \<Rightarrow>
      case on_apply_schema calls of
        Inl e \<Rightarrow> (Inl e, [Pool], b, w)
      | Inr _ \<Rightarrow>
      let w1 = w\<lparr>w_shared := (w_shared w)\<lparr>sh_db := apply_schema t (if has_tables then Some (world_db w) else None)\<rparr>\<rparr> in
      case on_connect calls of
        Inl e \<Rightarrow> (Inl e, [Pool, Valkey], b, w1)
      | Inr _ \<Rightarrow>
      let b1 = ensure_stream js cfg b in
      case on_pull_subscribe calls of
        Inl e \<Rightarrow> (Inl e, [Pool, Valkey, Nats], b1, w1)
      | Inr _ \<Rightarrow>
      case on_subscribe calls of
        Inl e \<Rightarrow> (Inl e, [Pool, Valkey, Nats], b1, w1)
      | Inr _ \<Rightarrow>
      let (out, w2) = worker_run kv tel rt sleep cfg worker_id rounds w1
      in finally_close calls [Nats, Valkey, Pool] [Pool, Valkey, Nats] (out, b1, w2))"

definition relay_service ::
    "client_calls \<Rightarrow> 'b jetstream \<Rightarrow> 'c otel \<Rightarrow> py_runtime \<Rightarrow> settings \<Rightarrow> real \<Rightarrow> bool \<Rightarrow> ((db \<Rightarrow> db) \<times> int set) list \<Rightarrow> db \<times> 'b \<Rightarrow>
       (exn + unit) \<times> connection list \<times> (db \<times> 'b)" where
  "relay_service calls js tel rt cfg t has_tables polls db =
     (case db of (d, b) \<Rightarrow>
      case on_create_pool calls of
        Inl e \<Rightarrow> (Inl e, [], d, b)
      | Inr _ \<Rightarrow>
      case on_apply_schema calls of
        Inl e \<Rightarrow> (Inl e, [Pool], d, b)
      | Inr _ \<Rightarrow>
      let d1 = apply_schema t (if has_tables then Some d else None) in
      case on_connect calls of
        Inl e \<Rightarrow> (Inl e, [Pool], d1, b)
      | Inr _ \<Rightarrow>
      let b1 = ensure_stream js cfg b
      in finally_close calls [Nats, Pool] [Pool, Nats] (relay_run js tel rt cfg polls d1 b1))"

definition dlq_service ::
    "client_calls \<Rightarrow> 'b jetstream \<Rightarrow> 'c otel \<Rightarrow> py_runtime \<Rightarrow> settings \<Rightarrow> real \<Rightarrow> bool \<Rightarrow>
       ((db \<Rightarrow> db) \<times> (exn + json_text list option)) list \<Rightarrow> 'b listener \<Rightarrow> (exn + unit) \<times> connection list \<times> 'b listener" where
  "dlq_service calls js tel rt cfg t has_tables fetches w =
     (case on_create_pool calls of
        Inl e \<Rightarrow> (Inl e, [], w)
      | Inr _ \<Rightarrow>
      case on_apply_schema calls of
        Inl e \<Rightarrow> (Inl e, [Pool], w)
      | Inr _ \<Rightarrow>
      let w1 = w\<lparr>ls_db := apply_schema t (if has_tables then Some (ls_db w) else None)\<rparr> in
      case on_connect calls of
        Inl e \<Rightarrow> (Inl e, [Pool], w1)
      | Inr _ \<Rightarrow>
      let w2 = w1\<lparr>ls_broker := ensure_streams js cfg (ls_broker w1)\<rparr> in
      case on_pull_subscribe calls of
        Inl e \<Rightarrow> (Inl e, [Pool, Nats], w2)
      | Inr _ \<Rightarrow> finally_close calls [Nats, Pool] [Pool, Nats] (dlq_run js tel rt cfg fetches w2))"

text \<open>The API serves requests between the two halves of \<^verbatim>\<open>lifespan\<close>; \<open>serving\<close> is what they do. It runs without
  a broker when the connection fails, and then has none to close.\<close>

definition api_service ::
    "client_calls \<Rightarrow> settings \<Rightarrow> real \<Rightarrow> db option \<Rightarrow> exn + 'n \<Rightarrow> ('n app_state \<Rightarrow> (exn + unit) \<times> 'n app_state) \<Rightarrow>
       (exn + unit) \<times> connection list \<times> 'n app_state option" where
  "api_service calls cfg t tables connect serving =
     (case on_create_pool calls of
        Inl e \<Rightarrow> (Inl e, [], None)
      | Inr _ \<Rightarrow>
      case on_apply_schema calls of
        Inl e \<Rightarrow> (Inl e, [Pool], None)
      | Inr _ \<Rightarrow>
      case lifespan cfg t tables connect of
        Inl e \<Rightarrow> (Inl e, [Pool], None)
      | Inr a \<Rightarrow>
      let (out, a1) = serving a
      in finally_close calls (if app_nats a1 \<noteq> None then [Nats, Pool] else [Pool])
           (if app_nats a \<noteq> None then [Pool, Nats] else [Pool]) (out, Some a1))"

record app =
  app_title :: string
  app_version :: string
  app_cfg :: settings
  app_counters :: "(string \<times> string) list"
  app_instrumented :: bool

definition create_app :: "settings option \<Rightarrow> telemetry \<Rightarrow> app \<times> telemetry" where
  "create_app settings tel =
     (let cfg = (case settings of None \<Rightarrow> Settings | Some s \<Rightarrow> s)
      in (\<lparr>app_title = ''ORBITER'', app_version = ''0.1.0'', app_cfg = cfg,
            app_counters = [(''orbiter.jobs.submitted'', ''Jobs accepted by the API''),
                            (''orbiter.admission.rejected'', ''Submissions rejected with 429'')],
            app_instrumented = otel_endpoint cfg \<noteq> []\<rparr>,
          init_telemetry ''orbiter-api'' (otel_endpoint cfg) tel))"

text \<open>\<^verbatim>\<open>amain\<close> of each service: telemetry under the service's name, then \<^verbatim>\<open>run\<close>. The installed signal handlers are
  the signals in the rounds of the loops.\<close>

definition amain :: "string \<Rightarrow> settings \<Rightarrow> ('st \<Rightarrow> 'r) \<Rightarrow> telemetry \<times> 'st \<Rightarrow> telemetry \<times> 'r" where
  "amain name cfg run ts = (init_telemetry name (otel_endpoint cfg) (fst ts), run (snd ts))"

definition worker_amain where
  "worker_amain calls js kv tel rt sleep cfg worker_id t has_tables rounds =
     amain ''orbiter-worker'' cfg (worker_service calls js kv tel rt sleep cfg worker_id t has_tables rounds)"

definition relay_amain where
  "relay_amain calls js tel rt cfg t has_tables polls =
     amain ''orbiter-relay'' cfg (relay_service calls js tel rt cfg t has_tables polls)"

definition dlq_amain where
  "dlq_amain calls js tel rt cfg t has_tables fetches =
     amain ''orbiter-dlq'' cfg (dlq_service calls js tel rt cfg t has_tables fetches)"

section \<open>What the services have in common\<close>

lemma closing_all:
  assumes "\<forall>c \<in> set cs. close c = Inr ()" "distinct cs" "distinct opened" "set opened = set cs"
  shows "closing close cs opened out = (out, [])"
  using assms
proof (induction cs arbitrary: opened)
  case (Cons c cs)
  then have "set (remove1 c opened) = set cs" by (simp add: set_remove1_eq)
  with Cons show ?case by simp
qed simp

text \<open>A service whose start-up succeeds runs its loop and hands its result and its connections to the
  \<^verbatim>\<open>finally\<close>; one whose start-up does not, raises.\<close>

locale service =
  fixes run :: "client_calls \<Rightarrow> (exn + unit) \<times> connection list \<times> 'st"
    and started :: "client_calls \<Rightarrow> bool"
    and loop :: "(exn + unit) \<times> 'st"
    and closes :: "connection list"
  assumes up: "started calls \<Longrightarrow> run calls = finally_close calls closes (rev closes) loop"
    and once: "distinct closes"
    and down: "\<not> started calls \<Longrightarrow> \<exists>e. fst (run calls) = Inl e"
begin

text \<open>If closing does not raise, nothing stays open and the outcome is the loop's, an exception
  included; a closing call that raises never hides that the service has stopped.\<close>

lemma tidy: "started calls \<Longrightarrow> \<forall>c. on_close calls c = Inr () \<Longrightarrow> run calls = (fst loop, [], snd loop)"
  using once by (simp add: up finally_close_def closing_all)

lemma keeps_state: "started calls \<Longrightarrow> snd (snd (run calls)) = snd loop"
  by (simp add: up finally_close_def split_beta)

lemma clean_exit: "fst (run calls) = Inr () \<Longrightarrow> started calls"
  using down by force

end

definition common_start :: "client_calls \<Rightarrow> bool" where
  "common_start calls \<longleftrightarrow> is_ok (on_create_pool calls) \<and> is_ok (on_apply_schema calls) \<and> is_ok (on_connect calls)"

definition with_tables :: "real \<Rightarrow> bool \<Rightarrow> db \<Rightarrow> db" where
  "with_tables t has_tables d = apply_schema t (if has_tables then Some d else None)"

interpretation relay_proc: service "\<lambda>calls. relay_service calls js tel rt cfg t has_tables polls (d, b)" common_start
    "relay_run js tel rt cfg polls (with_tables t has_tables d) (ensure_stream js cfg b)" "[Nats, Pool]"
  for js :: "'b jetstream" and tel :: "'c otel" and rt cfg t has_tables polls d b
  by unfold_locales (auto simp: relay_service_def common_start_def with_tables_def Let_def split: sum.splits)

interpretation dlq_proc: service "\<lambda>calls. dlq_service calls js tel rt cfg t has_tables fetches w"
    "\<lambda>calls. common_start calls \<and> is_ok (on_pull_subscribe calls)"
    "dlq_run js tel rt cfg fetches (w\<lparr>ls_db := with_tables t has_tables (ls_db w), ls_broker := ensure_streams js cfg (ls_broker w)\<rparr>)"
    "[Nats, Pool]"
  for js :: "'b jetstream" and tel :: "'c otel" and rt cfg t has_tables fetches w
  by unfold_locales (auto simp: dlq_service_def common_start_def with_tables_def Let_def split: sum.splits)

interpretation worker_proc: service "\<lambda>calls. worker_service calls js kv tel rt sleep cfg wid t has_tables rounds (b, w)"
    "\<lambda>calls. common_start calls \<and> is_ok (on_pull_subscribe calls) \<and> is_ok (on_subscribe calls)"
    "case worker_run kv tel rt sleep cfg wid rounds (w\<lparr>w_shared := (w_shared w)\<lparr>sh_db := with_tables t has_tables (world_db w)\<rparr>\<rparr>) of
       (out, w') \<Rightarrow> (out, ensure_stream js cfg b, w')"
    "[Nats, Valkey, Pool]"
  for js :: "'b jetstream" and kv :: "'s kv_ops" and tel :: "'c otel" and rt sleep cfg wid t has_tables rounds b w
  by unfold_locales (auto simp: worker_service_def common_start_def with_tables_def Let_def split: sum.splits prod.splits)

section \<open>Properties\<close>

text \<open>A service that stops gives its connections back: once its start-up has succeeded and provided
  that closing does not raise, the worker, the relay and the dead-letter listener end with no
  connection open and with the outcome of their loop, whether it ended by a signal or by an
  exception that nobody caught.\<close>

theorem services_release_their_connections:
  assumes "common_start calls" and "is_ok (on_pull_subscribe calls)" and "is_ok (on_subscribe calls)"
    and "\<forall>c. on_close calls c = Inr ()"
  shows "fst (snd (worker_service calls js kv tel rt sleep cfg wid t has_tables rounds (b, w))) = [] \<and>
    fst (worker_service calls js kv tel rt sleep cfg wid t True rounds (b, w)) = fst (worker_run kv tel rt sleep cfg wid rounds w) \<and>
    relay_service calls js tel rt cfg t True polls (d, b) =
      (let (out, d', b') = relay_run js tel rt cfg polls d (ensure_stream js cfg b) in (out, [], d', b')) \<and>
    fst (snd (dlq_service calls js tel rt cfg t has_tables fetches l)) = [] \<and>
    fst (dlq_service calls js tel rt cfg t True fetches l) =
      fst (dlq_run js tel rt cfg fetches (l\<lparr>ls_broker := ensure_streams js cfg (ls_broker l)\<rparr>))"
proof -
  have same: "with_tables t True x = x" for x by (simp add: with_tables_def apply_schema_def)
  have w: "w\<lparr>w_shared := (w_shared w)\<lparr>sh_db := world_db w\<rparr>\<rparr> = w" by (simp add: world_db_def)
  show ?thesis
    using worker_proc.tidy [of calls js kv tel rt sleep cfg wid t _ rounds b w] relay_proc.tidy [of calls js tel rt cfg t True polls d b]
      dlq_proc.tidy [of calls js tel rt cfg t _ fetches l] assms
    by (simp add: same w split_beta)
qed

end
