(* ===== verification/Charts.thy ===== *)
theory Charts
  imports Domain
begin

text \<open>
  The chart script: \<^verbatim>\<open>scripts/make_charts.py\<close>. What it computes is modelled, from the load-test summary and
  the metrics server's answers to the lines, notes and messages of the two charts. The plotting library is not
  part of the repository: what the script asks of it is the list of \<open>draw\<close> calls, and the tick labels it makes
  for a new pair of axes are the argument \<open>ticks\<close>. The server is the function \<open>fetch\<close> from a URL to the response
  text.
\<close>

section \<open>Values the script reads\<close>

text \<open>Subscripting with \<^verbatim>\<open>0\<close>, iteration, and unpacking into a pair, on decoded JSON: texts and objects iterate too.\<close>

fun json_first :: "json \<Rightarrow> pyexn + json" where
  "json_first (JArr (x # xs)) = Inr x"
| "json_first (JArr []) = Inl (LookupError ''list index out of range'')"
| "json_first (JStr (c # cs)) = Inr (JStr [c])"
| "json_first (JStr []) = Inl (LookupError ''string index out of range'')"
| "json_first (JObj _) = Inl (KeyError ''0'')"
| "json_first _ = Inl (TypeError ''object is not subscriptable'')"

fun json_iter :: "json \<Rightarrow> pyexn + json list" where
  "json_iter (JArr xs) = Inr xs"
| "json_iter (JStr s) = Inr (map (\<lambda>c. JStr [c]) s)"
| "json_iter (JObj kvs) = Inr (map (\<lambda>kv. JStr (fst kv)) kvs)"
| "json_iter _ = Inl (TypeError ''object is not iterable'')"

definition unpack_pair :: "json \<Rightarrow> pyexn + json \<times> json" where
  "unpack_pair j =
     rbind (json_iter j) (\<lambda>xs. case xs of
         [a, b] \<Rightarrow> Inr (a, b)
       | (a # b # c # _) \<Rightarrow> Inl (ValueError ''too many values to unpack (expected 2)'')
       | _ \<Rightarrow> Inl (ValueError ''not enough values to unpack (expected 2)''))"

text \<open>\<^verbatim>\<open>urllib.parse.urlencode\<close>: unreserved characters stay, a space becomes a plus, and every other
  character the hexadecimal of its UTF-8 bytes.\<close>

definition unreserved :: "char \<Rightarrow> bool" where
  "unreserved c \<longleftrightarrow> (let n = of_char c :: nat in 48 \<le> n \<and> n \<le> 57 \<or> 65 \<le> n \<and> n \<le> 90 \<or> 97 \<le> n \<and> n \<le> 122) \<or> c \<in> set ''_.-~''"

definition hex_byte :: "nat \<Rightarrow> string" where
  "hex_byte n = ''%'' @ map (\<lambda>d. ''0123456789ABCDEF'' ! d) [n div 16 mod 16, n mod 16]"

definition quote_char :: "char \<Rightarrow> string" where
  "quote_char c =
     (let n = of_char c in
      if unreserved c then [c] else if c = CHR '' '' then ''+''
      else if n < 128 then hex_byte n else hex_byte (192 + n div 64) @ hex_byte (128 + n mod 64))"

definition quote_plus :: "string \<Rightarrow> string" where
  "quote_plus s = concat (map quote_char s)"

fun urlencode :: "(string \<times> string) list \<Rightarrow> string" where
  "urlencode [] = []"
| "urlencode [(k, v)] = quote_plus k @ ''='' @ quote_plus v"
| "urlencode ((k, v) # kvs) = quote_plus k @ ''='' @ quote_plus v @ ''&'' @ urlencode kvs"

section \<open>Charts\<close>

definition SURFACE :: string where "SURFACE = ''#fcfcfb''"
definition INK :: string where "INK = ''#0b0b0b''"
definition INK_2 :: string where "INK_2 = ''#52514e''"
definition MUTED :: string where "MUTED = ''#898781''"
definition GRID :: string where "GRID = ''#e1e0d9''"
definition BASELINE :: string where "BASELINE = ''#c3c2b7''"

definition RAMP :: "(string \<times> string) list" where
  "RAMP = [(''p50'', ''#86b6ef''), (''p95'', ''#2a78d6''), (''p99'', ''#0d366b'')]"

definition CAT :: "(string \<times> string) list" where
  "CAT = [(''submitted'', ''#2a78d6''), (''completed'', ''#eb6834'')]"

definition RATES :: "int list" where
  "RATES = [10, 25, 50, 100, 150, 200]"

text \<open>The calls of the plotting library, with the arguments the script passes.\<close>

datatype 'l draw =
    Subplots real real int
  | PatchFacecolor string
  | Suptitle string real string int string string
  | SetTitle string string real string int
  | SetFacecolor string
  | Grid bool string string real
  | SetAxisbelow bool
  | SpineVisible string bool
  | SpineColor string string
  | TickParams string int
  | LabelColor 'l string
  | XLim int real
  | YLimBottom int
  | Legend string bool int string
  | TightLayout real real real real
  | SaveFig string string string

definition style_axes :: "'l list \<Rightarrow> 'l draw list" where
  "style_axes ticks =
     [SetFacecolor SURFACE, Grid True ''y'' GRID (3 / 4), SetAxisbelow True] @
     map (\<lambda>side. SpineVisible side False) [''top'', ''right''] @
     map (\<lambda>side. SpineColor side BASELINE) [''left'', ''bottom''] @
     [TickParams MUTED 9] @ map (\<lambda>label. LabelColor label INK_2) ticks"

definition new_fig :: "'l list \<Rightarrow> string \<Rightarrow> string \<Rightarrow> 'l draw list" where
  "new_fig ticks title subtitle =
     [Subplots 8 (9 / 2) 150, PatchFacecolor SURFACE, Suptitle title (6 / 100) ''left'' 13 ''bold'' INK,
      SetTitle subtitle ''left'' (19 / 2) INK_2 10] @ style_axes ticks"

text \<open>The last calls of both charts.\<close>

definition finish_fig :: "string \<Rightarrow> 'l draw list" where
  "finish_fig out =
     [YLimBottom 0, Legend ''upper left'' False 9 INK_2, TightLayout 0 0 1 (94 / 100), SaveFig out SURFACE ''tight'']"

record ('x, 'y) line =
  ln_name :: string
  ln_colour :: string
  ln_points :: "('x \<times> 'y) list"

text \<open>A chart: the calls that frame it, in their order, and the lines, notes and axis labels between them.\<close>

record ('l, 'x, 'y) chart =
  ch_frame :: "'l draw list"
  ch_title :: string
  ch_subtitle :: string
  ch_lines :: "('x, 'y) line list"
  ch_notes :: "(string \<times> 'x \<times> 'y) list"
  ch_xlabel :: string
  ch_ylabel :: string

definition rate_metric :: "int \<Rightarrow> string" where
  "rate_metric rate = ''http_req_duration{scenario:rate'' @ int_str rate @ ''}''"

fun latency_series :: "json \<Rightarrow> int list \<Rightarrow> json list \<times> json list \<times> json list \<Rightarrow> pyexn + json list \<times> json list \<times> json list" where
  "latency_series summary [] series = Inr series"
| "latency_series summary (rate # rates) (p50, p95, p99) =
     rbind (rbind (json_item summary ''metrics'') (\<lambda>metrics. json_item metrics (rate_metric rate))) (\<lambda>m.
     rbind (json_item m ''med'') (\<lambda>a. rbind (json_item m ''p(95)'') (\<lambda>b. rbind (json_item m ''p(99)'') (\<lambda>c.
       latency_series summary rates (p50 @ [a], p95 @ [b], p99 @ [c])))))"

definition chart_latency :: "'l list \<Rightarrow> json \<Rightarrow> string \<Rightarrow> pyexn + ('l, int, json) chart \<times> string list" where
  "chart_latency ticks summary out =
     rbind (latency_series summary RATES ([], [], [])) (\<lambda>(p50, p95, p99).
       let series = [(''p50'', p50), (''p95'', p95), (''p99'', p99)] in
       Inr (\<lparr>ch_frame = new_fig ticks ''Submit latency vs offered load''
              ''POST /jobs on the local compose stack; 30s per rate window - lower is better'' @
              XLim 0 (of_int (last RATES) * (112 / 100)) # finish_fig out,
            ch_title = ''Submit latency vs offered load'',
            ch_subtitle = ''POST /jobs on the local compose stack; 30s per rate window - lower is better'',
            ch_lines = map (\<lambda>(name, ys). \<lparr>ln_name = name, ln_colour = the (map_of RAMP name), ln_points = zip RATES ys\<rparr>) series,
            ch_notes = map (\<lambda>(name, ys). (name, last RATES, last ys)) series,
            ch_xlabel = ''offered load (submissions / second)'', ch_ylabel = ''latency (ms)''\<rparr>, [''wrote '' @ out]))"

definition prom_range ::
    "(string \<Rightarrow> exn + json_text) \<Rightarrow> py_runtime \<Rightarrow> string \<Rightarrow> string \<Rightarrow> int \<Rightarrow> int \<Rightarrow> int \<Rightarrow> exn + (pyfloat \<times> pyfloat) list" where
  "prom_range fetch rt base query start stop step =
     rbind (fetch (base @ ''/api/v1/query_range?'' @
              urlencode [(''query'', query), (''start'', int_str start), (''end'', int_str stop), (''step'', int_str step)])) (\<lambda>resp.
     case rbind (json_loads resp) (\<lambda>data. rbind (json_item data ''data'') (\<lambda>d. rbind (json_item d ''result'') (\<lambda>result.
         if \<not> py_truthy result then Inr []
         else rbind (rbind (rbind (json_first result) (\<lambda>r. json_item r ''values'')) json_iter) (\<lambda>values.
           map_res (\<lambda>tv. rbind (unpack_pair tv) (\<lambda>(t, v). rbind (py_float rt t) (\<lambda>ft. rbind (py_float rt v) (\<lambda>fv. Inr (ft, fv))))) values)))) of
       Inl e \<Rightarrow> Inl (Py e) | Inr points \<Rightarrow> Inr points)"

fun minutes_since :: "int \<Rightarrow> pyfloat \<Rightarrow> pyfloat" where
  "minutes_since start (Fin t) = Fin ((t - of_int start) / 60)"
| "minutes_since start f = f"

fun timeline_loop ::
    "(string \<Rightarrow> exn + (pyfloat \<times> pyfloat) list) \<Rightarrow> int \<Rightarrow> (string \<times> string) list \<Rightarrow> ('l, pyfloat, pyfloat) chart \<times> string list \<Rightarrow>
       exn + ('l, pyfloat, pyfloat) chart \<times> string list" where
  "timeline_loop ask start [] acc = Inr acc"
| "timeline_loop ask start ((name, query) # queries) (c, printed) =
     rbind (ask query) (\<lambda>points.
       if points = [] then timeline_loop ask start queries (c, printed @ [''warning: no data for '' @ name])
       else
         let line = map (\<lambda>(t, v). (minutes_since start t, v)) points in
         timeline_loop ask start queries
           (c\<lparr>ch_lines := ch_lines c @ [\<lparr>ln_name = name, ln_colour = the (map_of CAT name), ln_points = line\<rparr>],
              ch_notes := ch_notes c @ [(name, last line)]\<rparr>, printed))"

definition chart_timeline ::
    "'l list \<Rightarrow> (string \<Rightarrow> exn + json_text) \<Rightarrow> py_runtime \<Rightarrow> string \<Rightarrow> int \<Rightarrow> int \<Rightarrow> string \<Rightarrow> exn + ('l, pyfloat, pyfloat) chart \<times> string list" where
  "chart_timeline ticks fetch rt base start stop out =
     rbind (timeline_loop (\<lambda>query. prom_range fetch rt base query start stop 5) start
       [(''submitted'', ''sum(rate(orbiter_jobs_submitted_total[15s]))''),
        (''completed'', ''sum(rate(orbiter_jobs_completed_total[15s]))'')]
       (\<lparr>ch_frame = new_fig ticks ''Throughput during the load test''
           ''submissions accepted vs jobs completed; the gap is the queue absorbing overload'' @ finish_fig out,
         ch_title = ''Throughput during the load test'',
         ch_subtitle = ''submissions accepted vs jobs completed; the gap is the queue absorbing overload'',
         ch_lines = [], ch_notes = [], ch_xlabel = ''minutes since test start'', ch_ylabel = ''jobs / second''\<rparr>, [])) (\<lambda>(c, printed). Inr (c, printed @ [''wrote '' @ out]))"

text \<open>\<^verbatim>\<open>main\<close>. \<open>opts\<close> are the options the parser found, by name; it exits when a required one is missing or a number
  does not parse (\<open>None\<close>). The summary's text is read before anything is drawn, and an exception in the
  first chart leaves the second undrawn.\<close>

record chart_args =
  arg_summary :: string
  arg_start :: int
  arg_end :: int
  arg_prometheus :: string
  arg_out_dir :: string

definition parse_args :: "(string \<rightharpoonup> string) \<Rightarrow> chart_args option" where
  "parse_args opts =
     (case (opts ''summary'', map_option (\<lambda>t. py_int (JStr t)) (opts ''start''), map_option (\<lambda>t. py_int (JStr t)) (opts ''end'')) of
        (Some summary, Some (Inr start), Some (Inr stop)) \<Rightarrow>
          Some \<lparr>arg_summary = summary, arg_start = start, arg_end = stop,
                arg_prometheus = (case opts ''prometheus'' of None \<Rightarrow> ''http://localhost:9090'' | Some u \<Rightarrow> u),
                arg_out_dir = (case opts ''out-dir'' of None \<Rightarrow> ''results'' | Some d \<Rightarrow> d)\<rparr>
      | _ \<Rightarrow> None)"

definition charts_main ::
    "'l list \<Rightarrow> (string \<Rightarrow> exn + json_text) \<Rightarrow> (string \<Rightarrow> exn + json_text) \<Rightarrow> py_runtime \<Rightarrow> chart_args \<Rightarrow>
       exn + ('l, int, json) chart \<times> ('l, pyfloat, pyfloat) chart \<times> string list" where
  "charts_main ticks read_text fetch rt args =
     rbind (read_text (arg_summary args)) (\<lambda>summary.
      case rbind (json_loads summary) (\<lambda>s. chart_latency ticks s (arg_out_dir args @ ''/latency-vs-load.png'')) of
        Inl e \<Rightarrow> Inl (Py e)
      | Inr (latency, printed) \<Rightarrow>
          rbind (chart_timeline ticks fetch rt (arg_prometheus args) (arg_start args) (arg_end args)
              (arg_out_dir args @ ''/throughput-timeline.png'')) (\<lambda>(timeline, printed').
            Inr (latency, timeline, printed @ printed')))"

section \<open>What the charts show\<close>

lemma map_res_length: "map_res f xs = Inr ys \<Longrightarrow> length ys = length xs"
  by (induction xs arbitrary: ys) auto

lemma latency_series_Inr:
  assumes "latency_series summary rates (as, bs, cs) = Inr (as', bs', cs')"
  shows "\<exists>ms xs ys zs. length ms = length rates \<and> as' = as @ xs \<and> bs' = bs @ ys \<and> cs' = cs @ zs \<and>
    list_all2 (\<lambda>rate m. rbind (json_item summary ''metrics'') (\<lambda>metrics. json_item metrics (rate_metric rate)) = Inr m) rates ms \<and>
    map_res (\<lambda>m. json_item m ''med'') ms = Inr xs \<and> map_res (\<lambda>m. json_item m ''p(95)'') ms = Inr ys \<and>
    map_res (\<lambda>m. json_item m ''p(99)'') ms = Inr zs"
  using assms
proof (induction rates arbitrary: as bs cs)
  case (Cons rate rates)
  then obtain m a b c where m: "rbind (json_item summary ''metrics'') (\<lambda>metrics. json_item metrics (rate_metric rate)) = Inr m"
      "json_item m ''med'' = Inr a" "json_item m ''p(95)'' = Inr b" "json_item m ''p(99)'' = Inr c"
      "latency_series summary rates (as @ [a], bs @ [b], cs @ [c]) = Inr (as', bs', cs')" by auto
  from Cons.IH [OF m(5)] obtain ms xs ys zs where ih: "length ms = length rates" "as' = as @ a # xs" "bs' = bs @ b # ys" "cs' = cs @ c # zs"
      "list_all2 (\<lambda>rate m. rbind (json_item summary ''metrics'') (\<lambda>metrics. json_item metrics (rate_metric rate)) = Inr m) rates ms"
      "map_res (\<lambda>m. json_item m ''med'') ms = Inr xs" "map_res (\<lambda>m. json_item m ''p(95)'') ms = Inr ys"
      "map_res (\<lambda>m. json_item m ''p(99)'') ms = Inr zs" by auto
  with m show ?case
    by (intro exI [of _ "m # ms"] exI [of _ "a # xs"] exI [of _ "b # ys"] exI [of _ "c # zs"]) simp
qed simp

text \<open>The latency chart has one line per percentile, in order, each with one point for every load rate of
  the test, and notes at the ends of the lines.\<close>

lemma latency_chart_shape:
  assumes "chart_latency ticks summary out = Inr (c, printed)"
  shows "map ln_name (ch_lines c) = [''p50'', ''p95'', ''p99''] \<and> (\<forall>l \<in> set (ch_lines c). map fst (ln_points l) = RATES) \<and>
    ch_notes c = map (\<lambda>l. (ln_name l, last (ln_points l))) (ch_lines c)"
proof -
  obtain p50 p95 p99 where s: "latency_series summary RATES ([], [], []) = Inr (p50, p95, p99)"
    using assms by (auto simp: chart_latency_def)
  from latency_series_Inr [OF s] have len: "length p50 = length RATES" "length p95 = length RATES" "length p99 = length RATES"
    by (auto dest!: map_res_length)
  have "last (zip RATES ys) = (last RATES, last ys)" if "length ys = length RATES" for ys :: "json list"
    using that by (auto simp: RATES_def length_Suc_conv)
  with assms s len show ?thesis by (auto simp: chart_latency_def Let_def)
qed

text \<open>On an answer in the server's format the points are its samples, in order; no answer, no line.\<close>

lemma prom_range_samples:
  assumes "fetch (base @ ''/api/v1/query_range?'' @ urlencode [(''query'', query), (''start'', int_str start), (''end'', int_str stop),
      (''step'', int_str step)]) = Inr (json_dumps (JObj [(''data'', JObj [(''result'', JArr series)])]))"
    and "series = [] \<or> (\<exists>rest. series = JObj [(''values'', JArr (map (\<lambda>(t, v). JArr [JFloat t, JFloat v]) samples))] # rest)"
  shows "prom_range fetch rt base query start stop step = Inr (if series = [] then [] else samples)"
proof -
  have "map_res (\<lambda>tv. rbind (unpack_pair tv) (\<lambda>(t, v). rbind (py_float rt t) (\<lambda>ft. rbind (py_float rt v) (\<lambda>fv. Inr (ft, fv)))))
      (map (\<lambda>(t, v). JArr [JFloat t, JFloat v]) samples) = Inr samples"
    by (induction samples) (auto simp: unpack_pair_def)
  with assms show ?thesis by (auto simp: prom_range_def dict_item_def)
qed

lemma timeline_loop_lines:
  assumes "timeline_loop ask start queries (c, printed) = Inr (c', printed')"
  shows "map ln_name (ch_lines c') = map ln_name (ch_lines c) @ map fst (filter (\<lambda>(name, q). ask q \<noteq> Inr []) queries) \<and>
    length printed' = length printed + length (filter (\<lambda>(name, q). ask q = Inr []) queries)"
  using assms
proof (induction queries arbitrary: c printed)
  case (Cons nq queries)
  obtain name q points where nq: "nq = (name, q)" "ask q = Inr points" using Cons.prems by (cases nq) auto
  show ?case
  proof (cases "points = []")
    case True
    with Cons.prems nq have "timeline_loop ask start queries (c, printed @ [''warning: no data for '' @ name]) = Inr (c', printed')" by simp
    from Cons.IH [OF this] nq True show ?thesis by simp
  next
    case False
    with Cons.prems nq obtain c1 where "timeline_loop ask start queries (c1, printed) = Inr (c', printed')"
        "map ln_name (ch_lines c1) = map ln_name (ch_lines c) @ [name]"
      by (auto simp: Let_def)
    with Cons.IH nq False show ?thesis by fastforce
  qed
qed simp

end
