(* ===== verification/Spec2Isabelle.thy ===== *)
theory Spec2Isabelle
  imports Overlap Board Stores Outage Fleet Requests Quarantine Services Charts
begin

text \<open>
  \<^bold>\<open>ORBITER: a job platform on an outbox, a broker, fenced leases and an audit trail.\<close>

  A client submits a job to the HTTP API under an idempotency key. One transaction writes the job row,
  its first two events and an outbox row. The relay publishes outbox rows to a work-queue stream and
  marks them. A worker fetches a message, takes an execution claim and a lease with a fencing token
  from a key-value store, records \<^verbatim>\<open>STARTED\<close>, executes, records the verdict with its token, and settles
  the message. A message whose deliveries are exhausted makes the broker emit an advisory; the
  dead-letter listener copies the message away and records \<^verbatim>\<open>DEAD_LETTERED\<close>, after which an operator
  can replay the job through the API.

  \<^bold>\<open>Theories and the code they model\<close> (paths below \<^verbatim>\<open>src/orbiter\<close>).
  \<^item> \<^verbatim>\<open>Prelude\<close>: results \<open>'e + 'a\<close> with \<open>rbind\<close>, traversal with errors, keyed updates of lists, and the
    language's exceptions. \<^verbatim>\<open>Py_Values\<close>: decimal and hexadecimal texts, \<^verbatim>\<open>int()\<close>, floats, JSON values,
    dicts and UUIDs, with the round trips the platform depends on (numbers and UUIDs through text).
    \<^verbatim>\<open>Doubles\<close>: the rounding of double precision arithmetic and its error bounds.
  \<^item> \<^verbatim>\<open>Domain\<close> (\<^verbatim>\<open>domain/model.py\<close>, \<^verbatim>\<open>domain/state_machine.py\<close>): states, events, the transition table,
    \<^verbatim>\<open>apply\<close> and \<^verbatim>\<open>replay\<close>; the relation \<open>lifecycle\<close> states the same rules independently of the table.
  \<^item> \<^verbatim>\<open>KV_Store\<close> (\<^verbatim>\<open>kv/store.py\<close>, \<^verbatim>\<open>kv/valkey.py\<close>): the protocol \<^verbatim>\<open>KeyValueStore\<close> as the record \<open>kv_ops\<close> and
    its contract as the locale \<open>key_value_store\<close>, interpreted by the in-memory store and, through the
    locale \<open>redis_server\<close> of documented server behaviour, by the Valkey client. A reference server shows
    that the documented behaviour can be met.
  \<^item> \<^verbatim>\<open>Leases\<close> (\<^verbatim>\<open>leases/fencing.py\<close>) and \<^verbatim>\<open>Idempotency\<close> (\<^verbatim>\<open>worker/idempotency.py\<close>): proved once inside the
    store's contract, hence for both stores.
  \<^item> \<^verbatim>\<open>Admission\<close> (\<^verbatim>\<open>api/admission.py\<close>), \<^verbatim>\<open>Executor\<close> (\<^verbatim>\<open>worker/executor.py\<close>), \<^verbatim>\<open>Config\<close> (\<^verbatim>\<open>config.py\<close>),
    \<^verbatim>\<open>Telemetry\<close> (\<^verbatim>\<open>telemetry.py\<close>).
  \<^item> \<^verbatim>\<open>Repo\<close> (\<^verbatim>\<open>db/repo.py\<close>): the tables as a record, each query and transaction as a function, and the
    invariant \<open>db_inv\<close>: every row is the projection of a legal log. \<^verbatim>\<open>History\<close>: the step relation of all
    transactions of all services on one database, its reachable states, and what no interleaving breaks.
    \<^verbatim>\<open>Board\<close>: an abstract job board (a key, a state and a newest token per job); every transaction is one of
    its moves or leaves it as it is, and every move is a transaction.
  \<^item> \<^verbatim>\<open>Broker\<close>: the JetStream operations the services call, as a record of functions, what is relied on
    of them (locale \<open>js_stores\<close>: an acknowledged publish is stored, or its id was stored before), and
    \<^verbatim>\<open>ensure_stream\<close>. \<^verbatim>\<open>Relay\<close> (\<^verbatim>\<open>relay/outbox_relay.py\<close>), \<^verbatim>\<open>Dlq\<close> (\<^verbatim>\<open>dlq/listener.py\<close>).
    \<^verbatim>\<open>Fleet\<close>: any number of relays whose selects, publishes and commits interleave. \<^verbatim>\<open>Quarantine\<close>: the
    handling of an advisory taken apart at its five calls, with deaths, failing calls, redeliveries and the
    rest of the system in between (locale \<open>js_work_stream\<close> for what it asks of the broker).
  \<^item> \<^verbatim>\<open>Worker\<close> (\<^verbatim>\<open>worker/main.py\<close>): \<^verbatim>\<open>handle\<close>, \<^verbatim>\<open>process\<close> and the loop, with arbitrary interference by the rest
    of the system at every \<^verbatim>\<open>await\<close>; the locales \<open>kv_frame\<close> and \<open>worker_frame\<close> carry properties through
    all of it. \<^verbatim>\<open>Delivery\<close>: what a delivery achieves on each path. \<^verbatim>\<open>Crash\<close>: the states a worker killed
    at any of its awaits leaves behind, computed by running \<^verbatim>\<open>handle\<close> on a watched world (shown to change
    nothing but the log), and the recovery from each of them. \<^verbatim>\<open>Overlap\<close>: jobs that execute longer than the
    broker waits for an acknowledgement. \<^verbatim>\<open>Faults\<close>: the same \<^verbatim>\<open>handle\<close> with every call of the store, the
    database and the broker free to raise, before or after its effect, in a state-and-exception monad
    with a small triple calculus; without faults it is \<^verbatim>\<open>Worker\<close>'s \<^verbatim>\<open>handle\<close>. \<^verbatim>\<open>Outage\<close>: recovery from such
    failures. \<^verbatim>\<open>Stores\<close>: a worker on the in-memory store and one on Valkey compared (locales \<open>kv_twins\<close>
    and \<open>store_pair\<close>).
  \<^item> \<^verbatim>\<open>Api\<close> (\<^verbatim>\<open>api/app.py\<close>): every handler. \<^verbatim>\<open>Requests\<close>: submissions that run at the
    same time. \<^verbatim>\<open>Services\<close>: \<^verbatim>\<open>run\<close> and \<^verbatim>\<open>amain\<close> of the three workers and the API's
    life, with the connections they open and close (locale \<open>service\<close>). \<^verbatim>\<open>Charts\<close>
    (\<^verbatim>\<open>scripts/make_charts.py\<close>): the data of the load-test charts and the drawing calls made with it. \<^verbatim>\<open>Platform\<close> and this theory: the
    components together.

  \<^bold>\<open>What is shown.\<close>
  Audit trail: in every reachable database each job row is the replay of its log, finished jobs stay
  finished, a writer once overtaken by a newer token is refused for ever, and a key always leads to
  the same job. The database implements the job board. The fence in the table refines the in-memory \<^verbatim>\<open>FencedWriter\<close>.
  Leases: tokens grow, a lease excludes, a paused holder is fenced out at the write.
  Worker: a delivery is acknowledged only for a job whose work is done, its lease is always given
  back, success and failure run the documented ladder, an overtaken worker stands down. With calls that
  fail, still no message is acknowledged for a job whose work is not done. A worker cannot tell
  the two stores apart.
  Relay and listener: a round publishes exactly the next free rows and marks them; interleaved relays
  publish every row, and more than once only after an interrupted round; the outbox drains into the
  stream; the listener acknowledges what it fetches one by one, and what can stop it is named; a poison
  message is never lost however its quarantine is interrupted, and the next undisturbed delivery of the
  advisory completes it. None of this assumes that the server remembers a message id for longer than
  it likes: a repeated publish may be stored again, as it is after the duplicate window.
  API: status codes on every path; concurrent submissions stay within the capacity, and those with one
  key share one job; a status response shows the state of a prefix of the events it lists.
  Platform: the way of a job from submission to status, recovery from a worker killed at any await
  or failed by any of its calls, and the way of a poison job to quarantine and back.
  Some theorems record behaviour the comments do not promise: a worker crashed by its own failure
  handler, a fenced-out completion that terminates a queued job's message, an advisory that stops the
  listener, a duplicate submission that reports the wrong state, a holder whose token is below one
  granted before because acquisitions overlapped, a job longer than the acknowledgement wait, which is executed again by each of its
  redeliveries and ends dead-lettered, a replay that an interrupted quarantine undoes, and advisories
  acknowledged although their quarantine failed.

  \<^bold>\<open>Modelling decisions.\<close>
  A transaction is one atomic step and rolls back entirely when it raises; the row lock taken by
  \<^verbatim>\<open>FOR UPDATE\<close> justifies this for \<^verbatim>\<open>_apply_event\<close>. The rows another relay has locked (\<^verbatim>\<open>SKIP LOCKED\<close>) are
  an argument. The two reads of \<^verbatim>\<open>get_job\<close> are not a transaction, and other sessions may commit in between. Columns check their ranges (32 and 64 bits) and raise otherwise. A UUID is a 128-bit
  word. A JSON text is the result of parsing it, so printing then parsing is the identity and a
  malformed text is an error value; texts the database's \<^verbatim>\<open>jsonb\<close> or \<^verbatim>\<open>text\<close> columns would refuse (NUL
  characters, \<^verbatim>\<open>NaN\<close>) are not modelled. Finite floats are reals; where the control flow
  depends on their rounding, in the executor's countdown and in conversions from integers, it is written out
  with \<open>fl64\<close>, elsewhere sums and products are exact. Clocks, sleeps, random draws, fresh
  UUIDs and the trace propagator are arguments. In \<^verbatim>\<open>Worker\<close> the store, the database and the broker
  answer every call of a delivery; \<^verbatim>\<open>Faults\<close> and \<^verbatim>\<open>Outage\<close> lift this. In the relay and the listener a broker
  call may raise, acknowledgements included, and so may the fetch of every loop. Logging and spans have no effect on
  the state and are left out; counters are kept. Requests arrive decoded and validated by the framework.

  \<^bold>\<open>Loops.\<close>
  The executor counts down in doubles and would never end from about \<open>2 ^ 51\<close> seconds on, where a slice
  is lost in the rounding: the loop is a \<^verbatim>\<open>partial_function\<close> in the option monad, shown to return for
  every duration of up to a thousand seconds, which is more than the API admits. The service loops, which run until a signal, are folds over an arbitrary finite
  list of rounds, so what is shown holds for every number of rounds; no fuel is used anywhere.

  \<^bold>\<open>Not modelled.\<close>
  What the client libraries do to open and close a connection (only its outcome is), the installation
  of signal handlers (a signal is part of a round of a loop), the schema's DDL beyond the tables, keys
  and defaults it gives, routing and request decoding by the web framework, the text of the static chaos page
  (an argument), and what the plotting library makes of the calls of the chart script.
\<close>

section \<open>Examples\<close>

definition demo_empty_app :: "unit app_state" where
  "demo_empty_app = demo_app\<lparr>app_db := empty_db 0\<rparr>"

definition demo_poison :: pydict where
  "demo_poison = [(''duration_ms'', JInt 10), (''poison'', JBool True)]"

definition demo_poison_db :: db where
  "demo_poison_db = submitted_db 1 [] ''key-1'' demo_poison ''orbiter.jobs'' (empty_db 0)"

definition demo_poison_listener :: "ref_broker listener" where
  "demo_poison_listener = \<lparr>ls_db = demo_poison_db, ls_broker = ref_holding (json_dumps (submit_message 1 demo_poison [])),
     ls_quarantined = 0, ls_acked = 0\<rparr>"

section \<open>Properties of the platform\<close>

text \<open>C1: The whole way of a job that is not poison: a submission under a new key, when a slot is free, is
  answered 201. If everything else in the outbox was published before, and the stream has not seen the
  id of the new row, a relay round that returns stores exactly one new message at the broker, on
  the jobs subject. A worker that receives that message, finds no claim, lease or done marker for the
  job, is not disturbed and executes it with success acknowledges it. In every state of the
  database that any further transactions of any service lead to from then on, the status endpoint,
  asked with the id of the first response, reports the job as \<open>succeeded\<close>.\<close>

theorem job_travels_from_submission_to_status:
  assumes "key_value_store kv ok now held ctr deadline advance"
    and "history_inv (app_db a)" and "find_job i (app_db a) = None"
    and "find (\<lambda>r. jr_key r = key) (jobs (app_db a)) = None" and "unpublished (app_db a) = []"
    and "0 \<le> in_flight (app_admission a)" and "in_flight (app_admission a) < capacity (app_admission a)"
    and "\<not> rq_poison body"
    and "1 \<le> relay_batch_size cfg" and "carrier_keeps_id tel" and "js_stores js stored"
    and "''outbox-'' @ int_str (outbox_seq (app_db a) + 1) \<notin> sm_id ` set (stored b)"
    and "api_submit cfg i carrier id body key a = (out, a1)"
    and "relay_once js tel rt cfg {} (app_db a1) b = (Inr k, d2, b2)"
    and "world_db w = d2" and "ok (sh_kv (w_shared w))"
    and "\<forall>x \<in> {done_key (uuid_str i), claim_key (uuid_str i), lease_key (uuid_str i)}. held (sh_kv (w_shared w)) x = None"
    and "ctr (sh_kv (w_shared w)) (token_key (uuid_str i)) = Some n" and "0 \<le> n" and "n < 2 ^ 63 - 1"
    and "0 < lease_ttl_s cfg" and "0 < exec_guard_ttl_s cfg" and "only_during (w_awaits w + 5) (\<lambda>sh. sh) w"
    and "execute (rq_duration_ms body) (rq_failure_rate body) (w_rng w (w_draws w)) sleep (w_now w) = (Inr result, finished)"
  shows "\<exists>r m w'. out = Inr (201, r) \<and> stored b2 = stored b @ [m] \<and> sm_subject m = subject_jobs cfg \<and>
    process kv tel rt sleep cfg wid \<lparr>msg_data = sm_data m, msg_headers = hs, num_delivered = 1\<rparr> w = (Inr (), w') \<and>
    w_actions w' = w_actions w @ [Ack] \<and>
    (\<forall>d'. db_steps (world_db w') d' \<longrightarrow> (\<exists>kvs. api_status rt others (rs_id r) (a1\<lparr>app_db := d'\<rparr>) = Inr (JObj kvs) \<and>
      dict_get kvs ''state'' = Some (JStr ''succeeded'')))"
proof -
  let ?d1 = "submitted_db i carrier key (model_dump body) (subject_jobs cfg) (app_db a)"
  have sub: "submit_job i carrier key (model_dump body) (subject_jobs cfg) (app_db a) = (Inr (i, True), ?d1)"
    using assms(3,4) by (simp add: submit_job_def transaction_def Let_def submitted_db_def submitted_row_def)
  let ?r = "\<lparr>rs_id = uuid_str i, rs_state = ''queued'', rs_created = True\<rparr>"
  have out: "out = Inr (201, ?r)" "app_db a1 = ?d1"
    using assms(6,7,13) sub
    by (auto simp: api_submit_def try_acquire_def adm_release_def in_flight_def)
  note rel = submission_relayed [OF assms(2-5,9-12) refl assms(14) [unfolded out(2)]]
  let ?m = "\<lparr>sm_id = ''outbox-'' @ int_str (outbox_seq (app_db a) + 1), sm_subject = subject_jobs cfg,
      sm_data = json_dumps (submit_message i (model_dump body) carrier)\<rparr>"
  have ready: "ready kv ok held ctr cfg i 1 n (submitted_row i key (model_dump body) (db_now (app_db a))) w"
    using assms(15-22) rel(2,3) by (simp add: ready_def int4_ok_def) (simp add: submitted_row_def)
  have poison: "\<not> py_truthy (dict_get_none (model_dump body) ''poison'')"
    using assms(8) by (simp add: dict_get_none_def dict_get_def model_dump_def)
  show ?thesis
  proof (rule key_value_store.delivery_succeeds [OF assms(1) ready assms(23) poison exec_args_model_dump [of rt] assms(24),
        where wid = wid and delivery = "wid @ '':'' @ int_str 1"])
    fix w' row' assume w': "handle kv rt sleep cfg wid i (JObj (model_dump body)) 1 (wid @ '':'' @ int_str 1) w = (Inr (), w')"
      "w_actions w' = w_actions w @ [Ack]" "find_job i (world_db w') = Some row'" "jr_state row' = job_state_value S_SUCCEEDED"
    have "rely_db w" using assms(23) by (simp add: rely_db_def only_during_def)
    then have "following (world_db w) w'" using follow.handle_keeps [of "world_db w" w kv rt sleep cfg wid i] w'(1) by (metis following_def rtranclp.rtrancl_refl snd_conv)
    then have inv: "history_inv (world_db w')" using rel(2) assms(15) history_inv_steps by (auto simp: following_def)
    have "\<exists>kvs. api_status rt others (rs_id ?r) (a1\<lparr>app_db := d'\<rparr>) = Inr (JObj kvs) \<and> dict_get kvs ''state'' = Some (JStr ''succeeded'')"
      if steps: "db_steps (world_db w') d'" for d'
    proof -
      obtain row2 where "find_job i d' = Some row2" "jr_state row2 = ''succeeded''"
        using terminal_row_stays [OF steps inv w'(3,4)] w'(4) by (auto simp: is_terminal_def TERMINAL_STATES_def)
      with status_of_row [of i d' row2 rt others a1] show ?thesis by simp
    qed
    moreover have "process kv tel rt sleep cfg wid \<lparr>msg_data = sm_data ?m, msg_headers = hs, num_delivered = 1\<rparr> w = (Inr (), w')"
      using w'(1) by (simp add: process_submitted)
    ultimately show ?thesis using out(1) rel(1) w'(2)
      by (intro exI [of _ ?r] exI [of _ ?m] exI [of _ w']) simp
  qed
qed

theorem job_travels_from_submission_to_status_witness:
  "\<exists>r a1 d2 b2 w' kvs. api_submit Settings 1 [] id \<lparr>rq_duration_ms = 10, rq_failure_rate = Fin 0, rq_poison = False\<rparr> ''key-1'' demo_empty_app =
       (Inr (201, r), a1) \<and>
     relay_once ref_js demo_otel demo_runtime Settings {} (app_db a1) (ref_broker0 0) = (Inr 1, d2, b2) \<and>
     process mem_kv demo_otel demo_runtime (\<lambda>d t. t + d) Settings ''w1''
       \<lparr>msg_data = sm_data (last (rb_msgs b2)), msg_headers = [], num_delivered = 1\<rparr>
       (demo_world\<lparr>w_shared := \<lparr>sh_kv = InMemoryKV (FakeClock 0), sh_db = d2\<rparr>\<rparr>) = (Inr (), w') \<and>
     api_status demo_runtime id (rs_id r) (a1\<lparr>app_db := world_db w'\<rparr>) = Inr (JObj kvs) \<and>
     dict_get kvs ''state'' = Some (JStr ''succeeded'')"
proof -
  let ?body = "\<lparr>rq_duration_ms = 10, rq_failure_rate = Fin 0, rq_poison = False\<rparr>"
  obtain out a1 where sub: "api_submit Settings 1 [] id ?body ''key-1'' demo_empty_app = (out, a1)" by fastforce
  have md: "model_dump ?body = demo_payload" by (simp add: model_dump_def demo_payload_def)
  then have a1: "app_db a1 = demo_db"
    using sub by (auto simp: api_submit_def demo_empty_app_def demo_app_def try_acquire_def adm_release_def demo_db_def
        Settings_def submit_job_def transaction_def empty_db_def find_job_def Let_def)
  obtain d2 b2 where rel: "relay_once ref_js demo_otel demo_runtime Settings {} (app_db a1) (ref_broker0 0) = (Inr 1, d2, b2)"
    by (simp add: a1 relay_once_def demo_batch Settings_def demo_relay_rows demo_relay_row ref_publish_def
        ref_broker0_def Let_def) (simp add: demo_db_outbox)
  let ?w = "demo_world\<lparr>w_shared := \<lparr>sh_kv = InMemoryKV (FakeClock 0), sh_db = d2\<rparr>\<rparr>"
  obtain result finished where run: "execute 10 (Fin 0) (1 / 2) (\<lambda>d t. t + d) 0 = (Inr result, finished)" by (rule demo_execute)
  have db: "history_inv (app_db demo_empty_app)" "find_job 1 (app_db demo_empty_app) = None"
    "find (\<lambda>r. jr_key r = ''key-1'') (jobs (app_db demo_empty_app)) = None" "unpublished (app_db demo_empty_app) = []"
    using history_inv_empty by (simp_all add: demo_empty_app_def find_job_def unpublished_def) (simp_all add: empty_db_def)
  have adm: "0 \<le> in_flight (app_admission demo_empty_app)" "in_flight (app_admission demo_empty_app) < capacity (app_admission demo_empty_app)"
    by (simp_all add: demo_empty_app_def demo_app_def in_flight_def)
  have cfg: "1 \<le> relay_batch_size Settings" "0 < lease_ttl_s Settings" "0 < exec_guard_ttl_s Settings" by (simp_all add: Settings_def)
  have kv: "world_db ?w = d2" "mem_inv (sh_kv (w_shared ?w))"
    "\<forall>x \<in> {done_key (uuid_str 1), claim_key (uuid_str 1), lease_key (uuid_str 1)}. mem_held (sh_kv (w_shared ?w)) x = None"
    "mem_ctr (sh_kv (w_shared ?w)) (token_key (uuid_str 1)) = Some 0" "(0::int) \<le> 0" "(0::int) < 2 ^ 63 - 1"
    by (simp_all add: world_db_def) (simp add: mem_ctr_def InMemoryKV_def)
  have quiet: "only_during (w_awaits ?w + 5) (\<lambda>sh. sh) ?w" by (simp add: only_during_def demo_world_def)
  have new: "''outbox-'' @ int_str (outbox_seq (app_db demo_empty_app) + 1) \<notin> sm_id ` set (rb_msgs (ref_broker0 0))"
    by (simp add: ref_broker0_def)
  have sane: "\<not> rq_poison ?body" by simp
  have "execute (rq_duration_ms ?body) (rq_failure_rate ?body) (w_rng ?w (w_draws ?w)) (\<lambda>d t. t + d) (w_now ?w) = (Inr result, finished)"
    using run by simp
  from job_travels_from_submission_to_status [OF mem.key_value_store_axioms db adm sane cfg(1) demo_otel_keeps ref_js_stores
        new sub rel kv cfg(2,3) quiet this, where wid = "''w1''" and hs = "[]" and others = id]
  obtain r m w' where "out = Inr (201, r)" "rb_msgs b2 = rb_msgs (ref_broker0 0) @ [m]"
      "process mem_kv demo_otel demo_runtime (\<lambda>d t. t + d) Settings ''w1''
         \<lparr>msg_data = sm_data m, msg_headers = [], num_delivered = 1\<rparr> ?w = (Inr (), w')"
      and later: "\<forall>d'. db_steps (world_db w') d' \<longrightarrow> (\<exists>kvs. api_status demo_runtime id (rs_id r) (a1\<lparr>app_db := d'\<rparr>) = Inr (JObj kvs) \<and>
        dict_get kvs ''state'' = Some (JStr ''succeeded''))"
    by (elim exE conjE) (rule that; assumption)
  moreover from later obtain kvs where "api_status demo_runtime id (rs_id r) (a1\<lparr>app_db := world_db w'\<rparr>) = Inr (JObj kvs)"
      "dict_get kvs ''state'' = Some (JStr ''succeeded'')" by blast
  ultimately show ?thesis using sub rel
    by (intro exI [of _ r] exI [of _ a1] exI [of _ d2] exI [of _ b2] exI [of _ w'] exI [of _ kvs]) simp
qed

text \<open>C10: A worker may be killed at any moment: whichever await of an undisturbed, succeeding delivery its
  process ends at, before the acknowledgement has been sent, when the message is redelivered after the
  lease's time to live and before the done marker's, and this redelivery is undisturbed too and its own
  execution, with its own random draw, would succeed, then the redelivery settles the message with an
  acknowledgement or a termination, the job is \<open>succeeded\<close>, and its log has exactly one completion.\<close>

theorem killed_worker_is_recovered:
  assumes "key_value_store kv ok now held ctr deadline advance"
    and "ready kv ok held ctr cfg i attempt n row w" and "quiet w"
    and "\<not> py_truthy (dict_get_none p ''poison'')" and "exec_args rt p = Inr (dur, rate)"
    and "execute dur rate (w_rng w (w_draws w)) sleep (w_now w) = (Inr result, finished)"
    and "sh \<in> set (take 10 (kill_points kv rt sleep cfg wid i (JObj p) attempt delivery w))"
    and "quiet w'" and "w_shared w' = sh\<lparr>sh_kv := advance t (sh_kv sh)\<rparr>"
    and "of_int (lease_ttl_s cfg) + 1 / 1000 \<le> t" and "t < of_int (exec_guard_ttl_s cfg)"
    and "n + 1 < 2 ^ 63 - 1" and "int4_ok (attempt + 1)"
    and "execute dur rate (w_rng w' (w_draws w')) sleep (w_now w') = (Inr result', finished')"
  shows "\<exists>w'' a row' evs. handle kv rt sleep cfg wid' i (JObj p) (attempt + 1) delivery' w' = (Inr (), w'') \<and>
    w_actions w'' = w_actions w' @ [a] \<and> a \<in> {Ack, Term} \<and>
    find_job i (world_db w'') = Some row' \<and> jr_state row' = job_state_value S_SUCCEEDED \<and>
    replay_events i (world_db w'') = Inr evs \<and> length (filter (\<lambda>e. ev_type e = E_COMPLETED) evs) = 1"
  by (rule key_value_store.recovered_once [OF assms(1,2,4,5) key_value_store.kill_point_recoverable [OF assms(1-7)] assms(8-14)])

theorem killed_worker_is_recovered_witness:
  "\<exists>sh w'' evs. sh \<in> set (kill_points mem_kv demo_runtime (\<lambda>d t. t + d) Settings ''w1'' 1 (JObj demo_payload) 1 ''w1:1'' demo_world) \<and>
     handle mem_kv demo_runtime (\<lambda>d t. t + d) Settings ''w2'' 1 (JObj demo_payload) 2 ''w2:2''
       (demo_world\<lparr>w_shared := sh\<lparr>sh_kv := mem_advance (of_int (ack_wait_s Settings)) (sh_kv sh)\<rparr>\<rparr>) = (Inr (), w'') \<and>
     replay_events 1 (world_db w'') = Inr evs \<and> length (filter (\<lambda>e. ev_type e = E_COMPLETED) evs) = 1"
proof -
  obtain result finished where run: "execute 10 (Fin 0) (1 / 2) (\<lambda>d t. t + d) 0 = (Inr result, finished)" by (rule demo_execute)
  have q: "quiet demo_world" by (simp add: quiet_def demo_world_def)
  have ex: "execute 10 (Fin 0) (w_rng demo_world (w_draws demo_world)) (\<lambda>d t. t + d) (w_now demo_world) = (Inr result, finished)"
    using run by simp
  let ?sh = "kill_points mem_kv demo_runtime (\<lambda>d t. t + d) Settings ''w1'' 1 (JObj demo_payload) 1 ''w1:1'' demo_world ! 7"
  have "length (kill_points mem_kv demo_runtime (\<lambda>d t. t + d) Settings ''w1'' 1 (JObj demo_payload) 1 ''w1:1'' demo_world) = 11"
    using mem.kill_points_success [OF demo_ready q demo_args(1,2) ex] by (simp add: success_points_def Let_def)
  then have sh: "?sh \<in> set (take 10 (kill_points mem_kv demo_runtime (\<lambda>d t. t + d) Settings ''w1'' 1 (JObj demo_payload) 1 ''w1:1'' demo_world))"
    by (auto simp: in_set_conv_nth intro!: exI [of _ 7])
  let ?w' = "demo_world\<lparr>w_shared := ?sh\<lparr>sh_kv := mem_advance (of_int (ack_wait_s Settings)) (sh_kv ?sh)\<rparr>\<rparr>"
  have q': "quiet ?w'" by (simp add: quiet_def demo_world_def)
  have ex': "execute 10 (Fin 0) (w_rng ?w' (w_draws ?w')) (\<lambda>d t. t + d) (w_now ?w') = (Inr result, finished)" using run by simp
  have times: "of_int (lease_ttl_s Settings) + 1 / 1000 \<le> (of_int (ack_wait_s Settings) :: real)"
    "(of_int (ack_wait_s Settings) :: real) < of_int (exec_guard_ttl_s Settings)" "(0::int) + 1 < 2 ^ 63 - 1" "int4_ok (1 + 1)"
    by (simp_all add: Settings_def int4_ok_def)
  have shared: "w_shared ?w' = ?sh\<lparr>sh_kv := mem_advance (of_int (ack_wait_s Settings)) (sh_kv ?sh)\<rparr>" by simp
  from killed_worker_is_recovered [OF mem.key_value_store_axioms demo_ready q demo_args(1,2) ex sh q' shared times ex',
      where wid' = "''w2''" and delivery' = "''w2:2''"] in_set_takeD [OF sh]
  show ?thesis by auto
qed

text \<open>C12: The way of a poison job to quarantine and back: every delivery of its message is refused and
  touches nothing else; the advisory the broker emits when the deliveries are exhausted makes the
  listener dead-letter the job and acknowledge the advisory; the API then reports \<open>dead_letter\<close>, and a
  replay puts the job back to \<open>queued\<close> with one new outbox row, whose message is refused again.\<close>

theorem poison_job_is_quarantined_and_replayed:
  assumes "history_inv (ls_db l)" and "find_job i (ls_db l) = Some row" and "jr_state row = job_state_value S_QUEUED"
    and "jr_payload row = JObj p" and "py_truthy (dict_get_none p ''poison'')" and "int4_ok n"
    and "js_get_msg js (stream_name cfg) sq (ls_broker l) = (Inr (json_dumps (submit_message i p carrier)), b0)"
    and "js_publish js (subject_dlq cfg) (json_dumps (submit_message i p carrier)) (dlq_headers cfg (work_advisory cfg sq n)) b0 = (Inr (), b1)"
    and "js_delete_msg js (stream_name cfg) sq b1 = (Inr (), b2)" and "js_ack js (advisory_text cfg sq n) b2 = (Inr (), b3)"
  shows "(\<forall>w. process kv tel rt sleep cfg wid \<lparr>msg_data = json_dumps (submit_message i p carrier), msg_headers = hs, num_delivered = k\<rparr> w =
      (Inr (), msg_act (Nak (1 / 2)) w)) \<and>
    (\<exists>l' kvs a' ob. handle_advisory js tel rt cfg (advisory_text cfg sq n) l = (Inr (), l') \<and>
      ls_acked l' = ls_acked l + 1 \<and> ls_broker l' = b3 \<and>
      api_status rt others (uuid_str i) (a\<lparr>app_db := ls_db l'\<rparr>) = Inr (JObj kvs) \<and> dict_get kvs ''state'' = Some (JStr ''dead_letter'') \<and>
      api_replay cfg (uuid_str i) (a\<lparr>app_db := ls_db l'\<rparr>) = (Inr [(''id'', uuid_str i), (''state'', ''queued'')], a') \<and>
      outbox (app_db a') = outbox (ls_db l') @ [ob] \<and> ob_published ob = None \<and> ob_subject ob = subject_jobs cfg \<and>
      (\<forall>w. process kv tel rt sleep cfg wid \<lparr>msg_data = json_dumps (ob_payload ob), msg_headers = hs, num_delivered = k\<rparr> w =
        (Inr (), msg_act (Nak (1 / 2)) w)))"
    (is "?refused \<and> (\<exists>l' kvs a' ob. ?story l' kvs a' ob)")
proof -
  let ?d1 = "write_event i E_DEAD_LETTERED n [(''stream_seq'', JInt sq), (''deliveries'', JInt n)] (jr_fence row) None S_DEAD_LETTER (ls_db l)"
  let ?l = "l\<lparr>ls_broker := b3, ls_quarantined := ls_quarantined l + 1, ls_db := ?d1, ls_acked := ls_acked l + 1\<rparr>"
  let ?msg = "JObj [(''job_id'', JStr (uuid_str i)), (''payload'', JObj p)]"
  let ?d2 = "insert_outbox i (subject_jobs cfg) ?msg (write_event i E_REPLAYED 0 [] (jr_fence row) None S_QUEUED ?d1)"
  note quarantined = advisory_quarantined [OF assms(1-3) _ assms(6-9), simplified]
  have dead: "handle_advisory js tel rt cfg (advisory_text cfg sq n) l = (Inr (), ?l)" "int8_ok (jr_fence row)"
    using assms(10) by (simp_all add: handle_advisory_def quarantined)
  have row1: "find_job i ?d1 = Some (upd_row S_DEAD_LETTER n (jr_fence row) None (db_now (ls_db l)) row)"
    by (rule find_job_written [OF assms(2) order_refl])
  from status_of_row [OF this, of rt others a] obtain kvs where
      kvs: "api_status rt others (uuid_str i) (a\<lparr>app_db := ?d1\<rparr>) = Inr (JObj kvs)" "dict_get kvs ''state'' = Some (JStr ''dead_letter'')" by auto
  have "replay_job i (subject_jobs cfg) ?d1 = (Inr (Some S_QUEUED), ?d2)"
    using replay_dead_letter [OF row1, of "subject_jobs cfg"] dead(2) assms(4) by (simp add: upd_row_def)
  moreover have "process kv tel rt sleep cfg wid \<lparr>msg_data = json_dumps ?msg, msg_headers = hs, num_delivered = k\<rparr> w =
      (Inr (), msg_act (Nak (1 / 2)) w)" for w
    by (subst process_message [where i = i and payload = p]) (simp_all add: dict_get_def poison_refused [OF assms(5)])
  ultimately have "?story ?l kvs (a\<lparr>app_db := ?d2\<rparr>) (last (outbox ?d2))"
    using dead(1) kvs by (simp add: api_replay_def parse_job_id_def uuid_of_str_str insert_outbox_def)
  moreover have ?refused by (simp add: process_submitted poison_refused [OF assms(5)])
  ultimately show ?thesis by blast
qed

theorem poison_job_is_quarantined_and_replayed_witness:
  "\<exists>l' a'. handle_advisory ref_js demo_quiet_otel demo_runtime Settings (advisory_text Settings 1 5) demo_poison_listener = (Inr (), l') \<and> ls_acked l' = 1 \<and>
     api_replay Settings (uuid_str 1) (demo_app\<lparr>app_db := ls_db l'\<rparr>) = (Inr [(''id'', uuid_str 1), (''state'', ''queued'')], a')"
proof -
  let ?row = "submitted_row 1 ''key-1'' demo_poison 0" and ?b = "ls_broker demo_poison_listener"
  let ?raw = "json_dumps (submit_message 1 demo_poison [])"
  let ?hs = "dlq_headers Settings (work_advisory Settings 1 5)"
  have "submit_job 1 [] ''key-1'' demo_poison ''orbiter.jobs'' (empty_db 0) = (Inr (1, True), demo_poison_db)"
    by (simp add: submit_job_def transaction_def demo_poison_db_def submitted_db_def submitted_row_def empty_db_def find_job_def Let_def)
  then have "history_inv demo_poison_db"
    using history_inv_submit [OF history_inv_empty, of 1 "[]" "''key-1''" demo_poison "''orbiter.jobs''" 0] by simp
  then have hist: "history_inv (ls_db demo_poison_listener)" by (simp add: demo_poison_listener_def)
  have row: "find_job 1 (ls_db demo_poison_listener) = Some ?row"
    using fresh_job_row [of 1 "empty_db 0" "[]" "''key-1''" demo_poison "''orbiter.jobs''"]
    by (simp add: demo_poison_listener_def demo_poison_db_def) (simp add: empty_db_def find_job_def)
  have poison: "jr_state ?row = job_state_value S_QUEUED" "jr_payload ?row = JObj demo_poison"
      "py_truthy (dict_get_none demo_poison ''poison'')" "int4_ok 5"
    by (simp_all add: submitted_row_def demo_poison_def dict_get_none_def dict_get_def int4_ok_def)
  have b: "?b = ref_holding ?raw" by (simp add: demo_poison_listener_def)
  obtain b1 b2 where js: "js_get_msg ref_js (stream_name Settings) 1 ?b = (Inr ?raw, ?b)"
      "js_publish ref_js (subject_dlq Settings) ?raw ?hs ?b = (Inr (), b1)" "js_delete_msg ref_js (stream_name Settings) 1 b1 = (Inr (), b2)"
    unfolding b by (rule ref_holding_services)
  have ack: "js_ack ref_js (advisory_text Settings 1 5) b2 = (Inr (), b2\<lparr>rb_acked := rb_acked b2 + 1\<rparr>)" by (simp add: ref_js_def)
  have "ls_acked demo_poison_listener = 0" by (simp add: demo_poison_listener_def)
  with poison_job_is_quarantined_and_replayed [OF hist row poison js ack, where tel = demo_quiet_otel and rt = demo_runtime
      and a = demo_app and kv = mem_kv and sleep = "\<lambda>d t. t + d" and wid = "''w1''" and hs = "[]" and k = 1 and others = id, THEN conjunct2]
  show ?thesis by auto
qed

text \<open>C39: What the API accepts, the worker can run: a request passes the API's bounds exactly if its
  duration is at most ten minutes and the domain's \<open>JobPayload\<close> accepts it; the arguments the worker
  reads back from the dumped payload are the request's own, without an exception, and the execution
  of an accepted request, whatever the random draw, gives a simulated failure if the draw is below
  the failure rate and a result otherwise.\<close>

theorem accepted_request_is_well_typed:
  "(submit_request_ok body \<longleftrightarrow> rq_duration_ms body \<le> 600000 \<and> is_ok (JobPayload (rq_duration_ms body) (rq_failure_rate body))) \<and>
   exec_args rt (model_dump body) = Inr (rq_duration_ms body, rq_failure_rate body) \<and>
   (submit_request_ok body \<longrightarrow> (case fst (execute (rq_duration_ms body) (rq_failure_rate body) draw sleep t) of
      Inl e \<Rightarrow> float_lt (Fin draw) (rq_failure_rate body) \<and> (\<exists>text. e = SimulatedFailure text)
    | Inr result \<Rightarrow> \<not> float_lt (Fin draw) (rq_failure_rate body) \<and> (\<exists>m. result = [(''elapsed_ms'', JInt m)])))"
proof (intro conjI impI)
  assume ok: "submit_request_ok body"
  then have "0 \<le> rq_duration_ms body" "rq_duration_ms body \<le> 1000000" by (auto simp: submit_request_ok_def)
  then show "case fst (execute (rq_duration_ms body) (rq_failure_rate body) draw sleep t) of
      Inl e \<Rightarrow> float_lt (Fin draw) (rq_failure_rate body) \<and> (\<exists>text. e = SimulatedFailure text)
    | Inr result \<Rightarrow> \<not> float_lt (Fin draw) (rq_failure_rate body) \<and> (\<exists>m. result = [(''elapsed_ms'', JInt m)])"
    by (rule execute_runs [of _ sleep t "rq_failure_rate body" draw]) simp
qed (cases "rq_failure_rate body"; auto simp: submit_request_ok_def JobPayload_ok)+

theorem accepted_request_is_well_typed_witness:
  "submit_request_ok (\<lparr>rq_duration_ms = 10, rq_failure_rate = Fin 0, rq_poison = False\<rparr>) \<and>
   (\<exists>m. fst (execute 10 (Fin 0) (1 / 2) (\<lambda>d t. t + d) 0) = Inr [(''elapsed_ms'', JInt m)])"
proof -
  have "submit_request_ok (\<lparr>rq_duration_ms = 10, rq_failure_rate = Fin 0, rq_poison = False\<rparr>)" by (simp add: submit_request_ok_def)
  then show ?thesis
    using accepted_request_is_well_typed [of "\<lparr>rq_duration_ms = 10, rq_failure_rate = Fin 0, rq_poison = False\<rparr>" demo_runtime "1 / 2" "\<lambda>d t. t + d" 0]
    by (simp split: sum.splits)
qed

end
